(* ===== verification/Prelude.thy ===== *)
theory Prelude
  imports Main "HOL-Library.Word" "HOL-Library.FSet"
begin

text \<open>
  What every component theory shares: the shapes a Rust result, option and integer take in
  the model, the text operations of the standard library that the domain crate calls, and
  the lemmas about them that carry the component proofs.

  \<^item> \<open>Result<T, E>\<close> is \<open>'e + 'a\<close> with \<open>Inl\<close> for \<open>Err\<close>; the operator \<open>?\<close> is \<open>rbind\<close>.
  \<^item> A call that may panic returns an option, \<open>None\<close> being the panic.
  \<^item> \<open>u64\<close>, \<open>u32\<close>, ... are words; \<open>checked_\<close> and \<open>saturating_\<close> arithmetic is written out.
  \<^item> A Rust string is its list of Unicode scalar values; \<open>byte_len\<close> is its UTF-8 length,
    which is what \<open>str::len\<close> counts.
\<close>

named_theorems result_simps \<open>unfolding of the result and option combinators\<close>
named_theorems word_nat \<open>reading checked machine arithmetic as arithmetic on naturals\<close>

section \<open>Results\<close>

definition rbind :: "'e + 'a \<Rightarrow> ('a \<Rightarrow> 'e + 'b) \<Rightarrow> 'e + 'b" where
  "rbind m f = (case m of Inl e \<Rightarrow> Inl e | Inr x \<Rightarrow> f x)"

definition ok_or :: "'a option \<Rightarrow> 'e \<Rightarrow> 'e + 'a" where
  "ok_or m e = (case m of None \<Rightarrow> Inl e | Some x \<Rightarrow> Inr x)"

definition map_err :: "('e \<Rightarrow> 'f) \<Rightarrow> 'e + 'a \<Rightarrow> 'f + 'a" where
  "map_err f m = (case m of Inl e \<Rightarrow> Inl (f e) | Inr x \<Rightarrow> Inr x)"

definition is_ok :: "'e + 'a \<Rightarrow> bool" where
  "is_ok m = (case m of Inl _ \<Rightarrow> False | Inr _ \<Rightarrow> True)"

lemma rbind_simps [simp, result_simps]:
  "rbind (Inl e) f = Inl e"
  "rbind (Inr x) f = f x"
  by (simp_all add: rbind_def)

lemma rbind_eq_Inr_iff: "rbind m f = Inr y \<longleftrightarrow> (\<exists>x. m = Inr x \<and> f x = Inr y)"
  by (cases m) simp_all

lemma rbind_eq_Inl_iff:
  "rbind m f = Inl e \<longleftrightarrow> m = Inl e \<or> (\<exists>x. m = Inr x \<and> f x = Inl e)"
  by (cases m) simp_all

lemma ok_or_simps [simp, result_simps]:
  "ok_or None e = Inl e"
  "ok_or (Some x) e = Inr x"
  by (simp_all add: ok_or_def)

lemma ok_or_eq_Inr_iff: "ok_or m e = Inr x \<longleftrightarrow> m = Some x"
  by (cases m) simp_all

lemma map_err_simps [simp, result_simps]:
  "map_err f (Inl e) = Inl (f e)"
  "map_err f (Inr x) = Inr x"
  by (simp_all add: map_err_def)

lemma map_err_eq_Inr_iff [simp]: "map_err f m = Inr x \<longleftrightarrow> m = Inr x"
  by (cases m) simp_all

lemma is_ok_simps [simp]:
  "\<not> is_ok (Inl e)"
  "is_ok (Inr x)"
  by (simp_all add: is_ok_def)

lemma is_ok_iff: "is_ok m \<longleftrightarrow> (\<exists>x. m = Inr x)"
  by (cases m) simp_all

section \<open>Searching a list\<close>

lemma find_SomeD: "find P xs = Some x \<Longrightarrow> x \<in> set xs \<and> P x"
  by (auto simp: find_Some_iff)

lemma find_unique:
  assumes "x \<in> set xs" and "P x" and "\<And>y. y \<in> set xs \<Longrightarrow> P y \<Longrightarrow> y = x"
  shows "find P xs = Some x"
proof -
  from assms(1,2) obtain y where y: "find P xs = Some y"
    by (cases "find P xs") (auto simp: find_None_iff)
  with find_SomeD [OF y] assms(3) show ?thesis by blast
qed

section \<open>Machine integers\<close>

type_synonym u8 = "8 word"
type_synonym u16 = "16 word"
type_synonym u32 = "32 word"
type_synonym u64 = "64 word"
type_synonym uuid = "128 word"

definition u_checked_add :: "'a::len word \<Rightarrow> 'a word \<Rightarrow> 'a word option" where
  "u_checked_add a b = (if unat a + unat b < 2 ^ LENGTH('a) then Some (a + b) else None)"

definition u_checked_sub :: "'a::len word \<Rightarrow> 'a word \<Rightarrow> 'a word option" where
  "u_checked_sub a b = (if b \<le> a then Some (a - b) else None)"

definition u_checked_mul :: "'a::len word \<Rightarrow> 'a word \<Rightarrow> 'a word option" where
  "u_checked_mul a b = (if unat a * unat b < 2 ^ LENGTH('a) then Some (a * b) else None)"

definition u_saturating_add :: "'a::len word \<Rightarrow> 'a word \<Rightarrow> 'a word" where
  "u_saturating_add a b = (if unat a + unat b < 2 ^ LENGTH('a) then a + b else - 1)"

definition u_saturating_sub :: "'a::len word \<Rightarrow> 'a word \<Rightarrow> 'a word" where
  "u_saturating_sub a b = (if b \<le> a then a - b else 0)"

definition u_saturating_mul :: "'a::len word \<Rightarrow> 'a word \<Rightarrow> 'a word" where
  "u_saturating_mul a b = (if unat a * unat b < 2 ^ LENGTH('a) then a * b else - 1)"

lemma unat_eq_less: "unat (c::'a::len word) = n \<Longrightarrow> n < 2 ^ LENGTH('a)"
  using unsigned_less [of c] by blast

lemma unat_u64_less [simp]: "unat (w::u64) < 18446744073709551616"
  by (rule less_le_trans [OF unsigned_less]) simp

lemma u_checked_add_Some [word_nat]:
  fixes a b c :: "'a::len word"
  shows "u_checked_add a b = Some c \<longleftrightarrow> unat c = unat a + unat b"
  by (auto simp: u_checked_add_def unat_word_ariths word_unat_eq_iff dest: unat_eq_less
      split: if_splits)

lemma u_checked_add_None: "u_checked_add (a::'a::len word) b = None \<longleftrightarrow> 2 ^ LENGTH('a) \<le> unat a + unat b"
  by (auto simp: u_checked_add_def)

lemma u_checked_sub_Some [word_nat]:
  "u_checked_sub a b = Some c \<longleftrightarrow> b \<le> a \<and> unat c = unat a - unat b"
  by (auto simp: u_checked_sub_def unat_sub word_le_nat_alt word_unat_eq_iff split: if_splits)

lemma u_checked_mul_Some [word_nat]:
  fixes a b c :: "'a::len word"
  shows "u_checked_mul a b = Some c \<longleftrightarrow> unat c = unat a * unat b"
  by (auto simp: u_checked_mul_def unat_word_ariths word_unat_eq_iff dest: unat_eq_less
      split: if_splits)

lemma u_checked_mul_None: "u_checked_mul (a::'a::len word) b = None \<longleftrightarrow> 2 ^ LENGTH('a) \<le> unat a * unat b"
  by (auto simp: u_checked_mul_def)

lemma unat_word_of_nat_u64: "n < 2 ^ 64 \<Longrightarrow> unat (word_of_nat n :: u64) = n"
  by (simp add: unat_of_nat take_bit_nat_eq_self)

lemma unat_word_of_nat_u128: "n < 2 ^ 128 \<Longrightarrow> unat (word_of_nat n :: 128 word) = n"
  by (simp add: unat_of_nat take_bit_nat_eq_self)

lemma unat_ucast_small:
  "unat (w :: 'a::len word) < 2 ^ LENGTH('b) \<Longrightarrow> unat (ucast w :: 'b::len word) = unat w"
  by (simp add: unsigned_ucast_eq take_bit_nat_eq_self)

lemma unat_minus_1: "unat (- 1 :: 'a::len word) = 2 ^ LENGTH('a) - 1"
  by (simp add: unsigned_minus_1_eq_mask mask_eq_exp_minus_1)

lemma unat_u_saturating_add [word_nat]:
  "unat (u_saturating_add (a::'a::len word) b) = min (unat a + unat b) (2 ^ LENGTH('a) - 1)"
  by (simp add: u_saturating_add_def unat_word_ariths unat_minus_1)

lemma unat_u_saturating_mul [word_nat]:
  "unat (u_saturating_mul (a::'a::len word) b) = min (unat a * unat b) (2 ^ LENGTH('a) - 1)"
  by (simp add: u_saturating_mul_def unat_word_ariths unat_minus_1)

lemma unat_u_saturating_sub [word_nat]:
  "unat (u_saturating_sub a b) = unat a - unat b"
  by (auto simp: u_saturating_sub_def unat_sub word_le_nat_alt)

end
