(* ===== verification/Text.thy ===== *)
theory Text
  imports Prelude
begin

text \<open>
  Rust strings and the operations of the standard library the domain crate applies to them.
  A \<open>str\<close> is its list of Unicode scalar values, so \<open>chars()\<close> is the list itself and
  \<open>len()\<close> is \<open>byte_len\<close>. \<open>lit\<close> reads an ASCII literal. Decimal printing (\<open>Display\<close> of
  an unsigned integer) and \<open>parse::<uN>\<close> are written out, with their round trip.
\<close>

type_synonym ustr = "nat list"

definition lit :: "string \<Rightarrow> ustr" where
  "lit s = map of_char s"

section \<open>Characters\<close>

definition utf8_width :: "nat \<Rightarrow> nat" where
  "utf8_width c = (if c < 128 then 1 else if c < 2048 then 2 else if c < 65536 then 3 else 4)"

definition byte_len :: "ustr \<Rightarrow> nat" where
  "byte_len s = sum_list (map utf8_width s)"

definition is_ascii_digit :: "nat \<Rightarrow> bool" where
  "is_ascii_digit c \<longleftrightarrow> 48 \<le> c \<and> c \<le> 57"

definition is_ascii_lower :: "nat \<Rightarrow> bool" where
  "is_ascii_lower c \<longleftrightarrow> 97 \<le> c \<and> c \<le> 122"

definition is_ascii_upper :: "nat \<Rightarrow> bool" where
  "is_ascii_upper c \<longleftrightarrow> 65 \<le> c \<and> c \<le> 90"

definition is_ascii_alphabetic :: "nat \<Rightarrow> bool" where
  "is_ascii_alphabetic c \<longleftrightarrow> is_ascii_lower c \<or> is_ascii_upper c"

definition is_ascii_graphic :: "nat \<Rightarrow> bool" where
  "is_ascii_graphic c \<longleftrightarrow> 33 \<le> c \<and> c \<le> 126"

definition is_control :: "nat \<Rightarrow> bool" where
  "is_control c \<longleftrightarrow> c \<le> 31 \<or> 127 \<le> c \<and> c \<le> 159"

text \<open>The code points with the Unicode property \<open>White_Space\<close>, as \<open>char::is_whitespace\<close>.\<close>

definition is_whitespace :: "nat \<Rightarrow> bool" where
  "is_whitespace c \<longleftrightarrow> 9 \<le> c \<and> c \<le> 13 \<or> c = 32 \<or> c = 133 \<or> c = 160 \<or> c = 5760 \<or>
     8192 \<le> c \<and> c \<le> 8202 \<or> c = 8232 \<or> c = 8233 \<or> c = 8239 \<or> c = 8287 \<or> c = 12288"

definition ascii_lower_char :: "nat \<Rightarrow> nat" where
  "ascii_lower_char c = (if is_ascii_upper c then c + 32 else c)"

definition ascii_upper_char :: "nat \<Rightarrow> nat" where
  "ascii_upper_char c = (if is_ascii_lower c then c - 32 else c)"

definition to_ascii_lowercase :: "ustr \<Rightarrow> ustr" where
  "to_ascii_lowercase s = map ascii_lower_char s"

definition to_ascii_uppercase :: "ustr \<Rightarrow> ustr" where
  "to_ascii_uppercase s = map ascii_upper_char s"

section \<open>Strings\<close>

definition trim_end_when :: "(nat \<Rightarrow> bool) \<Rightarrow> ustr \<Rightarrow> ustr" where
  "trim_end_when p s = rev (dropWhile p (rev s))"

definition trim :: "ustr \<Rightarrow> ustr" where
  "trim s = trim_end_when is_whitespace (dropWhile is_whitespace s)"

definition str_starts_with :: "ustr \<Rightarrow> ustr \<Rightarrow> bool" where
  "str_starts_with s p \<longleftrightarrow> take (length p) s = p"

definition str_ends_with :: "ustr \<Rightarrow> ustr \<Rightarrow> bool" where
  "str_ends_with s p \<longleftrightarrow> str_starts_with (rev s) (rev p)"

definition strip_prefix :: "ustr \<Rightarrow> ustr \<Rightarrow> ustr option" where
  "strip_prefix p s = (if str_starts_with s p then Some (drop (length p) s) else None)"

fun str_contains :: "ustr \<Rightarrow> ustr \<Rightarrow> bool" where
  "str_contains [] p \<longleftrightarrow> p = []"
| "str_contains (c # s) p \<longleftrightarrow> str_starts_with (c # s) p \<or> str_contains s p"

definition split_once :: "nat \<Rightarrow> ustr \<Rightarrow> (ustr \<times> ustr) option" where
  "split_once c s = (if c \<in> set s
     then Some (takeWhile (\<lambda>x. x \<noteq> c) s, tl (dropWhile (\<lambda>x. x \<noteq> c) s)) else None)"

fun split_on :: "nat \<Rightarrow> ustr \<Rightarrow> ustr list" where
  "split_on c [] = [[]]"
| "split_on c (x # s) =
     (if x = c then [] # split_on c s
      else (case split_on c s of [] \<Rightarrow> [[x]] | seg # segs \<Rightarrow> (x # seg) # segs))"

text \<open>\<open>split_whitespace\<close>, and \<open>trim_matches\<close> for one character.\<close>

fun split_when :: "(nat \<Rightarrow> bool) \<Rightarrow> ustr \<Rightarrow> ustr list" where
  "split_when p [] = [[]]"
| "split_when p (x # s) =
     (if p x then [] # split_when p s
      else (case split_when p s of [] \<Rightarrow> [[x]] | seg # segs \<Rightarrow> (x # seg) # segs))"

definition split_whitespace :: "ustr \<Rightarrow> ustr list" where
  "split_whitespace s = filter (\<lambda>w. w \<noteq> []) (split_when is_whitespace s)"

definition trim_char :: "nat \<Rightarrow> ustr \<Rightarrow> ustr" where
  "trim_char c s = trim_end_when (\<lambda>x. x = c) (dropWhile (\<lambda>x. x = c) s)"

definition strip_suffix :: "ustr \<Rightarrow> ustr \<Rightarrow> ustr option" where
  "strip_suffix p s = (if str_ends_with s p then Some (take (length s - length p) s) else None)"

fun join :: "ustr \<Rightarrow> ustr list \<Rightarrow> ustr" where
  "join sep [] = []"
| "join sep [w] = w"
| "join sep (w # v # ws) = w @ sep @ join sep (v # ws)"

section \<open>Decimal numbers\<close>

fun show_nat :: "nat \<Rightarrow> ustr" where
  "show_nat n = (if n < 10 then [48 + n] else show_nat (n div 10) @ [48 + n mod 10])"

declare show_nat.simps [simp del]

definition show_word :: "'a::len word \<Rightarrow> ustr" where
  "show_word w = show_nat (unat w)"

text \<open>\<open>{:0width$}\<close>: padded on the left with zeros.\<close>

definition pad_zeros :: "nat \<Rightarrow> ustr \<Rightarrow> ustr" where
  "pad_zeros k s = replicate (k - length s) 48 @ s"

definition dec_val :: "ustr \<Rightarrow> nat" where
  "dec_val s = foldl (\<lambda>a c. 10 * a + (c - 48)) 0 s"

text \<open>\<open>str::parse::<uN>\<close>: one leading plus sign is accepted, overflow is an error.\<close>

definition parse_uint :: "ustr \<Rightarrow> 'a::len word option" where
  "parse_uint s =
     (let d = (case s of [] \<Rightarrow> [] | c # r \<Rightarrow> if c = 43 then r else s)
      in if d = [] \<or> \<not> list_all is_ascii_digit d then None
         else if dec_val d < 2 ^ LENGTH('a) then Some (word_of_nat (dec_val d)) else None)"

text \<open>Signed 64-bit numbers, as integers: printing, \<open>str::parse::<i64>\<close>, saturating addition.\<close>

definition show_int :: "int \<Rightarrow> ustr" where
  "show_int i = (if i < 0 then 45 # show_nat (nat (- i)) else show_nat (nat i))"

definition parse_i64 :: "ustr \<Rightarrow> int option" where
  "parse_i64 s =
     (let neg = (case s of [] \<Rightarrow> False | c # _ \<Rightarrow> c = 45);
          d = (case s of [] \<Rightarrow> [] | c # r \<Rightarrow> if c = 45 \<or> c = 43 then r else s);
          v = (if neg then - int (dec_val d) else int (dec_val d))
      in if d = [] \<or> \<not> list_all is_ascii_digit d then None
         else if - (2 ^ 63) \<le> v \<and> v < 2 ^ 63 then Some v else None)"

definition i64_saturating_add :: "int \<Rightarrow> int \<Rightarrow> int" where
  "i64_saturating_add a b = max (- (2 ^ 63)) (min (2 ^ 63 - 1) (a + b))"

section \<open>Lemmas\<close>

lemma lit_simps [simp]:
  "lit [] = []"
  "lit (c # s) = of_char c # lit s"
  by (simp_all add: lit_def)

lemma str_starts_with_append [simp]: "str_starts_with (p @ s) p"
  by (simp add: str_starts_with_def)

lemma str_starts_with_iff: "str_starts_with s p \<longleftrightarrow> (\<exists>r. s = p @ r)"
  by (auto simp: str_starts_with_def) (metis append_take_drop_id)

lemma str_ends_with_iff: "str_ends_with s p \<longleftrightarrow> (\<exists>r. s = r @ p)"
  by (auto simp: str_ends_with_def str_starts_with_iff) (metis rev_append rev_rev_ident)

lemma strip_prefix_append [simp]: "strip_prefix p (p @ s) = Some s"
  by (simp add: strip_prefix_def)

lemma strip_prefix_Some_iff: "strip_prefix p s = Some r \<longleftrightarrow> s = p @ r"
  by (auto simp: strip_prefix_def str_starts_with_iff)

lemma split_once_append:
  "c \<notin> set a \<Longrightarrow> split_once c (a @ c # b) = Some (a, b)"
  by (induction a) (auto simp: split_once_def)

lemma split_once_SomeD:
  assumes "split_once c s = Some (a, b)"
  shows "s = a @ c # b \<and> c \<notin> set a"
proof -
  from assms have c: "c \<in> set s" and a: "a = takeWhile (\<lambda>x. x \<noteq> c) s"
    and b: "b = tl (dropWhile (\<lambda>x. x \<noteq> c) s)"
    by (auto simp: split_once_def split: if_splits)
  from c obtain d ds where d: "dropWhile (\<lambda>x. x \<noteq> c) s = d # ds"
    by (cases "dropWhile (\<lambda>x. x \<noteq> c) s") auto
  then have "d = c" using hd_dropWhile [of "\<lambda>x. x \<noteq> c" s] by auto
  with a b d have "s = a @ c # b" by (metis list.sel(3) takeWhile_dropWhile_id)
  moreover have "c \<notin> set a" using a by (auto dest: set_takeWhileD)
  ultimately show ?thesis by blast
qed

lemma split_once_None_iff: "split_once c s = None \<longleftrightarrow> c \<notin> set s"
  by (simp add: split_once_def)

lemma split_once_no_sep [simp]: "c \<notin> set s \<Longrightarrow> split_once c s = None"
  by (simp add: split_once_def)

lemma split_on_not_Nil [simp]: "split_on c s \<noteq> []"
  by (induction s) (auto split: list.splits)

lemma split_on_no_sep: "c \<notin> set s \<Longrightarrow> split_on c s = [s]"
  by (induction s) auto

lemma split_on_append: "c \<notin> set a \<Longrightarrow> split_on c (a @ c # s) = a # split_on c s"
  by (induction a) (auto split: list.splits)

lemma trim_no_ws: "list_all (\<lambda>c. \<not> is_whitespace c) s \<Longrightarrow> trim s = s"
proof -
  have *: "list_all (\<lambda>c. \<not> is_whitespace c) t \<Longrightarrow> dropWhile is_whitespace t = t" for t
    by (cases t) auto
  assume "list_all (\<lambda>c. \<not> is_whitespace c) s"
  then show ?thesis by (simp add: trim_def trim_end_when_def *)
qed

lemma trim_end_when_append:
  "b \<noteq> [] \<Longrightarrow> \<not> list_all p b \<Longrightarrow> trim_end_when p (a @ b) = a @ trim_end_when p b"
  by (auto simp: trim_end_when_def list_all_iff dropWhile_append1)

lemma trim_end_when_Nil_iff [simp]: "trim_end_when p s = [] \<longleftrightarrow> list_all p s"
  by (simp add: trim_end_when_def dropWhile_eq_Nil_conv list_all_iff)

lemma trim_end_when_Cons:
  "trim_end_when p (x # s) = (if list_all p s then if p x then [] else [x] else x # trim_end_when p s)"
proof (cases "list_all p s")
  case True
  then have "\<And>y. y \<in> set (rev s) \<Longrightarrow> p y" by (simp add: list_all_iff)
  then have "dropWhile p (rev s @ [x]) = dropWhile p [x]" by (rule dropWhile_append2)
  with True show ?thesis by (simp add: trim_end_when_def)
next
  case False
  then show ?thesis by (auto simp: trim_end_when_def list_all_iff dropWhile_append1)
qed

lemma list_all_dropWhile [simp]: "list_all p (dropWhile p s) \<longleftrightarrow> list_all p s"
  by (induction s) auto

lemma dropWhile_trim_end: "dropWhile p (trim_end_when p s) = trim_end_when p (dropWhile p s)"
proof (induction s)
  case (Cons x s)
  show ?case
  proof (cases "list_all p s")
    case True
    then have "trim_end_when p (dropWhile p s) = []" by simp
    with True show ?thesis by (simp add: trim_end_when_Cons del: trim_end_when_Nil_iff)
  next
    case False
    with Cons show ?thesis by (simp add: trim_end_when_Cons)
  qed
qed (simp add: trim_end_when_def)

lemma trim_end_when_idem: "trim_end_when p (trim_end_when p s) = trim_end_when p s"
  by (simp add: trim_end_when_def)

lemma trim_trim_end: "trim (trim_end_when is_whitespace s) = trim s"
  by (simp add: trim_def dropWhile_trim_end trim_end_when_idem)

lemma trim_end_when_set: "set (trim_end_when p s) \<subseteq> set s"
  by (auto simp: trim_end_when_def dest: set_dropWhileD)

lemma dropWhile_keeps: "c \<in> set s \<Longrightarrow> \<not> p c \<Longrightarrow> c \<in> set (dropWhile p s)"
  by (induction s) auto

lemma trim_end_when_keeps: "c \<in> set s \<Longrightarrow> \<not> p c \<Longrightarrow> c \<in> set (trim_end_when p s)"
  by (simp add: trim_end_when_def dropWhile_keeps)

lemma trim_keeps: "c \<in> set s \<Longrightarrow> \<not> is_whitespace c \<Longrightarrow> c \<in> set (trim s)"
  by (simp add: trim_def trim_end_when_keeps dropWhile_keeps)

lemma digit_not_ws: "is_ascii_digit c \<Longrightarrow> \<not> is_whitespace c"
  by (auto simp: is_ascii_digit_def is_whitespace_def)

lemma graphic_not_ws: "is_ascii_graphic c \<Longrightarrow> \<not> is_whitespace c"
  by (auto simp: is_ascii_graphic_def is_whitespace_def)

lemma byte_len_append [simp]: "byte_len (s @ t) = byte_len s + byte_len t"
  by (simp add: byte_len_def)

lemma byte_len_Cons [simp]: "byte_len (c # s) = utf8_width c + byte_len s"
  by (simp add: byte_len_def)

lemma byte_len_Nil [simp]: "byte_len [] = 0"
  by (simp add: byte_len_def)

lemma byte_len_ascii: "list_all (\<lambda>c. c < 128) s \<Longrightarrow> byte_len s = length s"
  by (induction s) (auto simp: utf8_width_def)

lemma byte_len_eq_0 [simp]: "byte_len s = 0 \<longleftrightarrow> s = []"
  by (cases s) (auto simp: utf8_width_def)

subsection \<open>Printing and parsing decimals\<close>

lemma show_nat_not_Nil [simp]: "show_nat n \<noteq> []"
  by (subst show_nat.simps) simp

lemma show_nat_digits: "list_all is_ascii_digit (show_nat n)"
proof (induction n rule: show_nat.induct)
  case (1 n)
  then show ?case
    by (subst show_nat.simps) (cases "n < 10", auto simp: is_ascii_digit_def [of "_ + _"])
qed

lemma dec_val_snoc [simp]: "dec_val (s @ [c]) = 10 * dec_val s + (c - 48)"
  by (simp add: dec_val_def)

lemma dec_val_show_nat [simp]: "dec_val (show_nat n) = n"
proof (induction n rule: show_nat.induct)
  case (1 n)
  then show ?case
    by (subst show_nat.simps) (auto simp: dec_val_def simp flip: dec_val_snoc)
qed

lemma dec_val_zeros: "dec_val (replicate k 48 @ s) = dec_val s"
  by (induction k) (auto simp: dec_val_def)

lemma dec_val_pad_zeros [simp]: "dec_val (pad_zeros k s) = dec_val s"
  by (simp add: pad_zeros_def dec_val_zeros)

lemma pad_zeros_digits: "list_all is_ascii_digit s \<Longrightarrow> list_all is_ascii_digit (pad_zeros k s)"
  by (auto simp: pad_zeros_def list_all_iff is_ascii_digit_def)

lemma length_pad_zeros: "length s \<le> k \<Longrightarrow> length (pad_zeros k s) = k"
  by (simp add: pad_zeros_def)

lemma length_show_nat_le_2: "n < 100 \<Longrightarrow> length (show_nat n) \<le> 2"
proof -
  assume "n < 100"
  then have "n div 10 < 10" by simp
  then show ?thesis by (simp add: show_nat.simps [of n] show_nat.simps [of "n div 10"])
qed

lemma show_word_not_Nil [simp]: "show_word w \<noteq> []"
  by (simp add: show_word_def)

lemma show_word_digits: "list_all is_ascii_digit (show_word w)"
  by (simp add: show_word_def show_nat_digits)

lemma dec_val_show_word [simp]: "dec_val (show_word w) = unat w"
  by (simp add: show_word_def)

lemma parse_uint_digits:
  assumes "s \<noteq> []" and "list_all is_ascii_digit s"
  shows "parse_uint s = (if dec_val s < 2 ^ LENGTH('a) then Some (word_of_nat (dec_val s) :: 'a::len word) else None)"
  using assms by (cases s) (auto simp: parse_uint_def is_ascii_digit_def)

lemma parse_uint_show_word [simp]: "parse_uint (show_word w) = Some (w :: 'a::len word)"
  by (simp add: parse_uint_digits show_word_digits)

lemma show_nat_head_digit: "\<exists>c r. show_nat n = c # r \<and> is_ascii_digit c"
  using show_nat_digits [of n] by (cases "show_nat n") auto

lemma parse_i64_show_int:
  assumes "- (2 ^ 63) \<le> i" and "i < 2 ^ 63"
  shows "parse_i64 (show_int i) = Some i"
proof (cases "i < 0")
  case True
  then show ?thesis using assms by (simp add: parse_i64_def show_int_def show_nat_digits)
next
  case False
  obtain c r where c: "show_nat (nat i) = c # r" "is_ascii_digit c" using show_nat_head_digit by blast
  then have "dec_val (c # r) = nat i" "list_all is_ascii_digit (c # r)"
    by (simp_all flip: c(1) add: show_nat_digits)
  with c False assms show ?thesis
    by (simp add: parse_i64_def show_int_def is_ascii_digit_def)
qed

lemma show_int_chars: "c \<in> set (show_int i) \<Longrightarrow> c = 45 \<or> is_ascii_digit c"
  using show_nat_digits by (auto simp: show_int_def list_all_iff split: if_splits)

lemma parse_i64_range: "parse_i64 s = Some i \<Longrightarrow> - (2 ^ 63) \<le> i \<and> i < 2 ^ 63"
  by (auto simp: parse_i64_def Let_def split: if_splits)

lemma trim_ends:
  assumes "\<not> is_whitespace c" and "\<not> is_whitespace d"
  shows "trim (c # s @ [d]) = c # s @ [d]"
  using assms by (simp add: trim_def trim_end_when_def)

lemma trim_hd_last:
  assumes "s \<noteq> []" and "\<not> is_whitespace (hd s)" and "\<not> is_whitespace (last s)"
  shows "trim s = s"
proof -
  have "dropWhile is_whitespace s = s" using assms(1,2) by (cases s) auto
  moreover have "trim_end_when is_whitespace s = s"
    using assms(1,3) by (cases s rule: rev_cases) (auto simp: trim_end_when_def)
  ultimately show ?thesis by (simp add: trim_def)
qed

lemma trim_single: "\<not> is_whitespace c \<Longrightarrow> trim [c] = [c]"
  by (simp add: trim_def trim_end_when_def)

lemma split_when_no: "list_all (\<lambda>c. \<not> p c) s \<Longrightarrow> split_when p s = [s]"
  by (induction s) auto

lemma dropWhile_not_in: "c \<notin> set s \<Longrightarrow> dropWhile (\<lambda>x. x = c) s = s"
  by (cases s) auto

lemma trim_char_no: "c \<notin> set s \<Longrightarrow> trim_char c s = s"
  by (simp add: trim_char_def trim_end_when_def dropWhile_not_in)

lemma trim_char_quoted: "c \<notin> set s \<Longrightarrow> trim_char c (c # s @ [c]) = s"
  by (cases s) (auto simp: trim_char_def trim_end_when_def dropWhile_not_in dropWhile_append3)

lemma strip_suffix_append [simp]: "strip_suffix p (s @ p) = Some s"
  by (simp add: strip_suffix_def str_ends_with_iff)

end
