(* ===== verification/Contracts.thy ===== *)
theory Contracts
  imports Text
begin

text \<open>
  The interfaces several components share, each with the facts that follow from it. A
  component's theory interprets them on its own definitions.

  \<^item> \<open>narrowing\<close>: a partial meet, the contract of \<open>PolicyLimits::intersect\<close>.
  \<^item> \<open>reparse\<close>: a parser and a printer of one type of value.
  \<^item> \<open>ordered_ruling\<close>: a ruling over a narrowing order that only gets worse.
  \<^item> \<open>transitions\<close>: a transition table with final states; \<open>object_machine\<close>: an object with
    an invariant whose fallible operation follows such a table, and leaves the object as it
    is when it refuses.
\<close>

section \<open>Narrowing\<close>

text \<open>A first value met with each of a list, stopping at the first failure.\<close>

definition fold_meet :: "('a \<Rightarrow> 'a \<Rightarrow> 'e + 'a) \<Rightarrow> 'a \<Rightarrow> 'a list \<Rightarrow> 'e + 'a" where
  "fold_meet meet a bs = foldl (\<lambda>r b. rbind r (\<lambda>x. meet x b)) (Inr a) bs"

lemma fold_meet_Nil [simp]: "fold_meet meet a [] = Inr a"
  by (simp add: fold_meet_def)

lemma foldl_rbind_Inl: "foldl (\<lambda>r b. rbind r (\<lambda>x. meet x b)) (Inl e) bs = Inl e"
  by (induction bs) simp_all

lemma fold_meet_Cons [simp]:
  "fold_meet meet a (b # bs) = rbind (meet a b) (\<lambda>m. fold_meet meet m bs)"
  by (cases "meet a b") (simp_all add: fold_meet_def foldl_rbind_Inl)

locale narrowing =
  fixes meet :: "'a \<Rightarrow> 'a \<Rightarrow> 'e + 'a"
    and le :: "'a \<Rightarrow> 'a \<Rightarrow> bool"
    and valid :: "'a \<Rightarrow> bool"
  assumes le_refl: "le a a"
    and le_trans: "le a b \<Longrightarrow> le b c \<Longrightarrow> le a c"
    and le_antisym: "valid a \<Longrightarrow> valid b \<Longrightarrow> le a b \<Longrightarrow> le b a \<Longrightarrow> a = b"
    and meet_valid: "valid a \<Longrightarrow> valid b \<Longrightarrow> meet a b = Inr m \<Longrightarrow> valid m"
    and meet_lower: "valid a \<Longrightarrow> valid b \<Longrightarrow> meet a b = Inr m \<Longrightarrow> le m a \<and> le m b"
    and meet_greatest: "valid a \<Longrightarrow> valid b \<Longrightarrow> meet a b = Inr m \<Longrightarrow> le x a \<Longrightarrow> le x b \<Longrightarrow> le x m"
    and meet_comparable: "valid a \<Longrightarrow> valid b \<Longrightarrow> le a b \<Longrightarrow> is_ok (meet a b)"
    and meet_commute: "valid a \<Longrightarrow> valid b \<Longrightarrow> meet a b = Inr m \<Longrightarrow> meet b a = Inr m"
begin

lemma meet_absorb:
  assumes "valid a" and "valid b" and "le a b"
  shows "meet a b = Inr a"
proof -
  from assms obtain m where m: "meet a b = Inr m" using meet_comparable by (auto simp: is_ok_iff)
  with assms have "le m a" "le a m"
    using meet_lower meet_greatest le_refl by blast+
  with assms m show ?thesis using le_antisym meet_valid by blast
qed

lemma meet_idem: "valid a \<Longrightarrow> meet a a = Inr a"
  by (rule meet_absorb) (simp_all add: le_refl)

lemma absorb_iff: "valid a \<Longrightarrow> valid b \<Longrightarrow> meet b a = Inr a \<longleftrightarrow> le a b"
  using meet_absorb meet_commute meet_lower by blast

lemma fold_bounds:
  assumes "valid a" and "list_all valid bs" and "fold_meet meet a bs = Inr m"
  shows "valid m \<and> le m a \<and> (\<forall>b\<in>set bs. le m b)"
  using assms
proof (induction bs arbitrary: a)
  case Nil
  then show ?case by (simp add: le_refl)
next
  case (Cons b bs)
  then obtain x where x: "meet a b = Inr x" "fold_meet meet x bs = Inr m"
    by (auto simp: rbind_eq_Inr_iff)
  with Cons.prems have "valid x" "le x a" "le x b"
    using meet_valid [of a b x] meet_lower [of a b x] by auto
  with Cons.IH [OF \<open>valid x\<close>] Cons.prems(2) x(2)
  have m: "valid m" "le m x" "\<forall>b\<in>set bs. le m b" by auto
  from le_trans [OF m(2) \<open>le x a\<close>] le_trans [OF m(2) \<open>le x b\<close>] m show ?case by simp
qed

lemma fold_greatest:
  assumes "valid a" and "list_all valid bs" and "fold_meet meet a bs = Inr m"
    and "le x a" and "\<forall>b\<in>set bs. le x b"
  shows "le x m"
  using assms
proof (induction bs arbitrary: a)
  case Nil
  then show ?case by simp
next
  case (Cons b bs)
  then obtain y where y: "meet a b = Inr y" "fold_meet meet y bs = Inr m"
    by (auto simp: rbind_eq_Inr_iff)
  with Cons.prems have "valid y" "le x y"
    using meet_valid [of a b y] meet_greatest [of a b y x] by auto
  with Cons.IH [OF _ _ y(2)] Cons.prems show ?case by simp
qed

text \<open>Two orders of the same layers that both succeed give the same value.\<close>

lemma fold_permute:
  assumes "valid a" "list_all valid bs" "valid a'" "list_all valid bs'"
    and "set (a # bs) = set (a' # bs')"
    and "fold_meet meet a bs = Inr m" and "fold_meet meet a' bs' = Inr m'"
  shows "m = m'"
proof -
  note b = fold_bounds [OF assms(1,2,6)] and b' = fold_bounds [OF assms(3,4,7)]
  from b have "\<forall>x\<in>set (a # bs). le m x" by simp
  then have "\<forall>x\<in>set (a' # bs'). le m x" unfolding assms(5) .
  then have "le m m'" using fold_greatest [OF assms(3,4,7)] by simp
  from b' have "\<forall>x\<in>set (a' # bs'). le m' x" by simp
  then have "\<forall>x\<in>set (a # bs). le m' x" unfolding assms(5) .
  then have "le m' m" using fold_greatest [OF assms(1,2,6)] by simp
  with b b' \<open>le m m'\<close> show ?thesis using le_antisym by blast
qed

end

text \<open>A ruling with a rank, over the order of a narrowing: narrower never ranks higher.\<close>

locale ordered_ruling = narrowing meet le valid
  for meet :: "'a \<Rightarrow> 'a \<Rightarrow> 'e + 'a" and le :: "'a \<Rightarrow> 'a \<Rightarrow> bool" and valid :: "'a \<Rightarrow> bool" +
  fixes rule :: "'a \<Rightarrow> 'q \<Rightarrow> 'd" and rank :: "'d \<Rightarrow> nat"
  assumes rule_mono: "valid a \<Longrightarrow> valid b \<Longrightarrow> le a b \<Longrightarrow> rank (rule a q) \<le> rank (rule b q)"
begin

lemma fold_rank:
  assumes "valid a" and "list_all valid bs" and "fold_meet meet a bs = Inr m" and "b \<in> set (a # bs)"
  shows "rank (rule m q) \<le> rank (rule b q)"
proof -
  have "valid m" "le m b" "valid b"
    using fold_bounds [OF assms(1-3)] assms(1,2,4) by (auto simp: list_all_iff)
  then show ?thesis by (intro rule_mono)
qed

lemma meet_rank:
  assumes "valid a" and "valid b" and "meet a b = Inr m"
  shows "rank (rule m q) \<le> min (rank (rule a q)) (rank (rule b q))"
  using assms meet_lower [OF assms] meet_valid [OF assms] by (simp add: rule_mono)

end

section \<open>Parsing what was printed\<close>

locale reparse =
  fixes parse :: "'s \<Rightarrow> 'e + 'a" and print :: "'a \<Rightarrow> 's" and good :: "'a \<Rightarrow> bool"
  assumes reparse: "good x \<Longrightarrow> parse (print x) = Inr x"
    and parse_good: "parse s = Inr x \<Longrightarrow> good x"
begin

lemma print_inj: "good x \<Longrightarrow> good y \<Longrightarrow> print x = print y \<Longrightarrow> x = y"
  using reparse by (metis sum.inject(2))

lemma parse_again: "parse s = Inr x \<Longrightarrow> parse (print x) = Inr x"
  by (rule reparse [OF parse_good])

text \<open>The values the parser can yield are exactly the good ones.\<close>

lemma good_iff_parsed: "good x \<longleftrightarrow> (\<exists>s. parse s = Inr x)"
  using reparse parse_good by blast

end

section \<open>State machines\<close>

text \<open>The states a table leads to.\<close>

inductive reaches :: "('s \<Rightarrow> 'e \<Rightarrow> 's option) \<Rightarrow> 's \<Rightarrow> 's \<Rightarrow> bool" for step where
  reaches_refl: "reaches step s s"
| reaches_step: "reaches step s t \<Longrightarrow> step t e = Some u \<Longrightarrow> reaches step s u"

text \<open>A sequence of calls on an object, a refused call leaving it as it was.\<close>

fun run :: "('o \<Rightarrow> 'c \<Rightarrow> 'err + 'o) \<Rightarrow> 'o \<Rightarrow> 'c list \<Rightarrow> 'o" where
  "run call x [] = x"
| "run call x (c # cs) = run call (case call x c of Inl _ \<Rightarrow> x | Inr y \<Rightarrow> y) cs"

lemma run_append: "run call x (cs @ ds) = run call (run call x cs) ds"
  by (induction cs arbitrary: x) simp_all

lemma run_invariant:
  assumes "\<And>x c y. P x \<Longrightarrow> call x c = Inr y \<Longrightarrow> P y" and "P x"
  shows "P (run call x cs)"
  using assms(2)
proof (induction cs arbitrary: x)
  case (Cons c cs)
  then show ?case using assms(1) by (cases "call x c") auto
qed simp

text \<open>A property of the next state that only some calls may break.\<close>

lemma run_preserves:
  assumes "\<And>x c y. c \<in> set cs \<Longrightarrow> P x \<Longrightarrow> call x c = Inr y \<Longrightarrow> P y" and "P x"
  shows "P (run call x cs)"
  using assms
proof (induction cs arbitrary: x)
  case (Cons c cs)
  have "P (case call x c of Inl _ \<Rightarrow> x | Inr y \<Rightarrow> y)"
    using Cons.prems by (cases "call x c") auto
  then have "P (run call (case call x c of Inl _ \<Rightarrow> x | Inr y \<Rightarrow> y) cs)"
    using Cons.prems(1) by (intro Cons.IH) auto
  then show ?case by simp
qed simp

locale transitions =
  fixes step :: "'s \<Rightarrow> 'e \<Rightarrow> 's option" and final :: "'s \<Rightarrow> bool"
  assumes final_absorbs: "final s \<Longrightarrow> step s e = Some t \<Longrightarrow> t = s"
begin

lemma final_reaches: "reaches step s t \<Longrightarrow> final s \<Longrightarrow> t = s"
  by (induction rule: reaches.induct) (auto dest: final_absorbs)

lemma reaches_trans: "reaches step t u \<Longrightarrow> reaches step s t \<Longrightarrow> reaches step s u"
  by (induction rule: reaches.induct) (auto intro: reaches.intros)

end

locale object_machine = transitions step final
  for step :: "'s \<Rightarrow> 'e \<Rightarrow> 's option" and final :: "'s \<Rightarrow> bool" +
  fixes call :: "'o \<Rightarrow> 'c \<Rightarrow> 'err + 'o" and abs :: "'o \<Rightarrow> 's" and inv :: "'o \<Rightarrow> bool"
  assumes call_inv: "inv x \<Longrightarrow> call x c = Inr y \<Longrightarrow> inv y"
    and call_step: "inv x \<Longrightarrow> call x c = Inr y \<Longrightarrow> abs y = abs x \<or> (\<exists>e. step (abs x) e = Some (abs y))"
begin

lemma run_inv: "inv x \<Longrightarrow> inv (run call x cs)"
  by (rule run_invariant [where P = inv]) (auto intro: call_inv)

text \<open>The object simulates the table: every sequence of calls is a path of it.\<close>

lemma run_reaches: "inv x \<Longrightarrow> reaches step (abs x) (abs (run call x cs))"
proof (induction cs arbitrary: x)
  case Nil
  show ?case by (simp add: reaches_refl)
next
  case (Cons c cs)
  show ?case
  proof (cases "call x c")
    case (Inl e)
    with Cons show ?thesis by simp
  next
    case (Inr y)
    with Cons.prems have y: "inv y" by (rule call_inv)
    from call_step [OF Cons.prems Inr] have "reaches step (abs x) (abs y)"
      by (auto intro: reaches.intros)
    with Cons.IH [OF y] Inr show ?thesis by (simp add: reaches_trans)
  qed
qed

lemma final_run: "inv x \<Longrightarrow> final (abs x) \<Longrightarrow> abs (run call x cs) = abs x"
  by (rule final_reaches [OF run_reaches])

end

end
