(* ===== verification/Money.thy ===== *)
theory Money
  imports Contracts
begin

text \<open>
  \<open>crates/domain/src/money.rs\<close>: currencies with their ISO-4217 exponent, \<open>Money\<close> as unsigned
  64-bit minor units, its checked arithmetic, its decimal parser and printer, and the
  signed amounts. Every operation returns \<open>Inl\<close> where the code returns \<open>Err\<close>. The lemmas
  say that arithmetic is exact or refused, that no operation yields a zero amount, and that
  printing and parsing are inverse.
\<close>

section \<open>Currencies\<close>

datatype currency = USD | EUR | GBP | CNY | JPY | KRW | CHF | CAD | AUD | INR

definition currency_all :: "currency list" where
  "currency_all = [USD, EUR, GBP, CNY, JPY, KRW, CHF, CAD, AUD, INR]"

fun code :: "currency \<Rightarrow> ustr" where
  "code USD = lit ''USD''"
| "code EUR = lit ''EUR''"
| "code GBP = lit ''GBP''"
| "code CNY = lit ''CNY''"
| "code JPY = lit ''JPY''"
| "code KRW = lit ''KRW''"
| "code CHF = lit ''CHF''"
| "code CAD = lit ''CAD''"
| "code AUD = lit ''AUD''"
| "code INR = lit ''INR''"

fun exponent :: "currency \<Rightarrow> u32" where
  "exponent JPY = 0"
| "exponent KRW = 0"
| "exponent USD = 2"
| "exponent EUR = 2"
| "exponent GBP = 2"
| "exponent CNY = 2"
| "exponent CHF = 2"
| "exponent CAD = 2"
| "exponent AUD = 2"
| "exponent INR = 2"

definition minor_per_major :: "currency \<Rightarrow> u64" where
  "minor_per_major c = 10 ^ unat (exponent c)"

datatype money_error =
    Zero
  | CurrencyMismatch currency currency
  | Overflow
  | Underflow
  | UnknownCurrency ustr
  | InvalidAmount ustr
  | WrongExponent currency u32 nat

definition currency_from_str :: "ustr \<Rightarrow> money_error + currency" where
  "currency_from_str s =
     (let up = to_ascii_uppercase (trim s)
      in ok_or (find (\<lambda>c. code c = up) currency_all) (UnknownCurrency s))"

section \<open>Amounts\<close>

record money =
  minor :: u64
  currency :: currency

definition money_new :: "u64 \<Rightarrow> currency \<Rightarrow> money_error + money" where
  "money_new m c = (if m = 0 then Inl Zero else Inr \<lparr>minor = m, currency = c\<rparr>)"

record money_wire =
  wire_minor :: u64
  wire_currency :: currency

definition money_try_from :: "money_wire \<Rightarrow> money_error + money" where
  "money_try_from w = money_new (wire_minor w) (wire_currency w)"

definition from_major :: "u64 \<Rightarrow> currency \<Rightarrow> money_error + money" where
  "from_major major c =
     rbind (ok_or (u_checked_mul major (minor_per_major c)) Overflow) (\<lambda>m. money_new m c)"

definition from_major_str :: "ustr \<Rightarrow> currency \<Rightarrow> money_error + money" where
  "from_major_str s0 c =
     (let s = trim s0;
          invalid = InvalidAmount s;
          exp = unat (exponent c);
          (major, frac) = (case split_once 46 s of Some p \<Rightarrow> p | None \<Rightarrow> (s, []))
      in if major = [] \<or> \<not> list_all is_ascii_digit major then Inl invalid
         else if 46 \<in> set s \<and> (frac = [] \<or> \<not> list_all is_ascii_digit frac) then Inl invalid
         else if byte_len frac > exp then Inl (WrongExponent c (exponent c) (byte_len frac))
         else rbind (ok_or (parse_uint major) Overflow) (\<lambda>major_u.
           rbind (if frac = [] then Inr 0
                  else rbind (ok_or (parse_uint frac) invalid)
                    (\<lambda>f. Inr (f * 10 ^ (exp - byte_len frac)))) (\<lambda>frac_u.
           rbind (ok_or (Option.bind (u_checked_mul major_u (minor_per_major c))
                    (\<lambda>m. u_checked_add m frac_u)) Overflow) (\<lambda>m.
           money_new m c))))"

definition same_currency :: "money \<Rightarrow> money \<Rightarrow> money_error + unit" where
  "same_currency a b =
     (if currency a = currency b then Inr ()
      else Inl (CurrencyMismatch (currency a) (currency b)))"

definition checked_add :: "money \<Rightarrow> money \<Rightarrow> money_error + money" where
  "checked_add a b = rbind (same_currency a b) (\<lambda>_.
     rbind (ok_or (u_checked_add (minor a) (minor b)) Overflow) (\<lambda>m. money_new m (currency a)))"

definition checked_sub :: "money \<Rightarrow> money \<Rightarrow> money_error + money" where
  "checked_sub a b = rbind (same_currency a b) (\<lambda>_.
     rbind (ok_or (u_checked_sub (minor a) (minor b)) Underflow) (\<lambda>m. money_new m (currency a)))"

definition checked_mul_int :: "money \<Rightarrow> u64 \<Rightarrow> money_error + money" where
  "checked_mul_int a k =
     rbind (ok_or (u_checked_mul (minor a) k) Overflow) (\<lambda>m. money_new m (currency a))"

text \<open>\<open>Display\<close>: the code, a space, and the amount in major units.\<close>

definition money_amount_text :: "money \<Rightarrow> ustr" where
  "money_amount_text m =
     (let exp = unat (exponent (currency m)); d = minor_per_major (currency m)
      in if exp = 0 then show_word (minor m)
         else show_word (minor m div d) @ [46] @ pad_zeros exp (show_word (minor m mod d)))"

definition money_display :: "money \<Rightarrow> ustr" where
  "money_display m = code (currency m) @ [32] @ money_amount_text m"

datatype ledger_direction = Debit | Credit

record signed_amount =
  amount :: money
  direction :: ledger_direction

definition debit :: "money \<Rightarrow> signed_amount" where
  "debit m = \<lparr>amount = m, direction = Debit\<rparr>"

definition credit :: "money \<Rightarrow> signed_amount" where
  "credit m = \<lparr>amount = m, direction = Credit\<rparr>"

definition is_debit :: "signed_amount \<Rightarrow> bool" where
  "is_debit s \<longleftrightarrow> (case direction s of Debit \<Rightarrow> True | Credit \<Rightarrow> False)"

section \<open>Well-formed amounts\<close>

text \<open>What the private fields of \<open>Money\<close> guarantee: the amount is never zero.\<close>

definition money_ok :: "money \<Rightarrow> bool" where
  "money_ok m \<longleftrightarrow> minor m \<noteq> 0"

abbreviation nat_of_money :: "money \<Rightarrow> nat" where
  "nat_of_money m \<equiv> unat (minor m)"

lemma money_new_Inr_iff [simp]:
  "money_new m c = Inr x \<longleftrightarrow> m \<noteq> 0 \<and> x = \<lparr>minor = m, currency = c\<rparr>"
  by (auto simp: money_new_def)

lemma money_new_Inl_iff [simp]: "money_new m c = Inl e \<longleftrightarrow> m = 0 \<and> e = Zero"
  by (auto simp: money_new_def)

lemma money_eqI: "currency a = currency b \<Longrightarrow> nat_of_money a = nat_of_money b \<Longrightarrow> a = (b::money)"
  by (cases a, cases b) (simp add: word_unat_eq_iff)

lemma neq_0_nat: "(w::'a::len word) \<noteq> 0 \<longleftrightarrow> 0 < unat w"
  by (simp add: unsigned_eq_0_iff flip: neq0_conv)

lemma money_ok_nat: "money_ok m \<longleftrightarrow> 0 < nat_of_money m"
  by (simp add: money_ok_def neq_0_nat)

lemma same_currency_Inr_iff [simp]:
  "same_currency a b = Inr u \<longleftrightarrow> currency a = currency b"
  by (auto simp: same_currency_def)

lemma checked_add_Inr_iff:
  "checked_add a b = Inr c \<longleftrightarrow> currency a = currency b \<and> currency c = currency a \<and> money_ok c \<and>
     nat_of_money c = nat_of_money a + nat_of_money b"
  by (cases c) (auto simp: checked_add_def rbind_eq_Inr_iff ok_or_eq_Inr_iff word_nat money_ok_def)

lemma checked_sub_Inr_iff:
  "checked_sub a b = Inr c \<longleftrightarrow> currency a = currency b \<and> currency c = currency a \<and> money_ok c \<and>
     nat_of_money b < nat_of_money a \<and> nat_of_money c = nat_of_money a - nat_of_money b"
  by (cases c) (auto simp: checked_sub_def rbind_eq_Inr_iff ok_or_eq_Inr_iff word_nat money_ok_nat
      word_le_nat_alt neq_0_nat)

lemma checked_mul_int_Inr_iff:
  "checked_mul_int a k = Inr c \<longleftrightarrow> currency c = currency a \<and> money_ok c \<and>
     nat_of_money c = nat_of_money a * unat k"
  by (cases c) (auto simp: checked_mul_int_def rbind_eq_Inr_iff ok_or_eq_Inr_iff word_nat money_ok_def)

lemma from_major_Inr_iff:
  "from_major k cur = Inr c \<longleftrightarrow> currency c = cur \<and> money_ok c \<and>
     nat_of_money c = unat k * unat (minor_per_major cur)"
  by (cases c) (auto simp: from_major_def rbind_eq_Inr_iff ok_or_eq_Inr_iff word_nat money_ok_def)

lemma from_major_str_ok: "from_major_str s c = Inr m \<Longrightarrow> money_ok m \<and> currency m = c"
  by (auto simp: from_major_str_def Let_def rbind_eq_Inr_iff money_ok_def
      split: if_splits prod.splits option.splits)

section \<open>Parsing and printing\<close>

lemma exponent_cases: "exponent c = 0 \<or> exponent c = 2"
  by (cases c) auto

lemma unat_minor_per_major: "unat (minor_per_major c) = 10 ^ unat (exponent c)"
  using exponent_cases [of c] by (auto simp: minor_per_major_def)

lemma code_upper: "to_ascii_uppercase (code c) = code c"
  by (cases c) (auto simp: to_ascii_uppercase_def ascii_upper_char_def is_ascii_lower_def)

lemma code_no_ws: "list_all (\<lambda>x. \<not> is_whitespace x) (code c)"
  by (cases c) (auto simp: is_whitespace_def)

lemma code_inj: "code a = code b \<Longrightarrow> a = b"
  by (cases a; cases b) auto

lemma find_code: "find (\<lambda>x. code x = code c) currency_all = Some c"
  by (cases c) (auto simp: currency_all_def)

lemma currency_from_str_code: "currency_from_str (code c) = Inr c"
  by (simp add: currency_from_str_def trim_no_ws code_no_ws code_upper find_code)

lemma split_code_display:
  "split_once 32 (money_display m) = Some (code (currency m), money_amount_text m)"
proof -
  have "32 \<notin> set (code c)" for c by (cases c) auto
  then show ?thesis by (simp add: money_display_def split_once_append)
qed

lemma digits_no_dot: "list_all is_ascii_digit s \<Longrightarrow> 46 \<notin> set s"
  by (auto simp: list_all_iff is_ascii_digit_def)

lemma digits_no_ws: "list_all is_ascii_digit s \<Longrightarrow> list_all (\<lambda>x. \<not> is_whitespace x) s"
  by (auto simp: list_all_iff digit_not_ws)

lemma digits_byte_len: "list_all is_ascii_digit s \<Longrightarrow> byte_len s = length s"
  by (rule byte_len_ascii) (auto simp: list_all_iff is_ascii_digit_def)

lemmas digits_facts = digits_no_dot digits_no_ws digits_byte_len show_word_digits pad_zeros_digits

text \<open>The parser on a whole number and on a number with a fraction.\<close>

lemma from_major_str_whole:
  assumes "s \<noteq> []" and "list_all is_ascii_digit s"
  shows "from_major_str s c =
    rbind (ok_or (parse_uint s) Overflow) (\<lambda>u.
    rbind (ok_or (Option.bind (u_checked_mul u (minor_per_major c)) (\<lambda>m. u_checked_add m 0)) Overflow)
      (\<lambda>m. money_new m c))"
proof -
  from assms have "trim s = s" and "46 \<notin> set s"
    by (simp_all add: digits_no_dot trim_no_ws digits_no_ws)
  with assms show ?thesis by (simp add: from_major_str_def Let_def)
qed

lemma from_major_str_frac:
  assumes "a \<noteq> []" and "list_all is_ascii_digit a"
    and "f \<noteq> []" and "list_all is_ascii_digit f" and "length f \<le> unat (exponent c)"
  shows "from_major_str (a @ 46 # f) c =
    rbind (ok_or (parse_uint a) Overflow) (\<lambda>u.
    rbind (rbind (ok_or (parse_uint f) (InvalidAmount (a @ 46 # f)))
        (\<lambda>v. Inr (v * 10 ^ (unat (exponent c) - length f)))) (\<lambda>v.
    rbind (ok_or (Option.bind (u_checked_mul u (minor_per_major c)) (\<lambda>m. u_checked_add m v)) Overflow)
      (\<lambda>m. money_new m c)))"
proof -
  from assms have "split_once 46 (a @ 46 # f) = Some (a, f)"
    by (simp add: split_once_append digits_no_dot)
  moreover from assms have "trim (a @ 46 # f) = a @ 46 # f"
    by (intro trim_no_ws) (simp add: digits_no_ws, simp add: is_whitespace_def)
  ultimately show ?thesis
    using assms by (simp add: from_major_str_def Let_def digits_byte_len)
qed

lemma recombine_minor:
  fixes m d :: u64
  shows "Option.bind (u_checked_mul (m div d) d) (\<lambda>x. u_checked_add x (m mod d)) = Some m"
proof -
  let ?q = "unat m div unat d * unat d"
  have q: "?q < 2 ^ 64"
    using le_less_trans [OF div_times_less_eq_dividend unat_u64_less [of m]] by simp
  then have "unat (m div d * d) = ?q"
    using unat_u64_less [of "m div d"] by (simp add: unat_word_ariths(2) unat_div del: unat_u64_less)
  then have "u_checked_mul (m div d) d = Some (m div d * d)"
    and "u_checked_add (m div d * d) (m mod d) = Some m"
    by (simp_all add: u_checked_mul_Some u_checked_add_Some unat_div unat_mod)
  then show ?thesis by simp
qed

lemma from_major_str_amount_text:
  assumes "money_ok m"
  shows "from_major_str (money_amount_text m) (currency m) = Inr m"
proof (cases "exponent (currency m) = 0")
  case True
  then have "minor_per_major (currency m) = 1" by (simp add: minor_per_major_def)
  moreover have "u_checked_mul (minor m) 1 = Some (minor m)" "u_checked_add (minor m) 0 = Some (minor m)"
    by (simp_all add: u_checked_mul_Some u_checked_add_Some)
  ultimately show ?thesis
    using True assms by (simp add: money_amount_text_def from_major_str_whole digits_facts money_ok_def)
next
  case False
  with exponent_cases have e: "exponent (currency m) = 2" by blast
  let ?d = "minor_per_major (currency m)" and ?f = "pad_zeros 2 (show_word (minor m mod minor_per_major (currency m)))"
  from e have d: "unat ?d = 100" by (simp add: unat_minor_per_major)
  then have "unat (minor m mod ?d) < 100" by (simp add: unat_mod)
  then have len: "length ?f = 2"
    by (simp add: show_word_def length_pad_zeros length_show_nat_le_2)
  then have f: "?f \<noteq> []" by auto
  have dig: "list_all is_ascii_digit ?f" by (simp add: digits_facts)
  with f have val: "parse_uint ?f = Some (minor m mod ?d)"
    by (simp add: parse_uint_digits)
  have "from_major_str (show_word (minor m div ?d) @ 46 # ?f) (currency m) =
      rbind (ok_or (Option.bind (u_checked_mul (minor m div ?d) ?d)
        (\<lambda>x. u_checked_add x (minor m mod ?d))) Overflow) (\<lambda>x. money_new x (currency m))"
    using f dig len by (subst from_major_str_frac) (simp_all add: e digits_facts val)
  also have "\<dots> = Inr m"
    using assms by (simp only: recombine_minor) (simp add: money_ok_def)
  finally have "from_major_str (show_word (minor m div ?d) @ 46 # ?f) (currency m) = Inr m" .
  with e show ?thesis by (simp add: money_amount_text_def Let_def)
qed

lemma unat_10_pow: "k \<le> 2 \<Longrightarrow> unat (10 ^ k :: u64) = 10 ^ k"
proof -
  assume "k \<le> 2"
  then consider "k = 0" | "k = 1" | "k = 2" by linarith
  then show ?thesis by cases simp_all
qed

lemma dec_val_less: "list_all is_ascii_digit s \<Longrightarrow> dec_val s < 10 ^ length s"
proof (induction s rule: rev_induct)
  case (snoc c s)
  then show ?case by (auto simp: is_ascii_digit_def)
qed (simp add: dec_val_def)

text \<open>An accepted text denotes exactly the amount returned: nothing is rounded.\<close>

definition decimal_value :: "ustr \<Rightarrow> ustr \<Rightarrow> nat \<Rightarrow> nat" where
  "decimal_value a f e = dec_val a * 10 ^ e + dec_val f * 10 ^ (e - length f)"

lemma from_major_str_parts:
  assumes "from_major_str s c = Inr m"
  obtains a f where "trim s = a @ (if f = [] then [] else 46 # f)" "a \<noteq> []"
    "list_all is_ascii_digit a" "list_all is_ascii_digit f" "length f \<le> unat (exponent c)"
    "nat_of_money m = decimal_value a f (unat (exponent c))"
proof -
  let ?e = "unat (exponent c)"
  obtain a f where af: "(case split_once 46 (trim s) of Some p \<Rightarrow> p | None \<Rightarrow> (trim s, [])) = (a, f)"
    by (meson surj_pair)
  with assms have a: "a \<noteq> []" "list_all is_ascii_digit a"
    and f: "46 \<in> set (trim s) \<longrightarrow> f \<noteq> [] \<and> list_all is_ascii_digit f" and len: "byte_len f \<le> ?e"
    by (auto simp: from_major_str_def Let_def split: if_splits)
  have shape: "trim s = a @ (if f = [] then [] else 46 # f)" and fd: "list_all is_ascii_digit f"
    using af f by (auto split: option.splits dest: split_once_SomeD simp: split_once_None_iff)
  from fd len have len': "length f \<le> ?e" by (simp add: digits_byte_len)
  have e2: "?e \<le> 2" using exponent_cases [of c] by auto
  from assms af a f len obtain u v w where u: "parse_uint a = Some u"
    and v: "(if f = [] then Inr 0 else rbind (ok_or (parse_uint f) (InvalidAmount (trim s)))
        (\<lambda>x. Inr (x * 10 ^ (?e - byte_len f)))) = Inr v"
    and w: "u_checked_mul u (minor_per_major c) = Some w" "u_checked_add w v = Some (minor m)"
    by (fastforce simp: from_major_str_def Let_def rbind_eq_Inr_iff ok_or_eq_Inr_iff bind_eq_Some_conv
        split: if_splits)
  have "unat u = dec_val a"
    using u a by (auto simp: parse_uint_digits unat_of_nat take_bit_nat_eq_self split: if_splits)
  moreover have "unat v = dec_val f * 10 ^ (?e - length f)"
  proof (cases "f = []")
    case True
    with v show ?thesis by (simp add: dec_val_def)
  next
    case False
    with v fd obtain x where x: "parse_uint f = Some x" "v = x * 10 ^ (?e - length f)"
      by (auto simp: rbind_eq_Inr_iff ok_or_eq_Inr_iff digits_byte_len)
    have "dec_val f < 10 ^ length f" using fd by (rule dec_val_less)
    then have small: "dec_val f * 10 ^ (?e - length f) < 10 ^ length f * 10 ^ (?e - length f)"
      by simp
    also have "\<dots> = 10 ^ ?e" using len' by (simp flip: power_add)
    also have "\<dots> \<le> (10::nat) ^ 2" using e2 by (intro power_increasing) simp_all
    finally have small: "dec_val f * 10 ^ (?e - length f) < 2 ^ 64" by simp
    have "unat x = dec_val f"
      using x(1) False fd by (auto simp: parse_uint_digits unat_of_nat take_bit_nat_eq_self split: if_splits)
    with x(2) small e2 show ?thesis
      by (simp add: unat_word_ariths unat_10_pow)
  qed
  ultimately have "nat_of_money m = decimal_value a f ?e"
    using w by (simp add: u_checked_mul_Some u_checked_add_Some unat_minor_per_major decimal_value_def)
  with that shape a fd len' show ?thesis by blast
qed

interpretation money_text: reparse "\<lambda>s. from_major_str s c" money_amount_text
  "\<lambda>m. money_ok m \<and> currency m = c" for c
  by unfold_locales (auto simp: from_major_str_amount_text dest: from_major_str_ok)

section \<open>Properties\<close>

text \<open>C20. Arithmetic on amounts is exact or refused: a sum, a difference or a multiple is
  returned exactly when the currencies agree, the mathematical result is positive and fits 64 bits,
  and then it is that result; a subtraction undoes an addition.\<close>

theorem money_arithmetic_exact:
  "(checked_add a b = Inr c \<longleftrightarrow> currency a = currency b \<and> currency c = currency a \<and>
      0 < nat_of_money c \<and> nat_of_money c = nat_of_money a + nat_of_money b) \<and>
   (checked_sub a b = Inr c \<longleftrightarrow> currency a = currency b \<and> currency c = currency a \<and>
      nat_of_money b < nat_of_money a \<and> nat_of_money c = nat_of_money a - nat_of_money b) \<and>
   (checked_mul_int a k = Inr c \<longleftrightarrow> currency c = currency a \<and>
      0 < nat_of_money c \<and> nat_of_money c = nat_of_money a * unat k) \<and>
   (checked_add a b = Inr c \<and> money_ok a \<longrightarrow> checked_sub c b = Inr a)"
  by (auto simp: checked_add_Inr_iff checked_sub_Inr_iff checked_mul_int_Inr_iff money_ok_nat)

theorem money_arithmetic_exact_witness:
  "checked_sub \<lparr>minor = 7, currency = CHF\<rparr> \<lparr>minor = 5, currency = CHF\<rparr> = Inr \<lparr>minor = 2, currency = CHF\<rparr>"
  using money_arithmetic_exact [of "\<lparr>minor = 2, currency = CHF\<rparr>" "\<lparr>minor = 5, currency = CHF\<rparr>"
      "\<lparr>minor = 7, currency = CHF\<rparr>"]
  by (simp add: money_ok_def)

text \<open>A decimal amount is parsed without rounding: what is accepted is digits with at most
  the currency's number of decimals, and the amount is exactly the number written, in minor units.\<close>

theorem from_major_str_exact:
  assumes "from_major_str s c = Inr m"
  shows "currency m = c \<and> money_ok m \<and>
    (\<exists>a f. trim s = a @ (if f = [] then [] else 46 # f) \<and> list_all is_ascii_digit (a @ f) \<and>
      a \<noteq> [] \<and> length f \<le> unat (exponent c) \<and>
      nat_of_money m = decimal_value a f (unat (exponent c)))"
  by (rule from_major_str_parts [OF assms], use from_major_str_ok [OF assms] in auto)

theorem from_major_str_exact_witness:
  "\<exists>a f. trim (lit ''12.5'') = a @ (if f = [] then [] else 46 # f) \<and> list_all is_ascii_digit (a @ f) \<and>
      a \<noteq> [] \<and> length f \<le> unat (exponent USD) \<and>
      nat_of_money \<lparr>minor = 1250, currency = USD\<rparr> = decimal_value a f (unat (exponent USD))"
proof -
  have "from_major_str (lit ''12'' @ 46 # lit ''5'') USD = Inr \<lparr>minor = 1250, currency = USD\<rparr>"
    by (subst from_major_str_frac) (simp_all add: is_ascii_digit_def parse_uint_def dec_val_def
        u_checked_mul_def u_checked_add_def minor_per_major_def)
  then have "from_major_str (lit ''12.5'') USD = Inr \<lparr>minor = 1250, currency = USD\<rparr>" by simp
  from from_major_str_exact [OF this] show ?thesis by blast
qed

text \<open>An amount survives printing: parsing the printed amount in its currency gives it back,
  the printed code names its currency, and no two amounts print alike.\<close>

theorem money_display_faithful:
  assumes "money_ok m"
  shows "from_major_str (money_amount_text m) (currency m) = Inr m \<and>
    currency_from_str (code (currency m)) = Inr (currency m) \<and>
    (\<forall>n. money_ok n \<and> money_display n = money_display m \<longrightarrow> n = m)"
proof (intro conjI allI impI)
  show "from_major_str (money_amount_text m) (currency m) = Inr m"
    using assms by (intro money_text.reparse) simp
  fix n assume n: "money_ok n \<and> money_display n = money_display m"
  with split_code_display [of n] split_code_display [of m]
  have "currency n = currency m" "money_amount_text n = money_amount_text m"
    by (auto dest: code_inj)
  with n assms show "n = m" by (intro money_text.print_inj [of _ "currency m"]) auto
qed (rule currency_from_str_code)

theorem money_display_faithful_witness:
  "from_major_str (money_amount_text \<lparr>minor = 1205, currency = EUR\<rparr>) EUR =
     Inr \<lparr>minor = 1205, currency = EUR\<rparr>"
  using money_display_faithful [of "\<lparr>minor = 1205, currency = EUR\<rparr>"] by (simp add: money_ok_def)

end
