(* ===== verification/Ids.thy ===== *)
theory Ids
  imports Text
begin

text \<open>
  \<open>crates/domain/src/ids.rs\<close>: the typed ids, the employee slug, the secret reference and the
  idempotency key. Unicode normalisation (crate \<open>unicode-normalization\<close>), the Unicode
  lowercase table and the text form of a UUID (crate \<open>uuid\<close>) are parameters: \<open>nfkc\<close>,
  \<open>lower\<close>, \<open>show_uuid\<close>, \<open>parse_uuid\<close>. The lemmas give the shape of every accepted slug, and
  that printing and parsing of slugs and secret references are inverse.
\<close>

section \<open>Typed ids\<close>

datatype tenant_id = TenantId (tenant_uuid: uuid)
datatype employee_id = EmployeeId (employee_uuid: uuid)
datatype conversation_id = ConversationId (conversation_uuid: uuid)

section \<open>Slugs\<close>

datatype slug_error =
    Length nat
  | Charset nat
  | Boundary
  | ConsecutiveHyphens

datatype slug = Slug (slug_str: ustr)

definition slug_min_len :: nat where "slug_min_len = 2"

definition slug_max_len :: nat where "slug_max_len = 32"

definition slug_char :: "nat \<Rightarrow> bool" where
  "slug_char c \<longleftrightarrow> is_ascii_lower c \<or> is_ascii_digit c \<or> c = 45"

definition slug_parse :: "(ustr \<Rightarrow> ustr) \<Rightarrow> (nat \<Rightarrow> ustr) \<Rightarrow> ustr \<Rightarrow> slug_error + slug" where
  "slug_parse nfkc lower raw =
     (let normalized = concat (map lower (nfkc raw)) in
      case find (\<lambda>c. \<not> slug_char c) normalized of
        Some found \<Rightarrow> Inl (Charset found)
      | None \<Rightarrow>
          (let len = byte_len normalized in
           if \<not> (slug_min_len \<le> len \<and> len \<le> slug_max_len) then Inl (Length len)
           else if str_starts_with normalized [45] \<or> str_ends_with normalized [45] then Inl Boundary
           else if str_contains normalized [45, 45] then Inl ConsecutiveHyphens
           else Inr (Slug normalized)))"

text \<open>What a slug promises its users: an email local part and a DNS label.\<close>

definition slug_ok :: "slug \<Rightarrow> bool" where
  "slug_ok s \<longleftrightarrow> list_all slug_char (slug_str s) \<and> 2 \<le> length (slug_str s) \<and> length (slug_str s) \<le> 32 \<and>
     hd (slug_str s) \<noteq> 45 \<and> last (slug_str s) \<noteq> 45 \<and> \<not> str_contains (slug_str s) [45, 45]"

section \<open>Secret references\<close>

datatype secret_ref_error =
    Scheme
  | Shape
  | NotAUuid ustr
  | NameLength
  | NameCharset nat

record secret_ref =
  sr_tenant :: tenant_id
  sr_employee :: employee_id
  sr_name :: ustr

definition max_name_len :: nat where "max_name_len = 64"

definition secret_name_char :: "nat \<Rightarrow> bool" where
  "secret_name_char c \<longleftrightarrow> is_ascii_upper c \<or> is_ascii_lower c \<or> is_ascii_digit c \<or> c = 95 \<or> c = 45"

definition secret_ref_new ::
  "tenant_id \<Rightarrow> employee_id \<Rightarrow> ustr \<Rightarrow> secret_ref_error + secret_ref" where
  "secret_ref_new t e name =
     (if name = [] \<or> max_name_len < byte_len name then Inl NameLength
      else case find (\<lambda>c. \<not> secret_name_char c) name of
             Some found \<Rightarrow> Inl (NameCharset found)
           | None \<Rightarrow> Inr \<lparr>sr_tenant = t, sr_employee = e, sr_name = name\<rparr>)"

definition secret_ref_parse ::
  "(ustr \<Rightarrow> uuid option) \<Rightarrow> ustr \<Rightarrow> secret_ref_error + secret_ref" where
  "secret_ref_parse parse_uuid raw =
     rbind (ok_or (strip_prefix (lit ''secret://'') raw) Scheme) (\<lambda>rest.
       (case split_on 47 rest of
          [a, tenant, b, employee, name] \<Rightarrow>
            if a \<noteq> lit ''tenant'' \<or> b \<noteq> lit ''employee'' then Inl Shape
            else rbind (ok_or (parse_uuid tenant) (NotAUuid (lit ''tenant''))) (\<lambda>t.
                 rbind (ok_or (parse_uuid employee) (NotAUuid (lit ''employee''))) (\<lambda>e.
                 secret_ref_new (TenantId t) (EmployeeId e) name))
        | _ \<Rightarrow> Inl Shape))"

definition secret_ref_display :: "(uuid \<Rightarrow> ustr) \<Rightarrow> secret_ref \<Rightarrow> ustr" where
  "secret_ref_display show_uuid r =
     lit ''secret://tenant/'' @ show_uuid (tenant_uuid (sr_tenant r)) @ lit ''/employee/'' @
     show_uuid (employee_uuid (sr_employee r)) @ lit ''/'' @ sr_name r"

section \<open>Idempotency keys\<close>

datatype idempotency_key_error =
    KeyLength
  | KeyCharset nat
  | KeyPrefix

datatype idempotency_key = IdempotencyKey (key_str: ustr)

definition min_client_len :: nat where "min_client_len = 8"

definition max_client_len :: nat where "max_client_len = 200"

definition for_step :: "(uuid \<Rightarrow> ustr) \<Rightarrow> employee_id \<Rightarrow> ustr \<Rightarrow> idempotency_key" where
  "for_step show_uuid e step_name =
     IdempotencyKey (lit ''employee:'' @ show_uuid (employee_uuid e) @ lit '':step:'' @ step_name)"

definition for_platform :: "ustr \<Rightarrow> idempotency_key" where
  "for_platform what = IdempotencyKey (lit ''platform:'' @ what)"

definition from_client :: "ustr \<Rightarrow> idempotency_key_error + idempotency_key" where
  "from_client raw =
     (if \<not> (min_client_len \<le> byte_len raw \<and> byte_len raw \<le> max_client_len) then Inl KeyLength
      else case find (\<lambda>c. \<not> is_ascii_graphic c) raw of
             Some found \<Rightarrow> Inl (KeyCharset found)
           | None \<Rightarrow> Inr (IdempotencyKey (lit ''client:'' @ raw)))"

definition key_try_from :: "ustr \<Rightarrow> idempotency_key_error + idempotency_key" where
  "key_try_from value =
     (if \<not> (str_starts_with value (lit ''client:'') \<or> str_starts_with value (lit ''employee:''))
      then Inl KeyPrefix
      else if max_client_len + byte_len (lit ''client:'') < byte_len value then Inl KeyLength
      else case find (\<lambda>c. \<not> is_ascii_graphic c) value of
             Some found \<Rightarrow> Inl (KeyCharset found)
           | None \<Rightarrow> Inr (IdempotencyKey value))"

section \<open>Slug lemmas\<close>

lemma find_not_None_iff: "find (\<lambda>c. \<not> p c) s = None \<longleftrightarrow> list_all p s"
  by (auto simp: find_None_iff list_all_iff)

lemma slug_char_ascii: "slug_char c \<Longrightarrow> c < 128"
  by (auto simp: slug_char_def is_ascii_lower_def is_ascii_digit_def)

lemma slug_chars_byte_len: "list_all slug_char s \<Longrightarrow> byte_len s = length s"
  by (rule byte_len_ascii) (auto simp: list_all_iff slug_char_ascii)

lemma starts_with_single: "str_starts_with s [c] \<longleftrightarrow> s \<noteq> [] \<and> hd s = c"
  by (cases s) (auto simp: str_starts_with_def)

lemma ends_with_single: "str_ends_with s [c] \<longleftrightarrow> s \<noteq> [] \<and> last s = c"
  by (auto simp: str_ends_with_def starts_with_single hd_rev)

text \<open>A slug is accepted exactly when its folded form is well formed.\<close>

lemma slug_parse_Inr_iff:
  "slug_parse nfkc lower raw = Inr s \<longleftrightarrow> s = Slug (concat (map lower (nfkc raw))) \<and> slug_ok s"
proof -
  have "(case find (\<lambda>c. \<not> slug_char c) n of Some found \<Rightarrow> Inl (Charset found)
      | None \<Rightarrow> (let len = byte_len n in
           if \<not> (slug_min_len \<le> len \<and> len \<le> slug_max_len) then Inl (Length len)
           else if str_starts_with n [45] \<or> str_ends_with n [45] then Inl Boundary
           else if str_contains n [45, 45] then Inl ConsecutiveHyphens
           else Inr (Slug n))) = Inr s \<longleftrightarrow> s = Slug n \<and> slug_ok s" for n
  proof (cases "list_all slug_char n")
    case True
    then have "find (\<lambda>c. \<not> slug_char c) n = None" by (simp add: find_not_None_iff)
    with True show ?thesis
      by (cases "n = []") (auto simp: Let_def slug_ok_def slug_chars_byte_len starts_with_single
          ends_with_single slug_min_len_def slug_max_len_def)
  next
    case False
    then obtain c where "find (\<lambda>c. \<not> slug_char c) n = Some c"
      by (cases "find (\<lambda>c. \<not> slug_char c) n") (auto simp: find_not_None_iff)
    with False show ?thesis by (auto simp: slug_ok_def)
  qed
  then show ?thesis by (simp only: slug_parse_def Let_def)
qed

lemma concat_map_single: "(\<And>c. c \<in> set s \<Longrightarrow> f c = [c]) \<Longrightarrow> concat (map f s) = s"
  by (induction s) auto

lemma slug_parse_canonical:
  assumes "slug_ok s" and "nfkc (slug_str s) = slug_str s" and "\<And>c. slug_char c \<Longrightarrow> lower c = [c]"
  shows "slug_parse nfkc lower (slug_str s) = Inr s"
proof -
  have "concat (map lower (slug_str s)) = slug_str s"
    using assms by (intro concat_map_single) (auto simp: slug_ok_def list_all_iff)
  then show ?thesis using assms by (simp add: slug_parse_Inr_iff)
qed

section \<open>Secret reference lemmas\<close>

lemma secret_name_no_slash: "list_all secret_name_char s \<Longrightarrow> 47 \<notin> set s"
  by (auto simp: list_all_iff secret_name_char_def is_ascii_upper_def is_ascii_lower_def is_ascii_digit_def)

definition secret_ref_ok :: "secret_ref \<Rightarrow> bool" where
  "secret_ref_ok r \<longleftrightarrow> sr_name r \<noteq> [] \<and> length (sr_name r) \<le> 64 \<and> list_all secret_name_char (sr_name r)"

lemma secret_name_byte_len: "list_all secret_name_char s \<Longrightarrow> byte_len s = length s"
  by (rule byte_len_ascii)
    (auto simp: list_all_iff secret_name_char_def is_ascii_upper_def is_ascii_lower_def is_ascii_digit_def)

lemma secret_ref_new_Inr_iff:
  "secret_ref_new t e name = Inr r \<longleftrightarrow>
     r = \<lparr>sr_tenant = t, sr_employee = e, sr_name = name\<rparr> \<and> secret_ref_ok r"
  by (cases "list_all secret_name_char name"; cases "find (\<lambda>c. \<not> secret_name_char c) name")
    (auto simp: secret_ref_new_def secret_ref_ok_def max_name_len_def
      secret_name_byte_len simp flip: find_not_None_iff)

lemma secret_ref_parse_display:
  assumes "secret_ref_ok r"
    and "\<And>u. parse_uuid (show_uuid u) = Some u" and "\<And>u. 47 \<notin> set (show_uuid u)"
  shows "secret_ref_parse parse_uuid (secret_ref_display show_uuid r) = Inr r"
proof -
  let ?t = "show_uuid (tenant_uuid (sr_tenant r))" and ?e = "show_uuid (employee_uuid (sr_employee r))"
  have disp: "secret_ref_display show_uuid r =
      lit ''secret://'' @ lit ''tenant'' @ 47 # ?t @ 47 # lit ''employee'' @ 47 # ?e @ 47 # sr_name r"
    by (simp add: secret_ref_display_def)
  have "47 \<notin> set (lit ''tenant'')" "47 \<notin> set (lit ''employee'')" by auto
  then have "split_on 47 (lit ''tenant'' @ 47 # ?t @ 47 # lit ''employee'' @ 47 # ?e @ 47 # sr_name r) =
      [lit ''tenant'', ?t, lit ''employee'', ?e, sr_name r]"
    using assms secret_name_no_slash [of "sr_name r"]
    by (simp only: split_on_append split_on_no_sep secret_ref_ok_def simp_thms)
  then show ?thesis
    using assms by (simp add: secret_ref_parse_def disp secret_ref_new_Inr_iff del: lit_simps)
qed

section \<open>Idempotency key lemmas\<close>

lemma for_step_inj:
  assumes "inj show_uuid" and "\<And>u. 58 \<notin> set (show_uuid u)"
    and "for_step show_uuid e s = for_step show_uuid e' s'"
  shows "e = e' \<and> s = s'"
proof -
  from assms(3) have "show_uuid (employee_uuid e) @ 58 # drop 1 (lit '':step:'') @ s =
      show_uuid (employee_uuid e') @ 58 # drop 1 (lit '':step:'') @ s'"
    by (simp add: for_step_def)
  then have "split_once 58 (show_uuid (employee_uuid e) @ 58 # drop 1 (lit '':step:'') @ s) =
      split_once 58 (show_uuid (employee_uuid e') @ 58 # drop 1 (lit '':step:'') @ s')"
    by (rule arg_cong)
  then have "show_uuid (employee_uuid e) = show_uuid (employee_uuid e') \<and> s = s'"
    using assms(2) by (simp add: split_once_append)
  with assms(1) show ?thesis by (auto dest: injD intro: employee_id.expand)
qed

lemma from_client_Inr_iff:
  "from_client raw = Inr k \<longleftrightarrow> 8 \<le> length raw \<and> length raw \<le> 200 \<and>
     list_all is_ascii_graphic raw \<and> k = IdempotencyKey (lit ''client:'' @ raw)"
proof (cases "list_all is_ascii_graphic raw")
  case True
  moreover from True have "byte_len raw = length raw"
    by (intro byte_len_ascii) (auto simp: list_all_iff is_ascii_graphic_def)
  ultimately show ?thesis
    by (auto simp: from_client_def min_client_len_def max_client_len_def
        find_not_None_iff [THEN iffD2])
next
  case False
  then have "find (\<lambda>c. \<not> is_ascii_graphic c) raw \<noteq> None" by (simp add: find_not_None_iff)
  with False show ?thesis by (auto simp: from_client_def)
qed

lemma key_try_from_Inr_iff:
  "key_try_from v = Inr k \<longleftrightarrow>
     (str_starts_with v (lit ''client:'') \<or> str_starts_with v (lit ''employee:'')) \<and>
     length v \<le> 207 \<and> list_all is_ascii_graphic v \<and> k = IdempotencyKey v"
proof (cases "list_all is_ascii_graphic v")
  case True
  moreover from True have "byte_len v = length v"
    by (intro byte_len_ascii) (auto simp: list_all_iff is_ascii_graphic_def)
  moreover have "byte_len (lit ''client:'') = 7" by (simp add: utf8_width_def)
  ultimately show ?thesis
    by (auto simp: key_try_from_def max_client_len_def find_not_None_iff [THEN iffD2])
next
  case False
  then have "find (\<lambda>c. \<not> is_ascii_graphic c) v \<noteq> None" by (simp add: find_not_None_iff)
  with False show ?thesis by (auto simp: key_try_from_def)
qed

lemma key_prefixes:
  "IdempotencyKey (lit ''client:'' @ a) \<noteq> for_step show_uuid e s"
  "IdempotencyKey (lit ''client:'' @ a) \<noteq> for_platform w"
  "for_step show_uuid e s \<noteq> for_platform w"
  by (simp_all add: for_step_def for_platform_def)

lemma digits_no_sep: "58 \<notin> set (show_word w)" "47 \<notin> set (show_word w)"
  using show_word_digits [of w] by (auto simp: list_all_iff is_ascii_digit_def)

lemma inj_show_word: "inj (show_word :: 'a::len word \<Rightarrow> ustr)"
  by (rule injI) (metis dec_val_show_word word_unat_eq_iff)

section \<open>Properties\<close>

text \<open>C21. Two operations share an idempotency key only when they are the same operation: step
  keys determine the employee and the step, client keys the header value, platform keys what is
  done, and no key is of two kinds, so no header value can pose as a provisioning step.\<close>

theorem idempotency_keys_separate:
  assumes "inj show_uuid" and "\<And>u. 58 \<notin> set (show_uuid u)"
  shows "(for_step show_uuid e s = for_step show_uuid e' s' \<longleftrightarrow> e = e' \<and> s = s') \<and>
    (for_platform w = for_platform w' \<longleftrightarrow> w = w') \<and>
    (from_client a = Inr k \<and> from_client b = Inr k \<longrightarrow> a = b) \<and>
    (from_client a = Inr k \<longrightarrow> k \<noteq> for_step show_uuid e s \<and> k \<noteq> for_platform w) \<and>
    for_step show_uuid e s \<noteq> for_platform w"
  using for_step_inj [OF assms, of e s e' s'] key_prefixes
  by (auto simp: for_platform_def from_client_Inr_iff)

theorem idempotency_keys_separate_witness:
  "for_step show_word (EmployeeId 1) (lit ''phone'') \<noteq> for_step show_word (EmployeeId 2) (lit ''phone'') \<and>
   for_step show_word (EmployeeId 1) (lit ''phone'') \<noteq> for_platform (lit ''digest'')"
  using idempotency_keys_separate [OF inj_show_word digits_no_sep(1), of "EmployeeId 1" "lit ''phone''"
      "EmployeeId 2" "lit ''phone''"]
    idempotency_keys_separate [OF inj_show_word digits_no_sep(1), of "EmployeeId 1" "lit ''phone''"
      "EmployeeId 2" "lit ''phone''" "lit ''digest''"]
  by simp

text \<open>Rehydrating a stored key: a client key always comes back, a step key exactly when it is
  printable ASCII of at most 207 bytes, a platform key never, and a text such as
  \<open>employee:x\<close> comes back as a key although no step or client produces it.\<close>

theorem key_rehydration:
  "(from_client raw = Inr k \<longrightarrow> key_try_from (key_str k) = Inr k) \<and>
   (key_try_from (key_str (for_step show_uuid e s)) = Inr (for_step show_uuid e s) \<longleftrightarrow>
      list_all is_ascii_graphic (key_str (for_step show_uuid e s)) \<and>
      length (key_str (for_step show_uuid e s)) \<le> 207) \<and>
   key_try_from (key_str (for_platform w)) = Inl KeyPrefix \<and>
   key_try_from (lit ''employee:x'') = Inr (IdempotencyKey (lit ''employee:x'')) \<and>
   for_step show_uuid e s \<noteq> IdempotencyKey (lit ''employee:x'')"
proof (intro conjI impI)
  show "key_try_from (key_str k) = Inr k" if "from_client raw = Inr k"
    using that by (auto simp: from_client_Inr_iff key_try_from_Inr_iff is_ascii_graphic_def
        str_starts_with_def)
  show "key_try_from (key_str (for_step show_uuid e s)) = Inr (for_step show_uuid e s) \<longleftrightarrow>
      list_all is_ascii_graphic (key_str (for_step show_uuid e s)) \<and>
      length (key_str (for_step show_uuid e s)) \<le> 207"
    by (cases "for_step show_uuid e s")
      (auto simp: key_try_from_Inr_iff for_step_def str_starts_with_def)
  show "key_try_from (key_str (for_platform w)) = Inl KeyPrefix"
    by (simp add: key_try_from_def for_platform_def str_starts_with_def)
  show "key_try_from (lit ''employee:x'') = Inr (IdempotencyKey (lit ''employee:x''))"
    by (simp add: key_try_from_Inr_iff is_ascii_graphic_def str_starts_with_def)
  show "for_step show_uuid e s \<noteq> IdempotencyKey (lit ''employee:x'')"
  proof
    assume "for_step show_uuid e s = IdempotencyKey (lit ''employee:x'')"
    then have "length (key_str (for_step show_uuid e s)) = 10" by simp
    then show False by (simp add: for_step_def)
  qed
qed

theorem key_rehydration_witness:
  "key_try_from (lit ''client:abcdefgh'') = Inr (IdempotencyKey (lit ''client:abcdefgh''))"
proof -
  have "from_client (lit ''abcdefgh'') = Inr (IdempotencyKey (lit ''client:abcdefgh''))"
    by (simp add: from_client_Inr_iff is_ascii_graphic_def)
  with key_rehydration [of "lit ''abcdefgh''" "IdempotencyKey (lit ''client:abcdefgh'')"]
  show ?thesis by simp
qed

text \<open>A slug is accepted exactly when its folded text is two to thirty-two lowercase ASCII
  letters, digits and hyphens, with no hyphen at an end or twice in a row; the accepted slug is the
  folded text, and parsing it again gives it back.\<close>

theorem slug_parse_correct:
  assumes "\<And>s. list_all (\<lambda>c. c < 128) s \<Longrightarrow> nfkc s = s" and "\<And>c. slug_char c \<Longrightarrow> lower c = [c]"
  shows "(slug_parse nfkc lower raw = Inr s \<longleftrightarrow> s = Slug (concat (map lower (nfkc raw))) \<and> slug_ok s) \<and>
    (slug_parse nfkc lower raw = Inr s \<longrightarrow> slug_parse nfkc lower (slug_str s) = Inr s)"
proof -
  have "nfkc (slug_str s) = slug_str s" if "slug_ok s"
    using that by (intro assms(1)) (auto simp: slug_ok_def list_all_iff slug_char_ascii)
  then have "slug_ok s \<Longrightarrow> slug_parse nfkc lower (slug_str s) = Inr s"
    using slug_parse_canonical [of s nfkc lower] assms(2) by blast
  then show ?thesis using slug_parse_Inr_iff [of nfkc lower raw s] by blast
qed

theorem slug_parse_correct_witness:
  "slug_parse (\<lambda>s. s) (\<lambda>c. [ascii_lower_char c]) (lit ''Ada-2'') = Inr (Slug (lit ''ada-2''))"
proof -
  have low: "slug_char c \<Longrightarrow> [ascii_lower_char c] = [c]" for c
    by (auto simp: slug_char_def ascii_lower_char_def is_ascii_lower_def is_ascii_digit_def is_ascii_upper_def)
  show ?thesis
    using slug_parse_correct [of "\<lambda>s. s" "\<lambda>c. [ascii_lower_char c]" "lit ''Ada-2''"
        "Slug (lit ''ada-2'')", OF refl low]
    by (simp add: slug_ok_def slug_char_def is_ascii_lower_def is_ascii_digit_def is_ascii_upper_def
        ascii_lower_char_def str_starts_with_def)
qed

text \<open>A secret reference is parsed back from its printed form, and whatever is parsed has a
  legal name; so the tenant and the employee that own a secret are never lost on the wire.\<close>

theorem secret_ref_round_trip:
  assumes "\<And>u. parse_uuid (show_uuid u) = Some u" and "\<And>u. 47 \<notin> set (show_uuid u)"
    and "secret_ref_new t e name = Inr r"
  shows "secret_ref_parse parse_uuid (secret_ref_display show_uuid r) = Inr r \<and>
    sr_tenant r = t \<and> sr_employee r = e \<and> sr_name r = name"
  using assms by (auto simp: secret_ref_new_Inr_iff intro!: secret_ref_parse_display)

theorem secret_ref_round_trip_witness:
  "\<exists>r. secret_ref_new (TenantId 1) (EmployeeId 2) (lit ''api_key'') = Inr r \<and>
     secret_ref_parse parse_uint (secret_ref_display show_word r) = Inr r"
proof -
  have "secret_ref_new (TenantId 1) (EmployeeId 2) (lit ''api_key'') =
      Inr \<lparr>sr_tenant = TenantId 1, sr_employee = EmployeeId 2, sr_name = lit ''api_key''\<rparr>"
    by (simp add: secret_ref_new_Inr_iff secret_ref_ok_def secret_name_char_def is_ascii_lower_def)
  from secret_ref_round_trip [OF parse_uint_show_word digits_no_sep(2) this] this show ?thesis by blast
qed

end
