(* ===== verification/Message.thy ===== *)
theory Message
  imports Ids
begin

text \<open>
  \<open>crates/domain/src/untrusted.rs\<close> and \<open>crates/domain/src/message.rs\<close>: the trust labels and
  their join, the wrapper for third-party values, channels, directions, canonical messages
  and their at-most-once key. Times are nanoseconds since the epoch, as integers.
\<close>

type_synonym timestamp = int

section \<open>Trust\<close>

datatype trust_label = Trusted | Untrusted_label

definition is_untrusted :: "trust_label \<Rightarrow> bool" where
  "is_untrusted t \<longleftrightarrow> (case t of Untrusted_label \<Rightarrow> True | Trusted \<Rightarrow> False)"

definition trust_join :: "trust_label \<Rightarrow> trust_label \<Rightarrow> trust_label" where
  "trust_join a b = (if is_untrusted a \<or> is_untrusted b then Untrusted_label else Trusted)"

datatype 'a untrusted = Untrusted (expose_for_parsing: 'a)

definition untrusted_taint :: "'a untrusted \<Rightarrow> trust_label" where
  "untrusted_taint u = Untrusted_label"

definition into_inner_for_rendering :: "'a untrusted \<Rightarrow> 'a" where
  "into_inner_for_rendering u = (case u of Untrusted x \<Rightarrow> x)"

definition untrusted_map :: "('a \<Rightarrow> 'b) \<Rightarrow> 'a untrusted \<Rightarrow> 'b untrusted" where
  "untrusted_map f u = Untrusted (f (expose_for_parsing u))"

definition untrusted_zip_with ::
  "('a \<Rightarrow> 'b \<Rightarrow> 'c) \<Rightarrow> 'a untrusted \<Rightarrow> 'b untrusted \<Rightarrow> 'c untrusted" where
  "untrusted_zip_with f a b = Untrusted (f (expose_for_parsing a) (expose_for_parsing b))"

definition untrusted_zip :: "'a untrusted \<Rightarrow> 'b untrusted \<Rightarrow> ('a \<times> 'b) untrusted" where
  "untrusted_zip a b = Untrusted (expose_for_parsing a, expose_for_parsing b)"

definition untrusted_transpose :: "('e + 'a) untrusted \<Rightarrow> 'e + 'a untrusted" where
  "untrusted_transpose u = rbind (expose_for_parsing u) (\<lambda>x. Inr (Untrusted x))"

definition untrusted_transpose_option :: "'a option untrusted \<Rightarrow> 'a untrusted option" where
  "untrusted_transpose_option u = map_option Untrusted (expose_for_parsing u)"

lemma is_untrusted_simps [simp]:
  "\<not> is_untrusted Trusted"
  "is_untrusted Untrusted_label"
  by (simp_all add: is_untrusted_def)

lemma is_untrusted_iff: "is_untrusted t \<longleftrightarrow> t = Untrusted_label"
  by (cases t) auto

text \<open>The label of a whole turn: the join over everything in its context.\<close>

definition trust_fold :: "trust_label list \<Rightarrow> trust_label" where
  "trust_fold ts = foldr trust_join ts Trusted"

lemma trust_fold_iff: "trust_fold ts = Untrusted_label \<longleftrightarrow> Untrusted_label \<in> set ts"
  by (induction ts) (auto simp: trust_fold_def trust_join_def is_untrusted_iff)

section \<open>Channels and messages\<close>

datatype channel = Email | Sms | Whatsapp | Voice | A2a | Web | Internal

definition channel_all :: "channel list" where
  "channel_all = [Email, Sms, Whatsapp, Voice, A2a, Web, Internal]"

fun channel_str :: "channel \<Rightarrow> ustr" where
  "channel_str Email = lit ''email''"
| "channel_str Sms = lit ''sms''"
| "channel_str Whatsapp = lit ''whatsapp''"
| "channel_str Voice = lit ''voice''"
| "channel_str A2a = lit ''a2a''"
| "channel_str Web = lit ''web''"
| "channel_str Internal = lit ''internal''"

datatype direction = Inbound | Outbound

datatype provider_ref = ProviderRef (provider_ref_str: ustr)

record attachment =
  at_provider_ref :: provider_ref
  at_content_type :: ustr
  at_size_bytes :: u64
  at_filename :: "ustr untrusted"

record canonical_message =
  cm_tenant_id :: tenant_id
  cm_employee_id :: employee_id
  cm_conversation_id :: conversation_id
  cm_provider_message_id :: provider_ref
  cm_idempotency_key :: idempotency_key
  cm_channel :: channel
  cm_direction :: direction
  cm_received_at :: timestamp
  cm_from :: "ustr untrusted"
  cm_subject :: "ustr untrusted option"
  cm_body_text :: "ustr untrusted"
  cm_attachments :: "attachment list"

definition dedupe_key ::
  "(uuid \<Rightarrow> ustr) \<Rightarrow> employee_id \<Rightarrow> channel \<Rightarrow> provider_ref \<Rightarrow> idempotency_key" where
  "dedupe_key show_uuid e c p =
     for_step show_uuid e (lit ''inbound:'' @ channel_str c @ lit '':'' @ provider_ref_str p)"

definition message_taint :: "canonical_message \<Rightarrow> trust_label" where
  "message_taint m = Untrusted_label"

lemma channel_str_inj: "channel_str a = channel_str b \<longleftrightarrow> a = b"
  by (cases a; cases b) auto

lemma channel_str_no_colon: "58 \<notin> set (channel_str c)"
  by (cases c) auto

lemma dedupe_key_eq:
  assumes "inj show_uuid" and "\<And>u. 58 \<notin> set (show_uuid u)"
    and "dedupe_key show_uuid e c p = dedupe_key show_uuid e' c' p'"
  shows "e = e' \<and> c = c' \<and> p = p'"
proof -
  let ?s = "\<lambda>c p. lit ''inbound:'' @ channel_str c @ lit '':'' @ provider_ref_str p"
  from for_step_inj [OF assms(1,2)] assms(3) have "e = e'" and eq: "?s c p = ?s c' p'"
    unfolding dedupe_key_def by blast+
  from eq have "channel_str c @ 58 # provider_ref_str p = channel_str c' @ 58 # provider_ref_str p'"
    by simp
  then have "split_once 58 (channel_str c @ 58 # provider_ref_str p) =
      split_once 58 (channel_str c' @ 58 # provider_ref_str p')"
    by (rule arg_cong)
  with \<open>e = e'\<close> show ?thesis
    by (auto simp: split_once_append channel_str_no_colon channel_str_inj intro: provider_ref.expand)
qed

text \<open>Two inbound messages share a de-duplication key exactly when they came to the same
  employee, on the same channel, with the same provider reference, whatever the reference contains.\<close>

theorem dedupe_key_iff:
  assumes "inj show_uuid" and "\<And>u. 58 \<notin> set (show_uuid u)"
  shows "dedupe_key show_uuid e c p = dedupe_key show_uuid e' c' p' \<longleftrightarrow> e = e' \<and> c = c' \<and> p = p'"
  using dedupe_key_eq [OF assms, of e c p e' c' p'] by blast

theorem dedupe_key_iff_witness:
  "dedupe_key show_word (EmployeeId 1) Sms (ProviderRef (lit ''a:b'')) \<noteq>
   dedupe_key show_word (EmployeeId 1) Email (ProviderRef (lit ''a:b''))"
  using dedupe_key_iff [OF inj_show_word digits_no_sep(1), of "EmployeeId 1" Sms "ProviderRef (lit ''a:b'')"
      "EmployeeId 1" Email "ProviderRef (lit ''a:b'')"]
  by simp

end
