(* ===== verification/Action.thy ===== *)
theory Action
  imports Money Message
begin

text \<open>
  \<open>crates/domain/src/action.rs\<close>: the parsed values an action is addressed with (domains, phone
  numbers, calling codes, email addresses, MCP tools), the closed set of actions, their
  kind and risk, and the context a ruling is made in. The URL parser (crate \<open>url\<close>) is the
  parameter \<open>parse_url\<close>: \<open>None\<close> where \<open>Url::parse\<close> fails. The lemmas give the shape of
  every parsed value and that parsing what was printed gives it back.
\<close>

section \<open>Domains\<close>

datatype url_host = Host_Domain ustr | Host_Ipv4 | Host_Ipv6

record url =
  url_scheme :: ustr
  url_host :: "url_host option"
  url_text :: ustr

datatype domain_error =
    Empty
  | NotAHost ustr
  | IpAddress ustr
  | TooFewLabels ustr
  | NotPublic ustr

definition private_use_suffixes :: "ustr list" where
  "private_use_suffixes = [lit ''local'', lit ''internal'', lit ''localhost'', lit ''home.arpa'']"

datatype domain = Domain (domain_str: ustr)

definition domain_forbidden :: "nat \<Rightarrow> bool" where
  "domain_forbidden c \<longleftrightarrow> c = 47 \<or> c = 92 \<or> c = 64 \<or> c = 58 \<or> c = 63 \<or> c = 35 \<or> c = 32"

definition domain_parse :: "(ustr \<Rightarrow> url option) \<Rightarrow> ustr \<Rightarrow> domain_error + domain" where
  "domain_parse parse_url raw =
     (let trimmed = trim_end_when (\<lambda>c. c = 46) (trim raw) in
      if trimmed = [] then Inl Empty
      else if list_ex domain_forbidden trimmed then Inl (NotAHost raw)
      else case parse_url (lit ''https://'' @ trimmed @ lit ''/'') of
             None \<Rightarrow> Inl (NotAHost raw)
           | Some u \<Rightarrow>
               (case url_host u of
                  Some (Host_Domain host) \<Rightarrow>
                    if 46 \<notin> set host then Inl (TooFewLabels host)
                    else if list_ex (\<lambda>suffix. host = suffix \<or> str_ends_with host (46 # suffix))
                              private_use_suffixes
                    then Inl (NotPublic host)
                    else Inr (Domain host)
                | Some Host_Ipv4 \<Rightarrow> Inl (IpAddress raw)
                | Some Host_Ipv6 \<Rightarrow> Inl (IpAddress raw)
                | None \<Rightarrow> Inl (NotAHost raw)))"

definition is_within :: "domain \<Rightarrow> domain \<Rightarrow> bool" where
  "is_within d other \<longleftrightarrow> domain_str d = domain_str other \<or>
     str_ends_with (domain_str d) (46 # domain_str other)"

section \<open>Phone numbers\<close>

datatype phone_error =
    MissingPlus
  | PhoneLength nat
  | NotADigit nat
  | LeadingZero
  | CallingCodeLength

datatype e164 = E164 (e164_str: ustr)

definition e164_parse :: "ustr \<Rightarrow> phone_error + e164" where
  "e164_parse raw = rbind (ok_or (strip_prefix [43] (trim raw)) MissingPlus) (\<lambda>digits.
     case find (\<lambda>c. \<not> is_ascii_digit c) digits of
       Some bad \<Rightarrow> Inl (NotADigit bad)
     | None \<Rightarrow>
         if \<not> (1 \<le> byte_len digits \<and> byte_len digits \<le> 15) then Inl (PhoneLength (byte_len digits))
         else if str_starts_with digits [48] then Inl LeadingZero
         else Inr (E164 (43 # digits)))"

definition e164_digits :: "e164 \<Rightarrow> ustr" where
  "e164_digits n = drop 1 (e164_str n)"

datatype calling_code = CallingCode (as_u16: u16)

definition calling_code_new :: "u16 \<Rightarrow> phone_error + calling_code" where
  "calling_code_new c = (if c = 0 \<or> 999 < c then Inl CallingCodeLength else Inr (CallingCode c))"

definition calling_code_parse :: "ustr \<Rightarrow> phone_error + calling_code" where
  "calling_code_parse raw =
     (let digits = (case strip_prefix [43] (trim raw) of Some d \<Rightarrow> d | None \<Rightarrow> trim raw) in
      case find (\<lambda>c. \<not> is_ascii_digit c) digits of
        Some bad \<Rightarrow> Inl (NotADigit bad)
      | None \<Rightarrow>
          if str_starts_with digits [48] then Inl LeadingZero
          else rbind (ok_or (parse_uint digits) CallingCodeLength) calling_code_new)"

definition calling_code_display :: "calling_code \<Rightarrow> ustr" where
  "calling_code_display c = 43 # show_word (as_u16 c)"

definition e164_starts_with :: "e164 \<Rightarrow> calling_code \<Rightarrow> bool" where
  "e164_starts_with n c = str_starts_with (e164_digits n) (show_word (as_u16 c))"

section \<open>Email addresses\<close>

datatype email_error =
    EmailShape
  | LocalLength
  | LocalCharset nat
  | LocalBoundary
  | EmailDomain domain_error

record email_address =
  local_part :: ustr
  email_domain :: domain

definition local_char :: "nat \<Rightarrow> bool" where
  "local_char c \<longleftrightarrow> is_ascii_upper c \<or> is_ascii_lower c \<or> is_ascii_digit c \<or>
     c = 46 \<or> c = 95 \<or> c = 43 \<or> c = 45"

definition email_parse :: "(ustr \<Rightarrow> url option) \<Rightarrow> ustr \<Rightarrow> email_error + email_address" where
  "email_parse parse_url raw0 =
     (let raw = trim raw0 in
      rbind (ok_or (split_once 64 raw) EmailShape) (\<lambda>(loc, dom).
        if 64 \<in> set dom then Inl EmailShape
        else if loc = [] \<or> 64 < byte_len loc then Inl LocalLength
        else case find (\<lambda>c. \<not> local_char c) loc of
               Some bad \<Rightarrow> Inl (LocalCharset bad)
             | None \<Rightarrow>
                 if str_starts_with loc [46] \<or> str_ends_with loc [46] \<or> str_contains loc [46, 46]
                 then Inl LocalBoundary
                 else rbind (map_err EmailDomain (domain_parse parse_url dom)) (\<lambda>d.
                   Inr \<lparr>local_part = to_ascii_lowercase loc, email_domain = d\<rparr>)))"

definition email_display :: "email_address \<Rightarrow> ustr" where
  "email_display e = local_part e @ [64] @ domain_str (email_domain e)"

section \<open>Supporting types\<close>

record mcp_tool =
  mcp_server :: slug
  mcp_name :: slug

datatype data_scope = Conversation conversation_id | AllForEmployee employee_id

record actor =
  actor_tenant_id :: tenant_id
  actor_employee_id :: employee_id

datatype contact_standing = Known | New

datatype risk = Low | High

definition is_high :: "risk \<Rightarrow> bool" where
  "is_high r \<longleftrightarrow> (case r of High \<Rightarrow> True | Low \<Rightarrow> False)"

section \<open>Actions\<close>

datatype action_kind =
    Kind_EmailSend | Kind_SmsSend | Kind_WhatsappSend | Kind_CallPlace | Kind_BrowserRead
  | Kind_BrowserWrite | Kind_FileUpload | Kind_McpCall | Kind_A2aSend | Kind_PaymentCreate
  | Kind_InvoiceIssue | Kind_QuoteIssue | Kind_ContractSign | Kind_CredentialChange
  | Kind_DataDelete | Kind_CharterSet | Kind_InternalSend | Kind_AppointmentBook

definition action_kind_all :: "action_kind list" where
  "action_kind_all =
     [Kind_EmailSend, Kind_SmsSend, Kind_WhatsappSend, Kind_CallPlace, Kind_BrowserRead,
      Kind_BrowserWrite, Kind_FileUpload, Kind_McpCall, Kind_A2aSend, Kind_PaymentCreate,
      Kind_InvoiceIssue, Kind_QuoteIssue, Kind_ContractSign, Kind_CredentialChange,
      Kind_DataDelete, Kind_CharterSet, Kind_InternalSend, Kind_AppointmentBook]"

fun action_kind_str :: "action_kind \<Rightarrow> ustr" where
  "action_kind_str Kind_EmailSend = lit ''email_send''"
| "action_kind_str Kind_SmsSend = lit ''sms_send''"
| "action_kind_str Kind_WhatsappSend = lit ''whatsapp_send''"
| "action_kind_str Kind_CallPlace = lit ''call_place''"
| "action_kind_str Kind_BrowserRead = lit ''browser_read''"
| "action_kind_str Kind_BrowserWrite = lit ''browser_write''"
| "action_kind_str Kind_FileUpload = lit ''file_upload''"
| "action_kind_str Kind_McpCall = lit ''mcp_call''"
| "action_kind_str Kind_A2aSend = lit ''a2a_send''"
| "action_kind_str Kind_PaymentCreate = lit ''payment_create''"
| "action_kind_str Kind_InvoiceIssue = lit ''invoice_issue''"
| "action_kind_str Kind_QuoteIssue = lit ''quote_issue''"
| "action_kind_str Kind_ContractSign = lit ''contract_sign''"
| "action_kind_str Kind_CredentialChange = lit ''credential_change''"
| "action_kind_str Kind_DataDelete = lit ''data_delete''"
| "action_kind_str Kind_CharterSet = lit ''charter_set''"
| "action_kind_str Kind_InternalSend = lit ''internal_send''"
| "action_kind_str Kind_AppointmentBook = lit ''appointment_book''"

datatype action =
    EmailSend email_address
  | SmsSend e164
  | WhatsappSend e164
  | CallPlace e164
  | BrowserRead domain
  | BrowserWrite domain
  | FileUpload domain
  | McpCall mcp_tool
  | A2aSend domain
  | PaymentCreate money ustr
  | InvoiceIssue money
  | QuoteIssue money
  | ContractSign ustr
  | CredentialChange secret_ref
  | DataDelete data_scope
  | CharterSet employee_id
  | InternalSend slug
  | AppointmentBook

fun kind :: "action \<Rightarrow> action_kind" where
  "kind (EmailSend _) = Kind_EmailSend"
| "kind (SmsSend _) = Kind_SmsSend"
| "kind (WhatsappSend _) = Kind_WhatsappSend"
| "kind (CallPlace _) = Kind_CallPlace"
| "kind (BrowserRead _) = Kind_BrowserRead"
| "kind (BrowserWrite _) = Kind_BrowserWrite"
| "kind (FileUpload _) = Kind_FileUpload"
| "kind (McpCall _) = Kind_McpCall"
| "kind (A2aSend _) = Kind_A2aSend"
| "kind (PaymentCreate _ _) = Kind_PaymentCreate"
| "kind (InvoiceIssue _) = Kind_InvoiceIssue"
| "kind (QuoteIssue _) = Kind_QuoteIssue"
| "kind (ContractSign _) = Kind_ContractSign"
| "kind (CredentialChange _) = Kind_CredentialChange"
| "kind (DataDelete _) = Kind_DataDelete"
| "kind (CharterSet _) = Kind_CharterSet"
| "kind (InternalSend _) = Kind_InternalSend"
| "kind AppointmentBook = Kind_AppointmentBook"

fun action_risk :: "action \<Rightarrow> risk" where
  "action_risk (EmailSend _) = Low"
| "action_risk (SmsSend _) = Low"
| "action_risk (WhatsappSend _) = Low"
| "action_risk (CallPlace _) = Low"
| "action_risk (BrowserRead _) = Low"
| "action_risk (BrowserWrite _) = Low"
| "action_risk (McpCall _) = Low"
| "action_risk (A2aSend _) = Low"
| "action_risk (InternalSend _) = Low"
| "action_risk AppointmentBook = Low"
| "action_risk (FileUpload _) = High"
| "action_risk (PaymentCreate _ _) = High"
| "action_risk (InvoiceIssue _) = High"
| "action_risk (QuoteIssue _) = High"
| "action_risk (ContractSign _) = High"
| "action_risk (CredentialChange _) = High"
| "action_risk (DataDelete _) = High"
| "action_risk (CharterSet _) = High"

record action_ctx =
  actor :: actor
  trust :: trust_label
  read_outside :: bool
  contact :: contact_standing
  spent_today :: "money option"
  new_contacts_today :: u32
  directs_subject :: bool
  now :: timestamp

definition action_ctx_new :: "actor \<Rightarrow> timestamp \<Rightarrow> action_ctx" where
  "action_ctx_new a t = \<lparr>actor = a, trust = Untrusted_label, read_outside = True, contact = New,
     spent_today = None, new_contacts_today = 0, directs_subject = False, now = t\<rparr>"

lemma is_high_simps [simp]:
  "is_high High"
  "\<not> is_high Low"
  by (simp_all add: is_high_def)

section \<open>Lemmas about parsed values\<close>

definition domain_ok :: "domain \<Rightarrow> bool" where
  "domain_ok d \<longleftrightarrow> 46 \<in> set (domain_str d) \<and>
     list_all (\<lambda>s. domain_str d \<noteq> s \<and> \<not> str_ends_with (domain_str d) (46 # s)) private_use_suffixes"

text \<open>A host is public when it has two labels and no private-use suffix.\<close>

definition public_host :: "ustr \<Rightarrow> bool" where
  "public_host h \<longleftrightarrow> 46 \<in> set h \<and>
     \<not> list_ex (\<lambda>s. h = s \<or> str_ends_with h (46 # s)) private_use_suffixes"

lemma domain_parse_Inr_iff:
  "domain_parse parse_url raw = Inr d \<longleftrightarrow>
     (let t = trim_end_when (\<lambda>c. c = 46) (trim raw) in
      t \<noteq> [] \<and> \<not> list_ex domain_forbidden t \<and> public_host (domain_str d) \<and>
      (\<exists>u. parse_url (lit ''https://'' @ t @ lit ''/'') = Some u \<and>
        url_host u = Some (Host_Domain (domain_str d))))"
proof -
  have "(case r of None \<Rightarrow> Inl (NotAHost raw) | Some u \<Rightarrow> (case url_host u of
      Some (Host_Domain h) \<Rightarrow> if 46 \<notin> set h then Inl (TooFewLabels h)
        else if list_ex (\<lambda>s. h = s \<or> str_ends_with h (46 # s)) private_use_suffixes
          then Inl (NotPublic h) else Inr (Domain h)
    | Some Host_Ipv4 \<Rightarrow> Inl (IpAddress raw) | Some Host_Ipv6 \<Rightarrow> Inl (IpAddress raw)
    | None \<Rightarrow> Inl (NotAHost raw))) = Inr d \<longleftrightarrow>
    public_host (domain_str d) \<and> (\<exists>u. r = Some u \<and> url_host u = Some (Host_Domain (domain_str d)))"
    for r by (cases d) (auto simp: public_host_def split: option.splits url_host.splits if_splits)
  from this [of "parse_url (lit ''https://'' @ trim_end_when (\<lambda>c. c = 46) (trim raw) @ lit ''/'')"]
  show ?thesis unfolding domain_parse_def Let_def by (simp del: lit_simps)
qed

lemma domain_parse_public: "domain_parse parse_url raw = Inr d \<Longrightarrow> domain_ok d"
  by (simp add: domain_parse_Inr_iff Let_def domain_ok_def public_host_def list_ex_iff list_all_iff)

lemma is_within_refl [simp]: "is_within d d"
  by (simp add: is_within_def)


definition e164_ok :: "e164 \<Rightarrow> bool" where
  "e164_ok n \<longleftrightarrow> (\<exists>d ds. e164_str n = 43 # d # ds \<and> length ds \<le> 14 \<and> d \<noteq> 48 \<and>
     list_all is_ascii_digit (d # ds))"

lemma e164_parse_Inr_iff:
  "e164_parse raw = Inr n \<longleftrightarrow> e164_ok n \<and> trim raw = e164_str n"
proof (cases "strip_prefix [43] (trim raw)")
  case None
  then show ?thesis
    by (auto simp: e164_parse_def e164_ok_def strip_prefix_def str_starts_with_def split: if_splits)
next
  case (Some digits)
  then have t: "trim raw = 43 # digits" by (simp add: strip_prefix_Some_iff)
  show ?thesis
  proof (cases "list_all is_ascii_digit digits")
    case True
    then have "find (\<lambda>c. \<not> is_ascii_digit c) digits = None" "byte_len digits = length digits"
      by (simp_all add: find_not_None_iff digits_byte_len)
    with Some t True show ?thesis
      by (cases digits; cases n) (auto simp: e164_parse_def e164_ok_def starts_with_single)
  next
    case False
    then have "find (\<lambda>c. \<not> is_ascii_digit c) digits \<noteq> None" by (simp add: find_not_None_iff)
    with Some t False show ?thesis
      by (cases n) (auto simp: e164_parse_def e164_ok_def)
  qed
qed

lemma e164_reparse: "e164_ok n \<Longrightarrow> e164_parse (e164_str n) = Inr n"
  by (auto simp: e164_parse_Inr_iff e164_ok_def intro!: trim_no_ws)
    (auto simp: is_whitespace_def list_all_iff is_ascii_digit_def)

definition calling_code_ok :: "calling_code \<Rightarrow> bool" where
  "calling_code_ok c \<longleftrightarrow> 1 \<le> unat (as_u16 c) \<and> unat (as_u16 c) \<le> 999"

lemma calling_code_new_Inr_iff:
  "calling_code_new w = Inr c \<longleftrightarrow> calling_code_ok c \<and> w = as_u16 c"
  by (cases c) (auto simp: calling_code_new_def calling_code_ok_def word_less_nat_alt neq_0_nat)

lemma show_nat_hd: "n \<noteq> 0 \<Longrightarrow> hd (show_nat n) \<noteq> 48"
proof (induction n rule: show_nat.induct)
  case (1 n)
  then show ?case by (cases "n < 10") (simp_all add: show_nat.simps [of n])
qed

lemma calling_code_reparse:
  assumes "calling_code_ok c"
  shows "calling_code_parse (calling_code_display c) = Inr c"
proof -
  let ?s = "show_word (as_u16 c)"
  have "list_all (\<lambda>x. \<not> is_whitespace x) (43 # ?s)"
    using digits_no_ws [OF show_word_digits] by (simp add: is_whitespace_def [of 43])
  then have "trim (43 # ?s) = 43 # ?s" by (rule trim_no_ws)
  moreover have "strip_prefix [43] (43 # ?s) = Some ?s" by (simp add: strip_prefix_Some_iff)
  moreover have "find (\<lambda>c. \<not> is_ascii_digit c) ?s = None"
    by (simp add: find_not_None_iff show_word_digits)
  moreover have "hd ?s \<noteq> 48"
    using assms by (simp add: show_word_def show_nat_hd calling_code_ok_def)
  ultimately show ?thesis
    using assms by (simp add: calling_code_parse_def calling_code_display_def starts_with_single
        calling_code_new_Inr_iff)
qed

text \<open>The local part an accepted address carries: lowercase, 1 to 64 legal characters.\<close>

definition email_ok :: "email_address \<Rightarrow> bool" where
  "email_ok e \<longleftrightarrow> local_part e \<noteq> [] \<and> length (local_part e) \<le> 64 \<and>
     list_all (\<lambda>c. local_char c \<and> \<not> is_ascii_upper c) (local_part e) \<and>
     hd (local_part e) \<noteq> 46 \<and> last (local_part e) \<noteq> 46 \<and>
     \<not> str_contains (local_part e) [46, 46] \<and> domain_ok (email_domain e)"

lemma local_char_ascii: "local_char c \<Longrightarrow> c < 128"
  by (auto simp: local_char_def is_ascii_upper_def is_ascii_lower_def is_ascii_digit_def)

lemma local_chars_byte_len: "list_all local_char s \<Longrightarrow> byte_len s = length s"
  by (rule byte_len_ascii) (auto simp: list_all_iff local_char_ascii)

lemma local_char_lower: "local_char c \<Longrightarrow> local_char (ascii_lower_char c) \<and> \<not> is_ascii_upper (ascii_lower_char c)"
  by (auto simp: local_char_def ascii_lower_char_def is_ascii_upper_def is_ascii_lower_def is_ascii_digit_def)

lemma ascii_lower_dot [simp]: "ascii_lower_char c = 46 \<longleftrightarrow> c = 46"
  by (auto simp: ascii_lower_char_def is_ascii_upper_def)

lemma str_contains_lower_dots:
  "str_contains (to_ascii_lowercase s) [46, 46] \<longleftrightarrow> str_contains s [46, 46]"
proof (induction s)
  case Nil
  then show ?case by (simp add: to_ascii_lowercase_def)
next
  case (Cons c s)
  then show ?case by (cases s) (auto simp: to_ascii_lowercase_def str_starts_with_def)
qed

lemma lower_hd_last:
  assumes "s \<noteq> []"
  shows "hd (to_ascii_lowercase s) = 46 \<longleftrightarrow> hd s = 46" and "last (to_ascii_lowercase s) = 46 \<longleftrightarrow> last s = 46"
  using assms by (simp_all add: to_ascii_lowercase_def hd_map last_map)

lemma email_parse_Inr_iff:
  "email_parse parse_url raw = Inr e \<longleftrightarrow>
     (\<exists>loc dm. split_once 64 (trim raw) = Some (loc, dm) \<and> 64 \<notin> set dm \<and> loc \<noteq> [] \<and>
       byte_len loc \<le> 64 \<and> list_all local_char loc \<and> \<not> str_starts_with loc [46] \<and>
       \<not> str_ends_with loc [46] \<and> \<not> str_contains loc [46, 46] \<and>
       local_part e = to_ascii_lowercase loc \<and> domain_parse parse_url dm = Inr (email_domain e))"
proof (cases "split_once 64 (trim raw)")
  case None
  then show ?thesis by (simp add: email_parse_def Let_def)
next
  case (Some p)
  obtain loc dm where p: "p = (loc, dm)" by (cases p)
  show ?thesis
  proof (cases "64 \<in> set dm \<or> loc = [] \<or> 64 < byte_len loc")
    case True
    with Some p show ?thesis by (simp add: email_parse_def Let_def) linarith
  next
    case False
    show ?thesis
    proof (cases "list_all local_char loc")
      case True
      then have "find (\<lambda>c. \<not> local_char c) loc = None" by (simp add: find_not_None_iff)
      with False True Some p show ?thesis
        by (cases e) (simp add: email_parse_def Let_def rbind_eq_Inr_iff, blast)
    next
      case bad: False
      then obtain c where "find (\<lambda>c. \<not> local_char c) loc = Some c"
        using find_not_None_iff [of local_char loc] by auto
      with False bad Some p show ?thesis by (simp add: email_parse_def Let_def)
    qed
  qed
qed

lemma email_parse_InrD:
  assumes "email_parse parse_url raw = Inr e"
  shows "email_ok e"
proof -
  from assms obtain loc dm where loc: "loc \<noteq> []" "byte_len loc \<le> 64" "list_all local_char loc"
      "\<not> str_starts_with loc [46]" "\<not> str_ends_with loc [46]" "\<not> str_contains loc [46, 46]"
    and e: "local_part e = to_ascii_lowercase loc"
    and d: "domain_parse parse_url dm = Inr (email_domain e)"
    unfolding email_parse_Inr_iff by blast
  from loc(3) have "list_all (\<lambda>c. local_char c \<and> \<not> is_ascii_upper c) (to_ascii_lowercase loc)"
    by (auto simp: list_all_iff to_ascii_lowercase_def local_char_lower)
  moreover have "length (to_ascii_lowercase loc) \<le> 64"
    using loc(2) local_chars_byte_len [OF loc(3)] by (simp add: to_ascii_lowercase_def)
  moreover have "to_ascii_lowercase loc \<noteq> []" using loc(1) by (simp add: to_ascii_lowercase_def)
  moreover have "hd loc \<noteq> 46" "last loc \<noteq> 46"
    using loc by (simp_all add: starts_with_single ends_with_single)
  ultimately show ?thesis
    using domain_parse_public [OF d] loc(1,6) e
    by (simp add: email_ok_def str_contains_lower_dots lower_hd_last)
qed

lemma domain_parse_trim_end:
  assumes "domain_parse parse_url s = Inr d"
  shows "domain_parse parse_url (trim_end_when is_whitespace s) = Inr d"
  using assms by (simp add: domain_parse_Inr_iff trim_trim_end del: lit_simps)

text \<open>A slug and a domain that parses again make an address that parses.\<close>

lemma slug_char_local: "slug_char c \<Longrightarrow> local_char c \<and> ascii_lower_char c = c \<and> c \<noteq> 46 \<and> c \<noteq> 64"
  by (auto simp: slug_char_def local_char_def ascii_lower_char_def is_ascii_lower_def
      is_ascii_upper_def is_ascii_digit_def)

lemma slug_char_not_ws: "slug_char c \<Longrightarrow> \<not> is_whitespace c"
  by (auto simp: slug_char_def is_whitespace_def is_ascii_lower_def is_ascii_digit_def)

lemma str_contains_set: "str_contains s p \<Longrightarrow> set p \<subseteq> set s"
proof (induction s)
  case (Cons c s)
  then show ?case
    by (auto simp: str_starts_with_def dest: in_set_takeD) (metis in_set_takeD list.set_intros set_ConsD subsetD)
qed simp

lemma domain_parse_no_at:
  assumes "domain_parse parse_url s = Inr d"
  shows "64 \<notin> set s"
proof
  assume "64 \<in> set s"
  then have "64 \<in> set (trim_end_when (\<lambda>c. c = 46) (trim s))"
    by (intro trim_end_when_keeps trim_keeps) (simp_all add: is_whitespace_def)
  with assms show False
    by (auto simp: domain_parse_Inr_iff Let_def list_ex_iff domain_forbidden_def)
qed

lemma trim_slug_at:
  assumes "slug_ok s"
  shows "trim (slug_str s @ 64 # h) = slug_str s @ 64 # trim_end_when is_whitespace h"
proof -
  let ?l = "slug_str s" and ?h = "trim_end_when is_whitespace h"
  from assms have l: "list_all slug_char ?l" "?l \<noteq> []" by (auto simp: slug_ok_def)
  have "dropWhile is_whitespace (?l @ 64 # h) = ?l @ 64 # h"
    using l by (cases ?l) (auto simp: slug_char_not_ws)
  moreover have "trim_end_when is_whitespace ((?l @ [64]) @ h) = (?l @ [64]) @ ?h"
  proof (cases "list_all is_whitespace h")
    case True
    then have "?h = []" by simp
    moreover from True have "trim_end_when is_whitespace (?l @ [64] @ h) = ?l @ [64]"
      by (subst trim_end_when_append)
        (auto simp: trim_end_when_def is_whitespace_def [of 64] list_all_iff dropWhile_append)
    ultimately show ?thesis by (simp del: trim_end_when_Nil_iff)
  next
    case False
    then have "h \<noteq> []" by auto
    from this False show ?thesis by (rule trim_end_when_append)
  qed
  ultimately show ?thesis by (simp add: trim_def)
qed

lemma slug_no_at: "slug_ok s \<Longrightarrow> 64 \<notin> set (slug_str s)"
  by (auto simp: slug_ok_def list_all_iff dest: slug_char_local)

lemma email_of_slug:
  assumes "slug_ok s" and "domain_parse parse_url h = Inr d"
  shows "email_parse parse_url (slug_str s @ 64 # h) =
    Inr \<lparr>local_part = slug_str s, email_domain = d\<rparr>"
proof -
  let ?l = "slug_str s" and ?h = "trim_end_when is_whitespace h"
  from assms(1) have l: "list_all slug_char ?l" "?l \<noteq> []" "length ?l \<le> 32"
    by (auto simp: slug_ok_def)
  then have chars: "list_all local_char ?l" "46 \<notin> set ?l" "to_ascii_lowercase ?l = ?l"
    by (auto simp: list_all_iff to_ascii_lowercase_def intro!: map_idI dest: slug_char_local)
  then have len: "byte_len ?l = length ?l" by (simp add: local_chars_byte_len)
  have dots: "\<not> str_starts_with ?l [46]" "\<not> str_ends_with ?l [46]" "\<not> str_contains ?l [46, 46]"
    using chars(2) l(2) str_contains_set [of ?l "[46, 46]"]
    by (auto simp: starts_with_single ends_with_single dest: hd_in_set last_in_set)
  have "64 \<notin> set ?h" using domain_parse_no_at [OF assms(2)] trim_end_when_set by blast
  moreover have "split_once 64 (trim (?l @ 64 # h)) = Some (?l, ?h)"
    by (simp add: trim_slug_at [OF assms(1)] split_once_append slug_no_at [OF assms(1)])
  ultimately show ?thesis
    using assms(2) chars l len dots domain_parse_trim_end [OF assms(2)]
    by (subst email_parse_Inr_iff) simp
qed

lemma email_of_slug_fails:
  assumes "slug_ok s" and "domain_parse parse_url h = Inl err"
  shows "\<exists>e. email_parse parse_url (slug_str s @ 64 # h) = Inl e"
proof (rule ccontr)
  assume "\<nexists>e. email_parse parse_url (slug_str s @ 64 # h) = Inl e"
  then obtain e where "email_parse parse_url (slug_str s @ 64 # h) = Inr e"
    by (cases "email_parse parse_url (slug_str s @ 64 # h)") auto
  then have "domain_parse parse_url (trim_end_when is_whitespace h) = Inr (email_domain e)"
    by (auto simp: email_parse_Inr_iff trim_slug_at [OF assms(1)] split_once_append slug_no_at [OF assms(1)])
  then have "domain_parse parse_url h = Inr (email_domain e)"
    by (simp add: domain_parse_Inr_iff trim_trim_end del: lit_simps)
  with assms(2) show False by simp
qed

section \<open>Interfaces\<close>

lemma calling_code_parse_ok: "calling_code_parse raw = Inr c \<Longrightarrow> calling_code_ok c"
  by (auto simp: calling_code_parse_def Let_def rbind_eq_Inr_iff calling_code_new_Inr_iff
      split: option.splits if_splits)

interpretation phone: reparse e164_parse e164_str e164_ok
  by unfold_locales (auto simp: e164_reparse e164_parse_Inr_iff)

interpretation calling: reparse calling_code_parse calling_code_display calling_code_ok
  by unfold_locales (auto simp: calling_code_reparse dest: calling_code_parse_ok)

lemma ends_with_dot: "str_ends_with s [46] \<longleftrightarrow> s \<noteq> [] \<and> last s = 46"
  by (rule ends_with_single)

lemma trim_end_when_last: "s \<noteq> [] \<Longrightarrow> \<not> p (last s) \<Longrightarrow> trim_end_when p s = s"
  by (cases s rule: rev_cases) (simp_all add: trim_end_when_def)

section \<open>Properties\<close>


text \<open>The URL parser's documented behaviour the domain relies on: a host it returns has no
  forbidden or blank character, and parsing that host again returns it.\<close>

definition url_hosts_canonical :: "(ustr \<Rightarrow> url option) \<Rightarrow> bool" where
  "url_hosts_canonical parse_url \<longleftrightarrow> (\<forall>t u h.
     parse_url (lit ''https://'' @ t @ lit ''/'') = Some u \<and> url_host u = Some (Host_Domain h) \<longrightarrow>
       list_all (\<lambda>c. \<not> domain_forbidden c \<and> \<not> is_whitespace c) h \<and>
       (\<exists>v. parse_url (lit ''https://'' @ h @ lit ''/'') = Some v \<and> url_host v = Some (Host_Domain h)))"

text \<open>A parsed domain is in normal form: parsing its text again gives it back, unless it ends
  in a dot, which the parser strips before and not after the host is decoded.\<close>

theorem domain_reparse:
  assumes "url_hosts_canonical parse_url" and "domain_parse parse_url raw = Inr d"
    and "last (domain_str d) \<noteq> 46"
  shows "domain_parse parse_url (domain_str d) = Inr d"
proof -
  from assms(2) obtain t u where "parse_url (lit ''https://'' @ t @ lit ''/'') = Some u"
      "url_host u = Some (Host_Domain (domain_str d))" and pub: "public_host (domain_str d)"
    unfolding domain_parse_Inr_iff Let_def by blast
  with assms(1) have h: "list_all (\<lambda>c. \<not> domain_forbidden c \<and> \<not> is_whitespace c) (domain_str d)"
    and v: "\<exists>v. parse_url (lit ''https://'' @ domain_str d @ lit ''/'') = Some v \<and>
      url_host v = Some (Host_Domain (domain_str d))"
    unfolding url_hosts_canonical_def by blast+
  from pub have ne: "domain_str d \<noteq> []" by (auto simp: public_host_def)
  from h have "trim (domain_str d) = domain_str d" by (intro trim_no_ws) (simp add: list_all_iff)
  with ne assms(3) have "trim_end_when (\<lambda>c. c = 46) (trim (domain_str d)) = domain_str d"
    by (simp add: trim_end_when_last)
  with ne h v pub show ?thesis
    unfolding domain_parse_Inr_iff Let_def by (auto simp: list_ex_iff list_all_iff)
qed

text \<open>A URL parser on bare hosts: a trailing percent-encoded dot is decoded, as the standard
  says, and everything else is kept.\<close>

definition sample_parse_url :: "ustr \<Rightarrow> url option" where
  "sample_parse_url s =
     (case strip_prefix (lit ''https://'') s of
        None \<Rightarrow> None
      | Some r \<Rightarrow>
          (let h = butlast r;
               host = (if str_ends_with h (lit ''%2E'') then take (length h - 3) h @ [46] else h)
           in if list_ex (\<lambda>c. domain_forbidden c \<or> is_whitespace c \<or> c = 37) host then None
              else Some \<lparr>url_scheme = lit ''https'', url_host = Some (Host_Domain host), url_text = s\<rparr>))"

lemma sample_parse_url_https:
  "sample_parse_url (lit ''https://'' @ t @ lit ''/'') =
     (let host = (if str_ends_with t (lit ''%2E'') then take (length t - 3) t @ [46] else t)
      in if list_ex (\<lambda>c. domain_forbidden c \<or> is_whitespace c \<or> c = 37) host then None
         else Some \<lparr>url_scheme = lit ''https'', url_host = Some (Host_Domain host),
           url_text = lit ''https://'' @ t @ lit ''/''\<rparr>)"
proof -
  have "strip_prefix (lit ''https://'') (lit ''https://'' @ t @ lit ''/'') = Some (t @ lit ''/'')"
    by (rule strip_prefix_append)
  moreover have "butlast (t @ lit ''/'') = t" by simp
  ultimately show ?thesis by (simp only: sample_parse_url_def option.case Let_def)
qed

lemma sample_parse_url_canonical: "url_hosts_canonical sample_parse_url"
proof -
  have "list_all (\<lambda>c. \<not> domain_forbidden c \<and> \<not> is_whitespace c) h \<and>
      (\<exists>v. sample_parse_url (lit ''https://'' @ h @ lit ''/'') = Some v \<and> url_host v = Some (Host_Domain h))"
    if "sample_parse_url (lit ''https://'' @ t @ lit ''/'') = Some u" "url_host u = Some (Host_Domain h)"
    for t u h
  proof -
    from that have h: "\<not> list_ex (\<lambda>c. domain_forbidden c \<or> is_whitespace c \<or> c = 37) h"
      by (auto simp only: sample_parse_url_https Let_def option.inject url.simps url_host.inject
          split: if_splits)
    then have "37 \<notin> set h" by (auto simp: list_ex_iff)
    then have "\<not> str_ends_with h (lit ''%2E'')" by (auto simp: str_ends_with_iff)
    with h have "sample_parse_url (lit ''https://'' @ h @ lit ''/'') =
        Some \<lparr>url_scheme = lit ''https'', url_host = Some (Host_Domain h),
          url_text = lit ''https://'' @ h @ lit ''/''\<rparr>"
      by (simp only: sample_parse_url_https Let_def if_False)
    with h show ?thesis by (simp add: list_ex_iff list_all_iff del: lit_simps)
  qed
  then show ?thesis unfolding url_hosts_canonical_def by blast
qed

lemma sample_domain_parse:
  assumes "list_all (\<lambda>c. \<not> domain_forbidden c \<and> \<not> is_whitespace c \<and> c \<noteq> 37) h" and "public_host h"
    and "last h \<noteq> 46"
  shows "domain_parse sample_parse_url h = Inr (Domain h)"
proof -
  from assms(2) have ne: "h \<noteq> []" by (auto simp: public_host_def)
  from assms(1) have "trim h = h" by (intro trim_no_ws) (simp add: list_all_iff)
  with ne assms(3) have t: "trim_end_when (\<lambda>c. c = 46) (trim h) = h"
    by (simp add: trim_end_when_last)
  from assms(1) have "37 \<notin> set h" by (auto simp: list_all_iff)
  then have "\<not> str_ends_with h (lit ''%2E'')" by (auto simp: str_ends_with_iff)
  moreover from assms(1) have "\<not> list_ex (\<lambda>c. domain_forbidden c \<or> is_whitespace c \<or> c = 37) h"
    by (auto simp: list_ex_iff list_all_iff)
  ultimately have "sample_parse_url (lit ''https://'' @ h @ lit ''/'') =
      Some \<lparr>url_scheme = lit ''https'', url_host = Some (Host_Domain h),
        url_text = lit ''https://'' @ h @ lit ''/''\<rparr>"
    by (simp only: sample_parse_url_https Let_def if_False)
  with ne t assms(1,2) show ?thesis
    unfolding domain_parse_Inr_iff Let_def by (simp add: list_ex_iff list_all_iff del: lit_simps)
qed

lemma acme_parses: "domain_parse sample_parse_url (lit ''acme.com'') = Inr (Domain (lit ''acme.com''))"
  by (rule sample_domain_parse)
    (simp_all add: domain_forbidden_def is_whitespace_def public_host_def private_use_suffixes_def
      str_ends_with_def str_starts_with_def)


theorem domain_reparse_witness:
  "domain_parse sample_parse_url (lit ''acme.com'') = Inr (Domain (lit ''acme.com''))"
  using domain_reparse [OF sample_parse_url_canonical acme_parses] by simp

text \<open>A phone number is accepted exactly when it is a plus sign and one to fifteen digits,
  the first not zero, apart from surrounding blanks; a calling code is between 1 and 999; both are
  parsed back from what they print, and distinct ones print differently.\<close>

theorem phone_values_correct:
  "(e164_parse raw = Inr n \<longleftrightarrow> e164_ok n \<and> trim raw = e164_str n) \<and>
   (e164_parse raw = Inr n \<longrightarrow> e164_parse (e164_str n) = Inr n) \<and>
   (calling_code_new w = Inr c \<longleftrightarrow> 1 \<le> unat w \<and> unat w \<le> 999 \<and> as_u16 c = w) \<and>
   (calling_code_parse raw = Inr c \<longrightarrow> calling_code_parse (calling_code_display c) = Inr c)"
  using calling_code_new_Inr_iff [of w c] phone.parse_again calling.parse_again
  by (auto simp: e164_parse_Inr_iff calling_code_ok_def)

theorem phone_values_correct_witness:
  "e164_parse (lit ''+33612345678'') = Inr (E164 (lit ''+33612345678''))"
proof -
  have "e164_ok (E164 (lit ''+33612345678''))"
    by (simp add: e164_ok_def is_ascii_digit_def)
  moreover have "trim (lit ''+33612345678'') = lit ''+33612345678''"
    by (rule trim_no_ws) (simp add: is_whitespace_def)
  ultimately show ?thesis
    using phone_values_correct [of "lit ''+33612345678''" "E164 (lit ''+33612345678'')" 1 "CallingCode 1"]
    by simp
qed

text \<open>An accepted email address has a lowercase local part of 1 to 64 legal characters, with
  no dot at an end or twice in a row, and a public domain; and every slug before an accepted domain
  is an address with that slug as local part.\<close>

theorem email_parse_correct:
  assumes "domain_parse parse_url h = Inr d" and "slug_ok s"
  shows "email_parse parse_url (slug_str s @ 64 # h) =
      Inr \<lparr>local_part = slug_str s, email_domain = d\<rparr> \<and>
    (\<forall>raw e. email_parse parse_url raw = Inr e \<longrightarrow> email_ok e)"
  using email_of_slug [OF assms(2,1)] email_parse_InrD by blast

theorem email_parse_correct_witness:
  "email_parse sample_parse_url (lit ''ada'' @ 64 # lit ''acme.com'') =
     Inr \<lparr>local_part = lit ''ada'', email_domain = Domain (lit ''acme.com'')\<rparr>"
proof -
  have "slug_ok (Slug (lit ''ada''))"
    by (simp add: slug_ok_def slug_char_def is_ascii_lower_def str_starts_with_def)
  from email_parse_correct [OF acme_parses this] show ?thesis by simp
qed

end
