(* ===== verification/Employee.thy ===== *)
theory Employee
  imports Action
begin

text \<open>
  \<open>crates/domain/src/employee.rs\<close>: the employee state machine. A resource map that the code
  keeps total is a partial map here, so that \<open>expect("resource map is total")\<close> is a branch:
  an operation that would panic returns \<open>None\<close> (an error value \<open>Panic\<close> once the operations
  are put together). The lemmas show that no sequence of operations on a new or rehydrated
  employee panics, which states are reachable, and what the derived health means.
\<close>

section \<open>Lifecycle and health\<close>

datatype lifecycle = Draft | Active | Suspended | Terminated

definition lifecycle_can_move_to :: "lifecycle \<Rightarrow> lifecycle \<Rightarrow> bool" where
  "lifecycle_can_move_to s to \<longleftrightarrow> (if s = to then True else
     (case s of
        Draft \<Rightarrow> to = Active \<or> to = Terminated
      | Active \<Rightarrow> to = Suspended \<or> to = Terminated
      | Suspended \<Rightarrow> to = Active \<or> to = Terminated
      | Terminated \<Rightarrow> False))"

fun lifecycle_str :: "lifecycle \<Rightarrow> ustr" where
  "lifecycle_str Draft = lit ''draft''"
| "lifecycle_str Active = lit ''active''"
| "lifecycle_str Suspended = lit ''suspended''"
| "lifecycle_str Terminated = lit ''terminated''"

datatype health = Health_Provisioning | Health_Degraded | Health_Online | Health_Failed

fun health_str :: "health \<Rightarrow> ustr" where
  "health_str Health_Provisioning = lit ''provisioning''"
| "health_str Health_Degraded = lit ''degraded''"
| "health_str Health_Online = lit ''online''"
| "health_str Health_Failed = lit ''failed''"

section \<open>Provisioning steps\<close>

datatype step =
    Step_Identity | Step_Email | Step_Phone | Step_Whatsapp | Step_Wallet | Step_Browser
  | Step_Vault | Step_CompanyKnowledge | Step_Mcp | Step_A2a | Step_Permissions

definition step_all :: "step list" where
  "step_all = [Step_Identity, Step_Email, Step_Phone, Step_Whatsapp, Step_Wallet, Step_Browser,
     Step_Vault, Step_CompanyKnowledge, Step_Mcp, Step_A2a, Step_Permissions]"

fun depends_on :: "step \<Rightarrow> step list" where
  "depends_on Step_Identity = []"
| "depends_on Step_Email = [Step_Identity]"
| "depends_on Step_Phone = [Step_Identity]"
| "depends_on Step_Whatsapp = [Step_Identity]"
| "depends_on Step_Wallet = [Step_Identity]"
| "depends_on Step_Vault = [Step_Identity]"
| "depends_on Step_CompanyKnowledge = [Step_Identity]"
| "depends_on Step_Mcp = [Step_Identity]"
| "depends_on Step_A2a = [Step_Identity]"
| "depends_on Step_Permissions = [Step_Identity]"
| "depends_on Step_Browser = [Step_Identity, Step_Vault]"

fun is_blocking :: "step \<Rightarrow> bool" where
  "is_blocking Step_Identity = True"
| "is_blocking Step_Email = True"
| "is_blocking Step_Vault = True"
| "is_blocking Step_Permissions = True"
| "is_blocking Step_Phone = False"
| "is_blocking Step_Whatsapp = False"
| "is_blocking Step_Wallet = False"
| "is_blocking Step_Browser = False"
| "is_blocking Step_CompanyKnowledge = False"
| "is_blocking Step_Mcp = False"
| "is_blocking Step_A2a = False"

fun step_str :: "step \<Rightarrow> ustr" where
  "step_str Step_Identity = lit ''identity''"
| "step_str Step_Email = lit ''email''"
| "step_str Step_Phone = lit ''phone''"
| "step_str Step_Whatsapp = lit ''whatsapp''"
| "step_str Step_Wallet = lit ''wallet''"
| "step_str Step_Browser = lit ''browser''"
| "step_str Step_Vault = lit ''vault''"
| "step_str Step_CompanyKnowledge = lit ''company_knowledge''"
| "step_str Step_Mcp = lit ''mcp''"
| "step_str Step_A2a = lit ''a2a''"
| "step_str Step_Permissions = lit ''permissions''"

section \<open>Resources\<close>

datatype resource_state =
    Pending
  | Provisioning
  | Ready
  | PendingExternal ustr timestamp
  | Failed
  | Disabled

fun resource_state_str :: "resource_state \<Rightarrow> ustr" where
  "resource_state_str Pending = lit ''pending''"
| "resource_state_str Provisioning = lit ''provisioning''"
| "resource_state_str Ready = lit ''ready''"
| "resource_state_str (PendingExternal _ _) = lit ''pending_external''"
| "resource_state_str Failed = lit ''failed''"
| "resource_state_str Disabled = lit ''disabled''"

definition is_pending_external :: "resource_state \<Rightarrow> bool" where
  "is_pending_external s \<longleftrightarrow> (case s of PendingExternal _ _ \<Rightarrow> True | _ \<Rightarrow> False)"

definition resource_can_move_to :: "resource_state \<Rightarrow> resource_state \<Rightarrow> bool" where
  "resource_can_move_to s to \<longleftrightarrow>
     (if resource_state_str s = resource_state_str to then True
      else (case s of
         Pending \<Rightarrow> to = Provisioning \<or> is_pending_external to \<or> to = Failed \<or> to = Disabled
       | Provisioning \<Rightarrow> to = Ready \<or> is_pending_external to \<or> to = Failed \<or> to = Disabled
       | PendingExternal _ _ \<Rightarrow> to = Ready \<or> to = Provisioning \<or> to = Failed \<or> to = Disabled
       | Ready \<Rightarrow> to = Provisioning \<or> to = Failed \<or> to = Disabled
       | Failed \<Rightarrow> to = Pending \<or> to = Provisioning \<or> to = Disabled
       | Disabled \<Rightarrow> to = Pending \<or> to = Provisioning))"

record provider_binding =
  provider :: ustr
  external_id :: ustr

record already_bound =
  ab_step :: step
  ab_provider :: ustr
  ab_external_id :: ustr

record resource_status =
  rs_state :: resource_state
  rs_binding :: "provider_binding option"
  rs_updated_at :: timestamp

definition rs_is_ready :: "resource_status \<Rightarrow> bool" where
  "rs_is_ready r \<longleftrightarrow> rs_state r = Ready"

datatype illegal_transition =
    Illegal_State step ustr ustr
  | DependencyNotReady step step

datatype illegal_lifecycle = IllegalLifecycle lifecycle lifecycle

section \<open>The employee\<close>

record employee =
  e_id :: employee_id
  e_tenant_id :: tenant_id
  e_slug :: slug
  e_domain :: domain
  e_address :: email_address
  e_did :: ustr
  e_lifecycle :: lifecycle
  e_resources :: "step \<rightharpoonup> resource_status"
  e_created_at :: timestamp
  e_updated_at :: timestamp

definition employee_new ::
  "(ustr \<Rightarrow> url option) \<Rightarrow> (uuid \<Rightarrow> ustr) \<Rightarrow> employee_id \<Rightarrow> tenant_id \<Rightarrow> slug \<Rightarrow> domain \<Rightarrow> timestamp \<Rightarrow> employee option" where
  "employee_new parse_url show_uuid i t s d tm =
     (case email_parse parse_url (slug_str s @ lit ''@'' @ domain_str d) of
        Inl _ \<Rightarrow> None
      | Inr addr \<Rightarrow> Some
          \<lparr>e_id = i, e_tenant_id = t, e_slug = s, e_domain = d, e_address = addr,
           e_did = lit ''did:web:'' @ domain_str d @ lit '':employees:'' @ show_uuid (employee_uuid i),
           e_lifecycle = Draft,
           e_resources = map_of (map (\<lambda>x. (x, \<lparr>rs_state = Pending, rs_binding = None, rs_updated_at = tm\<rparr>)) step_all),
           e_created_at = tm, e_updated_at = tm\<rparr>)"

definition employee_hydrate ::
  "(ustr \<Rightarrow> url option) \<Rightarrow> (uuid \<Rightarrow> ustr) \<Rightarrow> employee_id \<Rightarrow> tenant_id \<Rightarrow> slug \<Rightarrow> domain \<Rightarrow> lifecycle \<Rightarrow>
   (step \<times> resource_status) list \<Rightarrow> timestamp \<Rightarrow> timestamp \<Rightarrow> employee option" where
  "employee_hydrate parse_url show_uuid i t s d l rows created updated =
     map_option (\<lambda>e. e\<lparr>e_lifecycle := l, e_updated_at := updated,
         e_resources := foldl (\<lambda>m (x, r). m(x \<mapsto> r)) (e_resources e) rows\<rparr>)
       (employee_new parse_url show_uuid i t s d created)"

definition resource :: "employee \<Rightarrow> step \<Rightarrow> resource_status option" where
  "resource e s = e_resources e s"

text \<open>The first dependency that is not ready; looking up a missing entry panics.\<close>

fun find_blocker :: "employee \<Rightarrow> step list \<Rightarrow> step option option" where
  "find_blocker e [] = Some None"
| "find_blocker e (d # ds) =
     (case resource e d of
        None \<Rightarrow> None
      | Some r \<Rightarrow> if \<not> rs_is_ready r then Some (Some d) else find_blocker e ds)"

definition set_resource ::
  "employee \<Rightarrow> step \<Rightarrow> resource_state \<Rightarrow> timestamp \<Rightarrow> (illegal_transition + employee) option" where
  "set_resource e s st tm =
     (case resource e s of
        None \<Rightarrow> None
      | Some current \<Rightarrow>
          if \<not> resource_can_move_to (rs_state current) st
          then Some (Inl (Illegal_State s (resource_state_str (rs_state current)) (resource_state_str st)))
          else case (if st = Ready then find_blocker e (depends_on s) else Some None) of
                 None \<Rightarrow> None
               | Some (Some blocker) \<Rightarrow> Some (Inl (DependencyNotReady s blocker))
               | Some None \<Rightarrow> Some (Inr (e\<lparr>e_resources := (e_resources e)(s \<mapsto>
                     current\<lparr>rs_state := st, rs_updated_at := tm\<rparr>), e_updated_at := tm\<rparr>)))"

definition bind_resource ::
  "employee \<Rightarrow> step \<Rightarrow> provider_binding \<Rightarrow> timestamp \<Rightarrow> (already_bound + employee) option" where
  "bind_resource e s b tm =
     (case resource e s of
        None \<Rightarrow> None
      | Some r \<Rightarrow>
          (case rs_binding r of
             Some old \<Rightarrow> Some (Inl \<lparr>ab_step = s, ab_provider = provider old, ab_external_id = external_id old\<rparr>)
           | None \<Rightarrow> Some (Inr (e\<lparr>e_resources := (e_resources e)(s \<mapsto>
                 r\<lparr>rs_binding := Some b, rs_updated_at := tm\<rparr>), e_updated_at := tm\<rparr>))))"

definition release_resource ::
  "employee \<Rightarrow> step \<Rightarrow> timestamp \<Rightarrow> (provider_binding option \<times> employee) option" where
  "release_resource e s tm =
     (case resource e s of
        None \<Rightarrow> None
      | Some r \<Rightarrow>
          (case rs_binding r of
             None \<Rightarrow> Some (None, e)
           | Some b \<Rightarrow> Some (Some b, e\<lparr>e_resources := (e_resources e)(s \<mapsto>
                 r\<lparr>rs_binding := None, rs_updated_at := tm\<rparr>), e_updated_at := tm\<rparr>)))"

definition set_lifecycle :: "employee \<Rightarrow> lifecycle \<Rightarrow> timestamp \<Rightarrow> illegal_lifecycle + employee" where
  "set_lifecycle e to tm =
     (if \<not> lifecycle_can_move_to (e_lifecycle e) to then Inl (IllegalLifecycle (e_lifecycle e) to)
      else Inr (e\<lparr>e_lifecycle := to, e_updated_at := tm\<rparr>))"

text \<open>\<open>any\<close> over a list whose test may panic, stopping at the first hit; \<open>all\<close> is its dual.\<close>

fun any_or_panic :: "('a \<Rightarrow> bool option) \<Rightarrow> 'a list \<Rightarrow> bool option" where
  "any_or_panic p [] = Some False"
| "any_or_panic p (x # xs) =
     (case p x of None \<Rightarrow> None | Some True \<Rightarrow> Some True | Some False \<Rightarrow> any_or_panic p xs)"

definition all_or_panic :: "('a \<Rightarrow> bool option) \<Rightarrow> 'a list \<Rightarrow> bool option" where
  "all_or_panic p xs = map_option Not (any_or_panic (\<lambda>x. map_option Not (p x)) xs)"

definition resource_is :: "employee \<Rightarrow> (resource_state \<Rightarrow> bool) \<Rightarrow> step \<Rightarrow> bool option" where
  "resource_is e p s = map_option (\<lambda>r. p (rs_state r)) (resource e s)"

definition resource_health :: "employee \<Rightarrow> health option" where
  "resource_health e =
     (let (blocking, optional) = partition is_blocking step_all in
      case any_or_panic (resource_is e (\<lambda>st. st = Failed)) blocking of
        None \<Rightarrow> None
      | Some True \<Rightarrow> Some Health_Failed
      | Some False \<Rightarrow>
          (case all_or_panic (resource_is e (\<lambda>st. st = Ready)) blocking of
             None \<Rightarrow> None
           | Some False \<Rightarrow> Some Health_Provisioning
           | Some True \<Rightarrow>
               (case any_or_panic (resource_is e (\<lambda>st. \<not> (st = Ready \<or> st = Disabled))) optional of
                  None \<Rightarrow> None
                | Some True \<Rightarrow> Some Health_Degraded
                | Some False \<Rightarrow> Some Health_Online)))"

definition employee_health :: "employee \<Rightarrow> health option" where
  "employee_health e = map_option (\<lambda>h.
     if h = Health_Online \<and> e_lifecycle e \<noteq> Active then Health_Degraded else h) (resource_health e)"

text \<open>The map iterates in the order of the steps, over the entries it has.\<close>

definition overdue :: "employee \<Rightarrow> timestamp \<Rightarrow> step list" where
  "overdue e tm = filter (\<lambda>s. case e_resources e s of
       None \<Rightarrow> False
     | Some r \<Rightarrow> (case rs_state r of PendingExternal _ expected_by \<Rightarrow> expected_by < tm | _ \<Rightarrow> False))
     step_all"

section \<open>The operations put together\<close>

datatype employee_op =
    SetResource step resource_state timestamp
  | Bind step provider_binding timestamp
  | Release step timestamp
  | SetLifecycle lifecycle timestamp

datatype employee_error =
    Illegal illegal_transition
  | Bound already_bound
  | LifecycleRefused illegal_lifecycle
  | Panic

definition or_panic :: "('x \<Rightarrow> employee_error) \<Rightarrow> ('x + 'a) option \<Rightarrow> employee_error + 'a" where
  "or_panic f r = (case r of None \<Rightarrow> Inl Panic | Some v \<Rightarrow> map_err f v)"

fun employee_apply :: "employee \<Rightarrow> employee_op \<Rightarrow> employee_error + employee" where
  "employee_apply e (SetResource s st tm) = or_panic Illegal (set_resource e s st tm)"
| "employee_apply e (Bind s b tm) = or_panic Bound (bind_resource e s b tm)"
| "employee_apply e (Release s tm) =
     (case release_resource e s tm of None \<Rightarrow> Inl Panic | Some (_, e') \<Rightarrow> Inr e')"
| "employee_apply e (SetLifecycle l tm) = map_err LifecycleRefused (set_lifecycle e l tm)"

definition lifecycle_step :: "lifecycle \<Rightarrow> lifecycle \<Rightarrow> lifecycle option" where
  "lifecycle_step s to = (if lifecycle_can_move_to s to then Some to else None)"

definition resource_step :: "resource_state \<Rightarrow> resource_state \<Rightarrow> resource_state option" where
  "resource_step s to = (if resource_can_move_to s to then Some to else None)"

text \<open>The map has an entry for every step.\<close>

definition resource_total :: "employee \<Rightarrow> bool" where
  "resource_total e \<longleftrightarrow> dom (e_resources e) = UNIV"

text \<open>The entry of a step, on a total map.\<close>

abbreviation entry :: "employee \<Rightarrow> step \<Rightarrow> resource_status" where
  "entry e s \<equiv> the (e_resources e s)"

section \<open>Lemmas\<close>

lemma set_step_all [simp]: "set step_all = UNIV"
proof -
  have "s \<in> set step_all" for s by (cases s) (simp_all add: step_all_def)
  then show ?thesis by blast
qed

lemma total_resource: "resource_total e \<Longrightarrow> resource e s = Some (entry e s)"
proof -
  assume "resource_total e"
  then have "s \<in> dom (e_resources e)" by (simp add: resource_total_def)
  then show "resource e s = Some (entry e s)" by (auto simp: resource_def)
qed

lemma total_update [simp]: "resource_total e \<Longrightarrow> resource_total (e\<lparr>e_resources := (e_resources e)(s \<mapsto> r), e_updated_at := tm\<rparr>)"
  by (simp add: resource_total_def)

lemma total_lifecycle [simp]: "resource_total e \<Longrightarrow> resource_total (e\<lparr>e_lifecycle := l, e_updated_at := tm\<rparr>)"
  by (simp add: resource_total_def)

lemma find_blocker_total:
  "resource_total e \<Longrightarrow> find_blocker e ds = Some (find (\<lambda>d. \<not> rs_is_ready (entry e d)) ds)"
  by (induction ds) (simp_all add: total_resource)

lemma any_or_panic_total:
  "resource_total e \<Longrightarrow> any_or_panic (resource_is e p) ss = Some (\<exists>s\<in>set ss. p (rs_state (entry e s)))"
  by (induction ss) (auto simp: resource_is_def total_resource split: bool.splits)

lemma all_or_panic_total:
  "resource_total e \<Longrightarrow> all_or_panic (resource_is e p) ss = Some (\<forall>s\<in>set ss. p (rs_state (entry e s)))"
proof -
  assume t: "resource_total e"
  have "(\<lambda>x. map_option Not (resource_is e p x)) = resource_is e (\<lambda>st. \<not> p st)"
    by (rule ext) (simp add: resource_is_def option.map_comp comp_def)
  with any_or_panic_total [OF t, of "\<lambda>st. \<not> p st" ss] show ?thesis by (simp add: all_or_panic_def)
qed

text \<open>What each operation does on a total map.\<close>

lemma set_resource_total:
  assumes "resource_total e"
  shows "set_resource e s st tm = Some
    (if \<not> resource_can_move_to (rs_state (entry e s)) st
     then Inl (Illegal_State s (resource_state_str (rs_state (entry e s))) (resource_state_str st))
     else case (if st = Ready then find (\<lambda>d. \<not> rs_is_ready (entry e d)) (depends_on s) else None) of
            Some blocker \<Rightarrow> Inl (DependencyNotReady s blocker)
          | None \<Rightarrow> Inr (e\<lparr>e_resources := (e_resources e)(s \<mapsto>
              (entry e s)\<lparr>rs_state := st, rs_updated_at := tm\<rparr>), e_updated_at := tm\<rparr>))"
  using assms by (simp add: set_resource_def total_resource find_blocker_total split: option.splits)

lemma employee_apply_cases:
  assumes "resource_total e" and "employee_apply e c = Inr e'"
  obtains s st tm where "c = SetResource s st tm" "resource_can_move_to (rs_state (entry e s)) st"
      "st = Ready \<Longrightarrow> \<forall>d\<in>set (depends_on s). rs_is_ready (entry e d)"
      "e' = e\<lparr>e_resources := (e_resources e)(s \<mapsto> (entry e s)\<lparr>rs_state := st, rs_updated_at := tm\<rparr>),
         e_updated_at := tm\<rparr>"
  | s b tm where "c = Bind s b tm" "rs_binding (entry e s) = None"
      "e' = e\<lparr>e_resources := (e_resources e)(s \<mapsto> (entry e s)\<lparr>rs_binding := Some b, rs_updated_at := tm\<rparr>),
         e_updated_at := tm\<rparr>"
  | s tm where "c = Release s tm" "rs_binding (entry e s) = None" "e' = e"
  | s tm where "c = Release s tm" "rs_binding (entry e s) \<noteq> None"
      "e' = e\<lparr>e_resources := (e_resources e)(s \<mapsto> (entry e s)\<lparr>rs_binding := None, rs_updated_at := tm\<rparr>),
         e_updated_at := tm\<rparr>"
  | l tm where "c = SetLifecycle l tm" "lifecycle_can_move_to (e_lifecycle e) l"
      "e' = e\<lparr>e_lifecycle := l, e_updated_at := tm\<rparr>"
proof (cases c)
  case (SetResource s st tm)
  with assms show thesis
    by (intro that(1) [of s st tm])
      (auto simp: or_panic_def set_resource_total find_None_iff split: if_splits option.splits)
next
  case (Bind s b tm)
  with assms show thesis
    by (intro that(2) [of s b tm])
      (auto simp: or_panic_def bind_resource_def total_resource split: option.splits)
next
  case (Release s tm)
  show thesis
  proof (cases "rs_binding (entry e s)")
    case None
    with Release assms show thesis
      by (intro that(3) [of s tm]) (auto simp: release_resource_def total_resource)
  next
    case (Some b)
    with Release assms show thesis
      by (intro that(4) [of s tm]) (auto simp: release_resource_def total_resource)
  qed
next
  case (SetLifecycle l tm)
  with assms show thesis
    by (intro that(5) [of l tm]) (auto simp: set_lifecycle_def split: if_splits)
qed

lemma employee_apply_total: "resource_total e \<Longrightarrow> employee_apply e c = Inr e' \<Longrightarrow> resource_total e'"
  by (rule employee_apply_cases [of e c e']) simp_all

lemma employee_apply_not_panic: "resource_total e \<Longrightarrow> employee_apply e c \<noteq> Inl Panic"
  by (cases c) (simp_all add: or_panic_def set_resource_total bind_resource_def release_resource_def
      set_lifecycle_def total_resource split: option.splits)

lemma lifecycle_can_move_refl [simp]: "lifecycle_can_move_to l l"
  by (simp add: lifecycle_can_move_to_def)

lemma resource_can_move_refl [simp]: "resource_can_move_to s s"
  by (simp add: resource_can_move_to_def)

interpretation lifecycle: object_machine lifecycle_step "\<lambda>l. l = Terminated" employee_apply e_lifecycle resource_total
proof (unfold_locales, goal_cases)
  case 1
  then show ?case by (auto simp: lifecycle_step_def lifecycle_can_move_to_def split: if_splits)
next
  case 2
  then show ?case by (rule employee_apply_total)
next
  case 3
  then show ?case by (rule employee_apply_cases) (auto simp: lifecycle_step_def)
qed

interpretation resources: object_machine resource_step "\<lambda>_. False" employee_apply
  "\<lambda>e. rs_state (entry e s)" resource_total for s
proof (unfold_locales, goal_cases)
  case 2
  then show ?case by (rule employee_apply_total)
next
  case 3
  then show ?case by (rule employee_apply_cases) (auto simp: resource_step_def)
qed simp

lemma employee_new_total: "employee_new parse_url show_uuid i t s d tm = Some e \<Longrightarrow> resource_total e"
proof -
  assume "employee_new parse_url show_uuid i t s d tm = Some e"
  then have "e_resources e =
      map_of (map (\<lambda>x. (x, \<lparr>rs_state = Pending, rs_binding = None, rs_updated_at = tm\<rparr>)) step_all)"
    by (simp add: employee_new_def split: sum.splits del: lit_simps) (clarsimp simp del: lit_simps)
  then show ?thesis by (simp add: resource_total_def dom_map_of_conv_image_fst image_image)
qed

lemma foldl_map_upd_dom: "dom (foldl (\<lambda>m (x, r). m(x \<mapsto> r)) m rows) = dom m \<union> fst ` set rows"
  by (induction rows arbitrary: m) auto

lemma employee_hydrate_resources:
  assumes "employee_hydrate parse_url show_uuid i t s d l rows c u = Some e"
  obtains e0 where "employee_new parse_url show_uuid i t s d c = Some e0"
    "e = e0\<lparr>e_lifecycle := l, e_updated_at := u,
       e_resources := foldl (\<lambda>m (x, r). m(x \<mapsto> r)) (e_resources e0) rows\<rparr>"
  using assms by (auto simp: employee_hydrate_def)

lemma employee_hydrate_total:
  assumes "employee_hydrate parse_url show_uuid i t s d l rows c u = Some e"
  shows "resource_total e"
proof (rule employee_hydrate_resources [OF assms])
  fix e0
  assume "employee_new parse_url show_uuid i t s d c = Some e0"
    and e: "e = e0\<lparr>e_lifecycle := l, e_updated_at := u,
       e_resources := foldl (\<lambda>m (x, r). m(x \<mapsto> r)) (e_resources e0) rows\<rparr>"
  then have "dom (e_resources e0) = UNIV" using employee_new_total by (simp add: resource_total_def)
  with e show ?thesis by (simp add: resource_total_def foldl_map_upd_dom del: dom_eq_empty_conv)
qed

text \<open>The releases of a step among a sequence of operations.\<close>

fun releases :: "step \<Rightarrow> employee_op \<Rightarrow> bool" where
  "releases s (Release s' _) = (s = s')"
| "releases s _ = False"

lemma employee_apply_keeps_binding:
  assumes "resource_total e" and "employee_apply e c = Inr e'" and "\<not> releases s c"
    and "rs_binding (entry e s) = Some b"
  shows "rs_binding (entry e' s) = Some b"
  using assms by (cases rule: employee_apply_cases [OF assms(1,2)]) auto

lemma resource_health_total:
  assumes "resource_total e"
  shows "resource_health e = Some
    (if \<exists>s. is_blocking s \<and> rs_state (entry e s) = Failed then Health_Failed
     else if \<exists>s. is_blocking s \<and> rs_state (entry e s) \<noteq> Ready then Health_Provisioning
     else if \<exists>s. \<not> is_blocking s \<and> \<not> (rs_state (entry e s) = Ready \<or> rs_state (entry e s) = Disabled)
     then Health_Degraded else Health_Online)"
proof -
  have "set (filter is_blocking step_all) = {s. is_blocking s}"
      "set (filter (Not \<circ> is_blocking) step_all) = {s. \<not> is_blocking s}" by auto
  then show ?thesis
    by (simp add: resource_health_def partition_filter_conv any_or_panic_total [OF assms]
        all_or_panic_total [OF assms] bool.case_eq_if) force
qed

section \<open>Properties\<close>

text \<open>C23. The resource map has no holes: a new or rehydrated employee has all eleven entries,
  whatever rows storage returned; every sequence of operations keeps them, and no operation after
  it can hit one of the \<open>expect\<close>s.\<close>

theorem employee_never_panics:
  assumes "employee_new parse_url show_uuid i t s d tm = Some e \<or>
    employee_hydrate parse_url show_uuid i t s d l rows c u = Some e"
  shows "resource_total (run employee_apply e ops) \<and>
    employee_apply (run employee_apply e ops) op \<noteq> Inl Panic \<and>
    employee_health (run employee_apply e ops) \<noteq> None"
proof -
  from assms have "resource_total e" using employee_new_total employee_hydrate_total by blast
  then have "resource_total (run employee_apply e ops)" by (rule lifecycle.run_inv)
  then show ?thesis using employee_apply_not_panic by (simp add: employee_health_def resource_health_total)
qed

text \<open>Only the transition tables move an employee: over any sequence of operations the
  lifecycle follows its table and each resource follows the resource table; a terminated employee
  stays terminated.\<close>

theorem employee_follows_tables:
  assumes "resource_total e"
  shows "reaches lifecycle_step (e_lifecycle e) (e_lifecycle (run employee_apply e ops)) \<and>
    (\<forall>s. reaches resource_step (rs_state (entry e s)) (rs_state (entry (run employee_apply e ops) s))) \<and>
    (e_lifecycle e = Terminated \<longrightarrow> e_lifecycle (run employee_apply e ops) = Terminated)"
  using lifecycle.run_reaches [OF assms] resources.run_reaches [OF assms] lifecycle.final_run [OF assms]
  by auto

text \<open>A provider binding is write-once: while no operation releases that step, no sequence of
  operations changes or clears its binding, and a second bind is refused with the existing one.\<close>

theorem binding_write_once:
  assumes "resource_total e" and "rs_binding (entry e s) = Some b" and "\<not> list_ex (releases s) ops"
  shows "rs_binding (entry (run employee_apply e ops) s) = Some b \<and>
    employee_apply (run employee_apply e ops) (Bind s b' tm) =
      Inl (Bound \<lparr>ab_step = s, ab_provider = provider b, ab_external_id = external_id b\<rparr>)"
proof -
  have "resource_total (run employee_apply e ops) \<and> rs_binding (entry (run employee_apply e ops) s) = Some b"
  proof (rule run_preserves [where P = "\<lambda>e. resource_total e \<and> rs_binding (entry e s) = Some b"])
    fix x c y
    assume "c \<in> set ops" and "resource_total x \<and> rs_binding (entry x s) = Some b"
      and "employee_apply x c = Inr y"
    with assms(3) show "resource_total y \<and> rs_binding (entry y s) = Some b"
      by (auto simp: list_ex_iff intro: employee_apply_total employee_apply_keeps_binding)
  qed (use assms in simp)
  then show ?thesis by (simp add: bind_resource_def total_resource or_panic_def)
qed

text \<open>A resource becomes ready exactly from the states the table permits and while everything
  it depends on is ready; an accepted call, to ready or to any other state, changes the state and the
  time stamp of that entry alone, and never its binding.\<close>

theorem set_resource_correct:
  assumes "resource_total e"
  shows "((\<exists>e'. set_resource e s Ready tm = Some (Inr e')) \<longleftrightarrow>
      (rs_state (entry e s) = Provisioning \<or> rs_state (entry e s) = Ready \<or>
       is_pending_external (rs_state (entry e s))) \<and>
      (\<forall>d\<in>set (depends_on s). rs_state (entry e d) = Ready)) \<and>
    (set_resource e s st tm = Some (Inr e') \<longrightarrow> (\<forall>s'. entry e' s' =
      (if s' = s then \<lparr>rs_state = st, rs_binding = rs_binding (entry e s), rs_updated_at = tm\<rparr> else entry e s')))"
proof (intro conjI impI allI)
  let ?can = "rs_state (entry e s) = Provisioning \<or> rs_state (entry e s) = Ready \<or>
       is_pending_external (rs_state (entry e s))"
  let ?deps = "\<forall>d\<in>set (depends_on s). rs_state (entry e d) = Ready"
  have can: "resource_can_move_to (rs_state (entry e s)) Ready \<longleftrightarrow> ?can"
    by (cases "rs_state (entry e s)") (simp_all add: resource_can_move_to_def is_pending_external_def)
  have deps: "find (\<lambda>d. \<not> rs_is_ready (entry e d)) (depends_on s) = None \<longleftrightarrow> ?deps"
    by (auto simp: find_None_iff rs_is_ready_def)
  show "(\<exists>e'. set_resource e s Ready tm = Some (Inr e')) \<longleftrightarrow> ?can \<and> ?deps"
    unfolding can [symmetric] deps [symmetric]
    by (cases "find (\<lambda>d. \<not> rs_is_ready (entry e d)) (depends_on s)") (simp_all add: set_resource_total [OF assms])
  fix s' assume "set_resource e s st tm = Some (Inr e')"
  then have "e' = e\<lparr>e_resources := (e_resources e)(s \<mapsto>
      (entry e s)\<lparr>rs_state := st, rs_updated_at := tm\<rparr>), e_updated_at := tm\<rparr>"
    by (simp add: set_resource_total [OF assms] split: if_splits option.splits)
  then show "entry e' s' = (if s' = s then
      \<lparr>rs_state = st, rs_binding = rs_binding (entry e s), rs_updated_at = tm\<rparr> else entry e s')"
    by (cases "entry e s") simp
qed

text \<open>Health is what the map says: online exactly when the employee is active, every blocking
  resource is ready and every other one ready or switched off; failed exactly when a blocking
  resource failed; and when online, everything a ready resource depends on is ready.\<close>

theorem health_meaning:
  assumes "resource_total e"
  shows "(employee_health e = Some Health_Online \<longleftrightarrow> e_lifecycle e = Active \<and>
      (\<forall>s. rs_state (entry e s) = Ready \<or> \<not> is_blocking s \<and> rs_state (entry e s) = Disabled)) \<and>
    (employee_health e = Some Health_Failed \<longleftrightarrow> (\<exists>s. is_blocking s \<and> rs_state (entry e s) = Failed)) \<and>
    (employee_health e = Some Health_Online \<longrightarrow> (\<forall>s. \<forall>d\<in>set (depends_on s). rs_state (entry e d) = Ready))"
proof (intro conjI)
  show on: "employee_health e = Some Health_Online \<longleftrightarrow> e_lifecycle e = Active \<and>
      (\<forall>s. rs_state (entry e s) = Ready \<or> \<not> is_blocking s \<and> rs_state (entry e s) = Disabled)"
    by (auto simp: employee_health_def resource_health_total [OF assms])
  show "employee_health e = Some Health_Failed \<longleftrightarrow> (\<exists>s. is_blocking s \<and> rs_state (entry e s) = Failed)"
    by (auto simp: employee_health_def resource_health_total [OF assms])
  have "\<forall>d\<in>set (depends_on s). is_blocking d" for s by (cases s) simp_all
  with on show "employee_health e = Some Health_Online \<longrightarrow>
      (\<forall>s. \<forall>d\<in>set (depends_on s). rs_state (entry e d) = Ready)" by blast
qed

text \<open>A new employee's address is its slug at its domain whenever the domain's text parses
  back to the domain; where it does not parse at all, as \<open>localhost.\<close> does not, creating the employee
  panics.\<close>

theorem employee_new_address:
  assumes "slug_ok s"
  shows "(domain_parse parse_url (domain_str d) = Inr d \<longrightarrow>
      (\<exists>e. employee_new parse_url show_uuid i t s d tm = Some e \<and>
        e_address e = \<lparr>local_part = slug_str s, email_domain = d\<rparr>)) \<and>
    (domain_parse parse_url (domain_str d) = Inl err \<longrightarrow> employee_new parse_url show_uuid i t s d tm = None)"
proof (intro conjI impI)
  assume "domain_parse parse_url (domain_str d) = Inr d"
  from email_of_slug [OF assms this] show "\<exists>e. employee_new parse_url show_uuid i t s d tm = Some e \<and>
        e_address e = \<lparr>local_part = slug_str s, email_domain = d\<rparr>"
    by (simp add: employee_new_def)
next
  assume "domain_parse parse_url (domain_str d) = Inl err"
  then have "\<exists>e. email_parse parse_url (slug_str s @ 64 # domain_str d) = Inl e"
    using email_of_slug_fails [OF assms] by blast
  then show "employee_new parse_url show_uuid i t s d tm = None" by (auto simp: employee_new_def)
qed

section \<open>A concrete employee\<close>

definition ada :: slug where
  "ada = Slug (lit ''ada'')"

definition sample_employee :: employee where
  "sample_employee = \<lparr>e_id = EmployeeId 7, e_tenant_id = TenantId 1, e_slug = ada,
     e_domain = Domain (lit ''acme.com''),
     e_address = \<lparr>local_part = lit ''ada'', email_domain = Domain (lit ''acme.com'')\<rparr>,
     e_did = lit ''did:web:'' @ lit ''acme.com'' @ lit '':employees:'' @ show_word (7 :: uuid),
     e_lifecycle = Draft,
     e_resources = map_of (map (\<lambda>x. (x, \<lparr>rs_state = Pending, rs_binding = None, rs_updated_at = 0\<rparr>)) step_all),
     e_created_at = 0, e_updated_at = 0\<rparr>"

lemma ada_ok: "slug_ok ada"
  by (simp add: ada_def slug_ok_def slug_char_def is_ascii_lower_def str_starts_with_def)

lemma sample_employee_new:
  "employee_new sample_parse_url show_word (EmployeeId 7) (TenantId 1) ada (Domain (lit ''acme.com'')) 0 =
     Some sample_employee"
  using email_of_slug [OF ada_ok acme_parses]
  by (simp add: employee_new_def sample_employee_def ada_def)

lemma sample_employee_total [simp]: "resource_total sample_employee"
  by (rule employee_new_total [OF sample_employee_new])

lemma sample_entry [simp]:
  "entry sample_employee s = \<lparr>rs_state = Pending, rs_binding = None, rs_updated_at = 0\<rparr>"
proof -
  have "map_of (map (\<lambda>x. (x, r)) step_all) s = Some r" for r :: resource_status
    by (simp add: map_of_map_restrict)
  then show ?thesis by (simp add: sample_employee_def del: lit_simps)
qed

theorem employee_never_panics_witness:
  "employee_apply (run employee_apply sample_employee
     [SetLifecycle Active 1, SetResource Step_Identity Provisioning 2, Bind Step_Phone \<lparr>provider = [], external_id = []\<rparr> 3])
     (SetResource Step_Identity Ready 4) \<noteq> Inl Panic"
  using employee_never_panics [OF disjI1, OF sample_employee_new] by blast

theorem employee_follows_tables_witness:
  "e_lifecycle (run employee_apply (sample_employee\<lparr>e_lifecycle := Terminated\<rparr>)
     [SetLifecycle Active 1, SetLifecycle Terminated 2]) = Terminated"
proof -
  have "resource_total (sample_employee\<lparr>e_lifecycle := Terminated\<rparr>)"
    using sample_employee_total by (simp add: resource_total_def)
  from employee_follows_tables [OF this] show ?thesis by (simp del: run.simps)
qed

theorem binding_write_once_witness:
  "\<exists>e. rs_binding (entry (run employee_apply e [SetResource Step_Phone Failed 2, Release Step_Wallet 3]) Step_Phone) =
     Some \<lparr>provider = lit ''p'', external_id = lit ''x''\<rparr>"
proof -
  let ?b = "\<lparr>provider = lit ''p'', external_id = lit ''x''\<rparr>"
  obtain e where e: "employee_apply sample_employee (Bind Step_Phone ?b 1) = Inr e"
    by (simp add: bind_resource_def total_resource or_panic_def del: lit_simps)
  then have "rs_binding (entry e Step_Phone) = Some ?b"
    by (auto simp: bind_resource_def total_resource or_panic_def simp del: lit_simps)
  from binding_write_once [OF employee_apply_total [OF sample_employee_total e] this,
      of "[SetResource Step_Phone Failed 2, Release Step_Wallet 3]"]
  show ?thesis by auto
qed

theorem set_resource_correct_witness:
  "\<not> (\<exists>e'. set_resource sample_employee Step_Email Ready 1 = Some (Inr e'))"
  using set_resource_correct [OF sample_employee_total, of Step_Email 1]
  by (simp add: is_pending_external_def)

theorem health_meaning_witness:
  "employee_health sample_employee \<noteq> Some Health_Online"
  using health_meaning [OF sample_employee_total] by simp

theorem employee_new_address_witness:
  "employee_new sample_parse_url show_word (EmployeeId 7) (TenantId 1) ada (Domain (lit ''localhost.'')) 0 = None"
proof -
  have "trim (lit ''localhost.'') = lit ''localhost.''" by (rule trim_no_ws) (simp add: is_whitespace_def)
  then have t: "trim_end_when (\<lambda>c. c = 46) (trim (lit ''localhost.'')) = lit ''localhost''"
    by (simp add: trim_end_when_def)
  have "\<not> list_ex (\<lambda>c. domain_forbidden c \<or> is_whitespace c \<or> c = 37) (lit ''localhost'')"
      "\<not> str_ends_with (lit ''localhost'') (lit ''%2E'')"
    by (simp_all add: domain_forbidden_def is_whitespace_def str_ends_with_def str_starts_with_def)
  then have "sample_parse_url (lit ''https://'' @ lit ''localhost'' @ lit ''/'') =
      Some \<lparr>url_scheme = lit ''https'', url_host = Some (Host_Domain (lit ''localhost'')),
        url_text = lit ''https://'' @ lit ''localhost'' @ lit ''/''\<rparr>"
    by (simp only: sample_parse_url_https Let_def if_False)
  moreover have "\<not> list_ex domain_forbidden (lit ''localhost'')" "lit ''localhost'' \<noteq> []" "46 \<notin> set (lit ''localhost'')"
    by (simp_all add: domain_forbidden_def)
  ultimately have "domain_parse sample_parse_url (lit ''localhost.'') = Inl (TooFewLabels (lit ''localhost''))"
    unfolding domain_parse_def t Let_def by (simp del: lit_simps)
  then have d: "domain_parse sample_parse_url (domain_str (Domain (lit ''localhost.''))) =
      Inl (TooFewLabels (lit ''localhost''))"
    by (simp del: lit_simps)
  then show ?thesis
    using employee_new_address [OF ada_ok, of sample_parse_url "Domain (lit ''localhost.'')"] by blast
qed

end
