(* ===== verification/Policy.thy ===== *)
theory Policy
  imports Action Contracts "HOL-Library.FSet"
begin

text \<open>
  \<open>crates/domain/src/policy.rs\<close>, the first half: model tiers, spend limits, policy limits
  and their intersection, the effective policy of four layers, and the rulings a policy
  gives outside \<open>evaluate\<close> (turn budget, lead upload, mailbox warmup, model tier). The order
  \<open>policy_le\<close> says field by field that one policy permits no more than another; the
  intersection is its meet, by the interpretation \<open>policy\<close> of \<open>narrowing\<close>.
\<close>

section \<open>Model tiers\<close>

datatype model_id = Haiku45 | Sonnet5 | Opus5 | Fable5

definition model_all :: "model_id list" where
  "model_all = [Haiku45, Sonnet5, Opus5, Fable5]"

fun model_tier :: "model_id \<Rightarrow> nat" where
  "model_tier Haiku45 = 0"
| "model_tier Sonnet5 = 1"
| "model_tier Opus5 = 2"
| "model_tier Fable5 = 3"

text \<open>The derived order of the enum is the order of its constructors.\<close>

instantiation model_id :: linorder
begin

definition less_eq_model_id :: "model_id \<Rightarrow> model_id \<Rightarrow> bool" where
  "less_eq_model_id a b \<longleftrightarrow> model_tier a \<le> model_tier b"

definition less_model_id :: "model_id \<Rightarrow> model_id \<Rightarrow> bool" where
  "less_model_id a b \<longleftrightarrow> model_tier a < model_tier b"

instance
proof
  fix a b :: model_id
  show "a \<le> b \<Longrightarrow> b \<le> a \<Longrightarrow> a = b"
    by (cases a; cases b) (simp_all add: less_eq_model_id_def)
qed (auto simp: less_eq_model_id_def less_model_id_def)

end

definition uncharted_model :: model_id where
  "uncharted_model = Haiku45"

fun model_str :: "model_id \<Rightarrow> ustr" where
  "model_str Haiku45 = lit ''claude-haiku-4-5''"
| "model_str Sonnet5 = lit ''claude-sonnet-5''"
| "model_str Opus5 = lit ''claude-opus-5''"
| "model_str Fable5 = lit ''claude-fable-5''"

definition model_parse :: "ustr \<Rightarrow> model_id option" where
  "model_parse raw = find (\<lambda>m. model_str m = raw) model_all"

definition at_most :: "model_id \<Rightarrow> model_id fset" where
  "at_most m = fset_of_list (filter (\<lambda>x. x \<le> m) model_all)"

section \<open>Spend limits\<close>

datatype policy_error =
    ApprovalAboveTransactionCap money money
  | TransactionAboveDailyCap money money
  | MixedCurrency currency currency

record spend_limits =
  max_per_transaction :: money
  max_per_day :: money
  approval_above :: money

definition spend_try_new :: "money \<Rightarrow> money \<Rightarrow> money \<Rightarrow> policy_error + spend_limits" where
  "spend_try_new per_tx per_day approval =
     (case find (\<lambda>other. currency other \<noteq> currency per_tx) [per_day, approval] of
        Some other \<Rightarrow> Inl (MixedCurrency (currency per_tx) (currency other))
      | None \<Rightarrow>
          if minor approval > minor per_tx then Inl (ApprovalAboveTransactionCap approval per_tx)
          else if minor per_tx > minor per_day then Inl (TransactionAboveDailyCap per_tx per_day)
          else Inr \<lparr>max_per_transaction = per_tx, max_per_day = per_day, approval_above = approval\<rparr>)"

definition spend_currency :: "spend_limits \<Rightarrow> currency" where
  "spend_currency s = currency (max_per_transaction s)"

definition min_money :: "money \<Rightarrow> money \<Rightarrow> money" where
  "min_money a b = (if minor a \<le> minor b then a else b)"

definition spend_intersect :: "spend_limits \<Rightarrow> spend_limits \<Rightarrow> policy_error + spend_limits" where
  "spend_intersect a b =
     (if spend_currency a \<noteq> spend_currency b
      then Inl (MixedCurrency (spend_currency a) (spend_currency b))
      else spend_try_new (min_money (max_per_transaction a) (max_per_transaction b))
             (min_money (max_per_day a) (max_per_day b))
             (min_money (approval_above a) (approval_above b)))"

section \<open>Policy limits\<close>

record policy_limits =
  spend :: "spend_limits option"
  allowed_channels :: "channel fset"
  allowed_calling_codes :: "calling_code fset"
  allowed_domains :: "domain fset"
  denied_domains :: "domain fset"
  allowed_mcp_tools :: "mcp_tool fset"
  allowed_a2a_peers :: "domain fset"
  allowed_models :: "model_id fset"
  max_new_contacts_per_day :: u32
  max_turns_per_day :: u32
  allow_file_upload :: bool
  allow_credential_change :: bool
  allow_data_delete :: bool
  allow_lead_upload :: bool
  untrusted_email_needs_approval :: bool

definition policy_default :: policy_limits where
  "policy_default = \<lparr>spend = None, allowed_channels = {||}, allowed_calling_codes = {||},
     allowed_domains = {||}, denied_domains = {||}, allowed_mcp_tools = {||},
     allowed_a2a_peers = {||}, allowed_models = {||}, max_new_contacts_per_day = 0,
     max_turns_per_day = 0, allow_file_upload = False, allow_credential_change = False,
     allow_data_delete = False, allow_lead_upload = False,
     untrusted_email_needs_approval = False\<rparr>"

definition intersect_spend ::
  "spend_limits option \<Rightarrow> spend_limits option \<Rightarrow> policy_error + spend_limits option" where
  "intersect_spend a b =
     (case (a, b) of (Some x, Some y) \<Rightarrow> rbind (spend_intersect x y) (\<lambda>s. Inr (Some s))
      | _ \<Rightarrow> Inr None)"

definition intersect :: "policy_limits \<Rightarrow> policy_limits \<Rightarrow> policy_error + policy_limits" where
  "intersect a b =
     rbind (intersect_spend (spend a) (spend b)) (\<lambda>sp.
       Inr \<lparr>spend = sp,
         allowed_channels = allowed_channels a |\<inter>| allowed_channels b,
         allowed_calling_codes = allowed_calling_codes a |\<inter>| allowed_calling_codes b,
         allowed_domains = allowed_domains a |\<inter>| allowed_domains b,
         denied_domains = denied_domains a |\<union>| denied_domains b,
         allowed_mcp_tools = allowed_mcp_tools a |\<inter>| allowed_mcp_tools b,
         allowed_a2a_peers = allowed_a2a_peers a |\<inter>| allowed_a2a_peers b,
         allowed_models = allowed_models a |\<inter>| allowed_models b,
         max_new_contacts_per_day = min (max_new_contacts_per_day a) (max_new_contacts_per_day b),
         max_turns_per_day = min (max_turns_per_day a) (max_turns_per_day b),
         allow_file_upload = (allow_file_upload a \<and> allow_file_upload b),
         allow_credential_change = (allow_credential_change a \<and> allow_credential_change b),
         allow_data_delete = (allow_data_delete a \<and> allow_data_delete b),
         allow_lead_upload = (allow_lead_upload a \<and> allow_lead_upload b),
         untrusted_email_needs_approval =
           (untrusted_email_needs_approval a \<or> untrusted_email_needs_approval b)\<rparr>)"

definition narrows :: "policy_limits \<Rightarrow> policy_limits \<Rightarrow> policy_error + bool" where
  "narrows self other = rbind (intersect other self) (\<lambda>l. Inr (l = self))"

datatype effective_policy = EffectivePolicy (limits: policy_limits)

definition effective_try_new ::
  "policy_limits \<Rightarrow> policy_limits \<Rightarrow> policy_limits \<Rightarrow> policy_limits \<Rightarrow> policy_error + effective_policy" where
  "effective_try_new platform tenant role employee =
     rbind (intersect platform tenant) (\<lambda>l1.
     rbind (intersect l1 role) (\<lambda>l2.
     rbind (intersect l2 employee) (\<lambda>l3.
     Inr (EffectivePolicy l3))))"

section \<open>Rulings outside evaluate\<close>

definition turns_remaining :: "effective_policy \<Rightarrow> u32 \<Rightarrow> u32" where
  "turns_remaining p turns_today = u_saturating_sub (max_turns_per_day (limits p)) turns_today"

definition may_upload_leads :: "effective_policy \<Rightarrow> bool" where
  "may_upload_leads p \<longleftrightarrow> allow_lead_upload (limits p)"

datatype deliverability = Unknown | Healthy | Unhealthy

definition max_refusals_per_mille :: u64 where
  "max_refusals_per_mille = 3"

definition measure_deliverability :: "u64 \<Rightarrow> u64 \<Rightarrow> bool \<Rightarrow> deliverability" where
  "measure_deliverability approaches refusals signal_confirmed =
     (if \<not> signal_confirmed \<or> approaches = 0 then Unknown
      else if u_saturating_mul refusals 1000 \<ge> u_saturating_mul approaches max_refusals_per_mille
      then Unhealthy
      else Healthy)"

definition warmup_floor :: u32 where
  "warmup_floor = 1"

definition warmup_steps :: "int \<Rightarrow> deliverability \<Rightarrow> u32" where
  "warmup_steps age_days measured =
     (case measured of
        Unknown \<Rightarrow> 0
      | Unhealthy \<Rightarrow> 0
      | Healthy \<Rightarrow> if age_days \<le> 0 then 0
                   else if age_days \<ge> 4294967295 then - 1
                   else word_of_int age_days)"

definition warmup_allowance :: "effective_policy \<Rightarrow> int \<Rightarrow> deliverability \<Rightarrow> u32" where
  "warmup_allowance p age_days measured =
     (let released = u_saturating_add warmup_floor (warmup_steps age_days measured);
          written = max_new_contacts_per_day (limits p)
      in if written < released then written else released)"

text \<open>A \<open>BTreeSet\<close> iterates in ascending order.\<close>

definition model_for :: "effective_policy option \<Rightarrow> model_id \<Rightarrow> model_id option" where
  "model_for policy preferred =
     (case policy of
        None \<Rightarrow> Some preferred
      | Some p \<Rightarrow>
          if preferred |\<in>| allowed_models (limits p) then Some preferred
          else (case sorted_list_of_fset (allowed_models (limits p)) of
                  [] \<Rightarrow> None | m # _ \<Rightarrow> Some m))"

section \<open>The narrowing order\<close>

text \<open>The values \<open>try_new\<close> accepts; the fields are private, so every value is one.\<close>

definition spend_ok :: "spend_limits \<Rightarrow> bool" where
  "spend_ok s \<longleftrightarrow> currency (max_per_day s) = spend_currency s \<and>
     currency (approval_above s) = spend_currency s \<and>
     minor (approval_above s) \<le> minor (max_per_transaction s) \<and>
     minor (max_per_transaction s) \<le> minor (max_per_day s)"

definition spend_le :: "spend_limits \<Rightarrow> spend_limits \<Rightarrow> bool" where
  "spend_le a b \<longleftrightarrow> spend_currency a = spend_currency b \<and>
     minor (max_per_transaction a) \<le> minor (max_per_transaction b) \<and>
     minor (max_per_day a) \<le> minor (max_per_day b) \<and>
     minor (approval_above a) \<le> minor (approval_above b)"

definition spend_opt_le :: "spend_limits option \<Rightarrow> spend_limits option \<Rightarrow> bool" where
  "spend_opt_le a b \<longleftrightarrow>
     (case a of None \<Rightarrow> True | Some x \<Rightarrow> (case b of None \<Rightarrow> False | Some y \<Rightarrow> spend_le x y))"

definition policy_ok :: "policy_limits \<Rightarrow> bool" where
  "policy_ok p \<longleftrightarrow> (case spend p of None \<Rightarrow> True | Some s \<Rightarrow> spend_ok s)"

text \<open>One policy permits no more than another, field by field.\<close>

definition policy_le :: "policy_limits \<Rightarrow> policy_limits \<Rightarrow> bool" where
  "policy_le a b \<longleftrightarrow>
     spend_opt_le (spend a) (spend b) \<and>
     allowed_channels a |\<subseteq>| allowed_channels b \<and>
     allowed_calling_codes a |\<subseteq>| allowed_calling_codes b \<and>
     allowed_domains a |\<subseteq>| allowed_domains b \<and>
     denied_domains b |\<subseteq>| denied_domains a \<and>
     allowed_mcp_tools a |\<subseteq>| allowed_mcp_tools b \<and>
     allowed_a2a_peers a |\<subseteq>| allowed_a2a_peers b \<and>
     allowed_models a |\<subseteq>| allowed_models b \<and>
     max_new_contacts_per_day a \<le> max_new_contacts_per_day b \<and>
     max_turns_per_day a \<le> max_turns_per_day b \<and>
     (allow_file_upload a \<longrightarrow> allow_file_upload b) \<and>
     (allow_credential_change a \<longrightarrow> allow_credential_change b) \<and>
     (allow_data_delete a \<longrightarrow> allow_data_delete b) \<and>
     (allow_lead_upload a \<longrightarrow> allow_lead_upload b) \<and>
     (untrusted_email_needs_approval b \<longrightarrow> untrusted_email_needs_approval a)"

lemma spend_try_new_Inr_iff:
  "spend_try_new t d a = Inr s \<longleftrightarrow>
     spend_ok s \<and> max_per_transaction s = t \<and> max_per_day s = d \<and> approval_above s = a"
  by (cases s) (auto simp: spend_try_new_def spend_ok_def spend_currency_def)

lemma min_money_currency:
  "currency a = c \<Longrightarrow> currency b = c \<Longrightarrow> currency (min_money a b) = c"
  by (simp add: min_money_def)

lemma min_money_minor [simp]: "minor (min_money a b) = min (minor a) (minor b)"
  by (simp add: min_money_def min_def)

lemma min_money_commute: "currency a = currency b \<Longrightarrow> min_money a b = min_money b a"
  by (cases a; cases b) (auto simp: min_money_def)

text \<open>Two written limits meet exactly when they are in one currency.\<close>

lemma spend_intersect_Inr_iff:
  assumes "spend_ok a" and "spend_ok b"
  shows "spend_intersect a b = Inr s \<longleftrightarrow> spend_currency a = spend_currency b \<and>
     s = \<lparr>max_per_transaction = min_money (max_per_transaction a) (max_per_transaction b),
          max_per_day = min_money (max_per_day a) (max_per_day b),
          approval_above = min_money (approval_above a) (approval_above b)\<rparr>"
proof -
  have "currency (min_money (max_per_day a) (max_per_day b)) = spend_currency a"
      "currency (min_money (approval_above a) (approval_above b)) = spend_currency a"
      "currency (min_money (max_per_transaction a) (max_per_transaction b)) = spend_currency a"
    if "spend_currency a = spend_currency b"
    using assms that by (auto simp: spend_ok_def min_money_currency spend_currency_def)
  with assms show ?thesis
    by (cases s) (auto simp: spend_intersect_def spend_try_new_Inr_iff spend_ok_def
        spend_currency_def min.coboundedI1 min.coboundedI2)
qed

lemma spend_intersect_Inl_iff:
  assumes "spend_ok a" and "spend_ok b"
  shows "spend_intersect a b = Inl e \<longleftrightarrow> spend_currency a \<noteq> spend_currency b \<and>
    e = MixedCurrency (spend_currency a) (spend_currency b)"
proof (cases "spend_currency a = spend_currency b")
  case True
  then obtain s where "spend_intersect a b = Inr s" using spend_intersect_Inr_iff [OF assms] by blast
  with True show ?thesis by simp
next
  case False
  then show ?thesis by (auto simp: spend_intersect_def)
qed

lemma spend_intersect_meet:
  assumes "spend_ok a" and "spend_ok b" and "spend_intersect a b = Inr s"
  shows "spend_ok s" and "spend_le s a" and "spend_le s b"
    and "\<And>x. spend_le x a \<Longrightarrow> spend_le x b \<Longrightarrow> spend_le x s" and "spend_intersect b a = Inr s"
proof -
  from assms have c: "spend_currency a = spend_currency b"
    and s: "s = \<lparr>max_per_transaction = min_money (max_per_transaction a) (max_per_transaction b),
          max_per_day = min_money (max_per_day a) (max_per_day b),
          approval_above = min_money (approval_above a) (approval_above b)\<rparr>"
    by (simp_all add: spend_intersect_Inr_iff)
  from assms(3) c show "spend_ok s" by (simp add: spend_intersect_def spend_try_new_Inr_iff)
  from c s have "spend_currency s = spend_currency a"
    by (simp add: spend_currency_def min_money_def)
  with c s show "spend_le s a" "spend_le s b"
      "\<And>x. spend_le x a \<Longrightarrow> spend_le x b \<Longrightarrow> spend_le x s"
    by (auto simp: spend_le_def)
  from assms(1,2) c s show "spend_intersect b a = Inr s"
    by (simp add: spend_intersect_Inr_iff)
      (simp add: spend_ok_def spend_currency_def min_money_commute)
qed

lemma spend_le_refl [simp]: "spend_le a a"
  by (simp add: spend_le_def)

lemma spend_le_trans: "spend_le a b \<Longrightarrow> spend_le b c \<Longrightarrow> spend_le a c"
  by (auto simp: spend_le_def)

lemma spend_le_antisym: "spend_ok a \<Longrightarrow> spend_ok b \<Longrightarrow> spend_le a b \<Longrightarrow> spend_le b a \<Longrightarrow> a = b"
  by (cases a; cases b) (auto simp: spend_ok_def spend_le_def spend_currency_def intro!: money.equality)

lemma intersect_Inr_iff:
  "intersect a b = Inr m \<longleftrightarrow>
     intersect_spend (spend a) (spend b) = Inr (spend m) \<and>
     allowed_channels m = allowed_channels a |\<inter>| allowed_channels b \<and>
     allowed_calling_codes m = allowed_calling_codes a |\<inter>| allowed_calling_codes b \<and>
     allowed_domains m = allowed_domains a |\<inter>| allowed_domains b \<and>
     denied_domains m = denied_domains a |\<union>| denied_domains b \<and>
     allowed_mcp_tools m = allowed_mcp_tools a |\<inter>| allowed_mcp_tools b \<and>
     allowed_a2a_peers m = allowed_a2a_peers a |\<inter>| allowed_a2a_peers b \<and>
     allowed_models m = allowed_models a |\<inter>| allowed_models b \<and>
     max_new_contacts_per_day m = min (max_new_contacts_per_day a) (max_new_contacts_per_day b) \<and>
     max_turns_per_day m = min (max_turns_per_day a) (max_turns_per_day b) \<and>
     allow_file_upload m = (allow_file_upload a \<and> allow_file_upload b) \<and>
     allow_credential_change m = (allow_credential_change a \<and> allow_credential_change b) \<and>
     allow_data_delete m = (allow_data_delete a \<and> allow_data_delete b) \<and>
     allow_lead_upload m = (allow_lead_upload a \<and> allow_lead_upload b) \<and>
     untrusted_email_needs_approval m =
       (untrusted_email_needs_approval a \<or> untrusted_email_needs_approval b)"
  by (cases m) (auto simp: intersect_def rbind_eq_Inr_iff)

lemma spend_opt_le_simps [simp]:
  "spend_opt_le None b"
  "\<not> spend_opt_le (Some x) None"
  "spend_opt_le (Some x) (Some y) \<longleftrightarrow> spend_le x y"
  by (simp_all add: spend_opt_le_def)

lemma spend_opt_le_None_iff [simp]: "spend_opt_le a None \<longleftrightarrow> a = None"
  by (cases a) simp_all

lemma spend_opt_le_SomeI: "a = None \<or> (\<exists>x. a = Some x \<and> spend_le x y) \<Longrightarrow> spend_opt_le a (Some y)"
  by auto

lemma intersect_spend_cases:
  assumes "intersect_spend a b = Inr s"
  obtains "s = None" "a = None \<or> b = None"
  | x y z where "a = Some x" "b = Some y" "s = Some z" "spend_intersect x y = Inr z"
  using assms by (cases a; cases b) (auto simp: intersect_spend_def rbind_eq_Inr_iff)

lemma intersect_spend_meet:
  assumes ok: "\<And>x. a = Some x \<Longrightarrow> spend_ok x" "\<And>x. b = Some x \<Longrightarrow> spend_ok x"
    and s: "intersect_spend a b = Inr s"
  shows "spend_opt_le s a \<and> spend_opt_le s b \<and> intersect_spend b a = Inr s \<and>
    (\<forall>x. spend_opt_le x a \<longrightarrow> spend_opt_le x b \<longrightarrow> spend_opt_le x s) \<and>
    (case s of None \<Rightarrow> True | Some x \<Rightarrow> spend_ok x)"
  using s
proof (cases rule: intersect_spend_cases)
  case 1
  then show ?thesis by (auto simp: intersect_spend_def split: option.splits)
next
  case (2 x y z)
  note m = spend_intersect_meet [OF ok(1) [OF 2(1)] ok(2) [OF 2(2)] 2(4)]
  have "spend_opt_le w (Some z)" if "spend_opt_le w (Some x)" "spend_opt_le w (Some y)" for w
    using that m(4) by (cases w) simp_all
  with 2 m(1-3,5) show ?thesis by (simp add: intersect_spend_def)
qed

lemma policy_okD: "policy_ok p \<Longrightarrow> spend p = Some s \<Longrightarrow> spend_ok s"
  by (simp add: policy_ok_def)

lemma intersect_meet:
  assumes ok: "policy_ok a" "policy_ok b" and m: "intersect a b = Inr m"
  shows "policy_ok m" "policy_le m a" "policy_le m b"
    "\<And>x. policy_le x a \<Longrightarrow> policy_le x b \<Longrightarrow> policy_le x m" "intersect b a = Inr m"
proof -
  note f = m [unfolded intersect_Inr_iff]
  note s = intersect_spend_meet [OF policy_okD [OF ok(1)] policy_okD [OF ok(2)] f [THEN conjunct1]]
  from s show "policy_ok m" by (simp add: policy_ok_def)
  from s f show "policy_le m a" by (simp add: policy_le_def)
  from s f show "policy_le m b" by (simp add: policy_le_def)
  from s f show "policy_le x m" if "policy_le x a" "policy_le x b" for x
    using that by (simp add: policy_le_def)
  from s f show "intersect b a = Inr m"
    by (simp add: intersect_Inr_iff inf_commute sup_commute min.commute conj_commute disj_commute)
qed

lemma spend_opt_le_refl [simp]: "spend_opt_le a a"
  by (cases a) simp_all

lemma spend_opt_le_trans: "spend_opt_le a b \<Longrightarrow> spend_opt_le b c \<Longrightarrow> spend_opt_le a c"
  by (cases a; cases b; cases c) (auto intro: spend_le_trans)

lemma policy_le_refl [simp]: "policy_le p p"
  by (simp add: policy_le_def)

lemma policy_le_trans: "policy_le a b \<Longrightarrow> policy_le b c \<Longrightarrow> policy_le a c"
  unfolding policy_le_def by (intro conjI) (elim conjE, blast intro: spend_opt_le_trans order_trans)+

lemma policy_le_antisym:
  assumes ok: "policy_ok a" "policy_ok b" and le: "policy_le a b" "policy_le b a"
  shows "a = b"
proof -
  have "spend_opt_le (spend a) (spend b)" "spend_opt_le (spend b) (spend a)"
    using le by (simp_all add: policy_le_def)
  then have "spend a = spend b"
  proof (cases "spend a")
    case (Some x)
    then obtain y where y: "spend b = Some y"
      using \<open>spend_opt_le (spend a) (spend b)\<close> by (cases "spend b") simp_all
    with Some le have "spend_le x y" "spend_le y x" by (simp_all add: policy_le_def)
    with policy_okD [OF ok(1) Some] policy_okD [OF ok(2) y] have "x = y" by (rule spend_le_antisym)
    with Some y show ?thesis by simp
  qed simp
  moreover note l = le [unfolded policy_le_def]
  have "allowed_channels a = allowed_channels b" "allowed_calling_codes a = allowed_calling_codes b"
      "allowed_domains a = allowed_domains b" "denied_domains a = denied_domains b"
      "allowed_mcp_tools a = allowed_mcp_tools b" "allowed_a2a_peers a = allowed_a2a_peers b"
      "allowed_models a = allowed_models b"
      "max_new_contacts_per_day a = max_new_contacts_per_day b"
      "max_turns_per_day a = max_turns_per_day b"
    by (rule order_antisym; use l in simp)+
  moreover have "allow_file_upload a = allow_file_upload b"
      "allow_credential_change a = allow_credential_change b"
      "allow_data_delete a = allow_data_delete b" "allow_lead_upload a = allow_lead_upload b"
      "untrusted_email_needs_approval a = untrusted_email_needs_approval b"
    by (rule iffI; use l in simp)+
  ultimately show ?thesis by (intro policy_limits.equality) simp_all
qed

lemma intersect_ok_of_le:
  assumes "policy_ok a" and "policy_ok b" and "policy_le a b"
  shows "is_ok (intersect a b)"
proof -
  have "\<exists>s. intersect_spend (spend a) (spend b) = Inr s"
  proof (cases "spend a")
    case None
    then show ?thesis by (simp add: intersect_spend_def)
  next
    case (Some x)
    with assms(3) obtain y where y: "spend b = Some y" "spend_currency x = spend_currency y"
      by (cases "spend b") (auto simp: policy_le_def spend_le_def)
    then obtain z where "spend_intersect x y = Inr z"
      using Some policy_okD [OF assms(1)] policy_okD [OF assms(2)] by (simp add: spend_intersect_Inr_iff)
    with Some y show ?thesis by (simp add: intersect_spend_def)
  qed
  then show ?thesis by (auto simp: intersect_def)
qed

interpretation policy: narrowing intersect policy_le policy_ok
proof (unfold_locales, goal_cases)
  case 1
  show ?case by simp
next
  case 2
  then show ?case by (rule policy_le_trans)
next
  case 3
  then show ?case by (rule policy_le_antisym)
next
  case 4
  then show ?case by (rule intersect_meet(1))
next
  case 5
  then show ?case using intersect_meet(2,3) by blast
next
  case 6
  then show ?case by (rule intersect_meet(4))
next
  case 7
  then show ?case by (rule intersect_ok_of_le)
next
  case 8
  then show ?case by (rule intersect_meet(5))
qed

lemma policy_ok_default [simp]: "policy_ok policy_default"
  by (simp add: policy_ok_def policy_default_def)

lemma effective_try_new_fold:
  "effective_try_new platform tenant role employee = Inr p \<longleftrightarrow>
     fold_meet intersect platform [tenant, role, employee] = Inr (limits p)"
  by (cases p) (auto simp: effective_try_new_def rbind_eq_Inr_iff)

lemma intersect_Inl_iff:
  assumes "policy_ok a" and "policy_ok b"
  shows "intersect a b = Inl e \<longleftrightarrow>
    (\<exists>x y. spend a = Some x \<and> spend b = Some y \<and> spend_currency x \<noteq> spend_currency y \<and>
      e = MixedCurrency (spend_currency x) (spend_currency y))"
proof (cases "spend a")
  case None
  then show ?thesis by (simp add: intersect_def intersect_spend_def)
next
  case (Some x)
  show ?thesis
  proof (cases "spend b")
    case None
    with Some show ?thesis by (simp add: intersect_def intersect_spend_def)
  next
    case y: (Some y)
    from spend_intersect_Inl_iff [OF policy_okD [OF assms(1) Some] policy_okD [OF assms(2) y]] Some y
    show ?thesis by (simp add: intersect_def intersect_spend_def rbind_eq_Inl_iff)
  qed
qed

section \<open>Properties\<close>

text \<open>C18. The effective policy of four layers permits no more than any of them, field by
  field, and is the most permissive policy of which that holds: nothing is lost either.\<close>

theorem effective_is_greatest_lower_bound:
  assumes "list_all policy_ok [platform, tenant, role, employee]"
    and "effective_try_new platform tenant role employee = Inr p"
  shows "policy_ok (limits p) \<and>
    (\<forall>l\<in>{platform, tenant, role, employee}. policy_le (limits p) l) \<and>
    (\<forall>x. (\<forall>l\<in>{platform, tenant, role, employee}. policy_le x l) \<longrightarrow> policy_le x (limits p))"
  using policy.fold_bounds [of platform "[tenant, role, employee]" "limits p"]
    policy.fold_greatest [of platform "[tenant, role, employee]" "limits p"] assms
  by (simp_all add: effective_try_new_fold)

text \<open>\<open>narrows\<close>, computed as \<open>other.intersect(self) == self\<close>, is the comparison field by
  field, and it is an error exactly when both policies write spend limits in different currencies.\<close>

theorem narrows_is_policy_le:
  assumes "policy_ok p" and "policy_ok q"
  shows "narrows p q = (case (spend p, spend q) of
      (Some x, Some y) \<Rightarrow> if spend_currency x = spend_currency y then Inr (policy_le p q)
        else Inl (MixedCurrency (spend_currency y) (spend_currency x))
    | _ \<Rightarrow> Inr (policy_le p q))"
proof -
  have "narrows p q = (case intersect q p of Inl e \<Rightarrow> Inl e | Inr _ \<Rightarrow> Inr (policy_le p q))"
    using policy.absorb_iff [OF assms] by (auto simp: narrows_def split: sum.splits)
  moreover note intersect_Inl_iff [OF assms(2,1)]
  ultimately show ?thesis
    by (cases "intersect q p") (fastforce split: option.splits)+
qed

text \<open>Reordering the layers never changes an effective policy that both orders accept.\<close>

theorem effective_order_irrelevant:
  assumes "list_all policy_ok [a, b, c, d]" and "set [a, b, c, d] = set [a', b', c', d']"
    and "effective_try_new a b c d = Inr p" and "effective_try_new a' b' c' d' = Inr p'"
  shows "p = p'"
proof -
  have "\<forall>x\<in>set [a, b, c, d]. policy_ok x" using assms(1) by simp
  then have "\<forall>x\<in>set [a', b', c', d']. policy_ok x" unfolding assms(2) .
  then have "limits p = limits p'"
    using assms by (intro policy.fold_permute [of a "[b, c, d]" a' "[b', c', d']"])
      (simp_all add: effective_try_new_fold)
  then show ?thesis by (rule effective_policy.expand)
qed

text \<open>The warmup ramp: the allowance is the smaller of the operator's written cap and one
  more than the age in days (one when the mailbox is not measured healthy), so it never exceeds the
  written cap, never passes a larger one early, and never wraps.\<close>

theorem warmup_allowance_value:
  "unat (warmup_allowance p age m) = min (unat (max_new_contacts_per_day (limits p)))
     (if m = Healthy then min (1 + nat age) (2 ^ 32 - 1) else 1)"
proof -
  have steps: "unat (warmup_steps age m) = (if m = Healthy then min (nat age) (2 ^ 32 - 1) else 0)"
  proof (cases "m = Healthy \<and> 0 < age \<and> age < 4294967295")
    case True
    then have "uint (word_of_int age :: u32) = age" by (simp add: uint_word_of_int_eq take_bit_int_eq_self)
    then have "unat (word_of_int age :: u32) = nat age" by (simp add: unat_eq_nat_uint)
    moreover from True have "min (nat age) 4294967295 = nat age" by (intro min.absorb1) linarith
    ultimately show ?thesis using True by (simp add: warmup_steps_def)
  next
    case False
    then show ?thesis
      by (cases m) (auto simp: warmup_steps_def unat_minus_1 split: if_splits)
  qed
  have "unat (warmup_allowance p age m) = min (unat (max_new_contacts_per_day (limits p)))
      (min (1 + unat (warmup_steps age m)) (2 ^ 32 - 1))"
    by (simp add: warmup_allowance_def Let_def word_less_nat_alt word_nat warmup_floor_def min_def)
  then show ?thesis by (simp add: steps min_def)
qed

text \<open>A mailbox is measured healthy exactly when the signal is confirmed, something was
  sent, and fewer than three in a thousand were refused; saturation can only answer unhealthy.\<close>

theorem measure_healthy_iff:
  "measure_deliverability a r s = Healthy \<longleftrightarrow>
     s \<and> a \<noteq> 0 \<and> 1000 * unat r < min (3 * unat a) (2 ^ 64 - 1)"
proof -
  have "u_saturating_mul a max_refusals_per_mille \<le> u_saturating_mul r 1000 \<longleftrightarrow>
      \<not> 1000 * unat r < min (3 * unat a) (2 ^ 64 - 1)"
    by (simp add: word_le_nat_alt word_nat max_refusals_per_mille_def) linarith
  then show ?thesis by (simp add: measure_deliverability_def)
qed

text \<open>The model a turn runs is permitted by the policy; the preference stands when it is
  permitted, otherwise it is the cheapest permitted one, and nothing runs only on an empty list.\<close>

theorem model_for_permitted:
  "case model_for (Some p) preferred of
     None \<Rightarrow> allowed_models (limits p) = {||}
   | Some m \<Rightarrow> m |\<in>| allowed_models (limits p) \<and>
       (if preferred |\<in>| allowed_models (limits p) then m = preferred
        else fBall (allowed_models (limits p)) (\<lambda>x. m \<le> x))"
proof (cases "sorted_list_of_fset (allowed_models (limits p))")
  case Nil
  have "fset_of_list (sorted_list_of_fset (allowed_models (limits p))) = allowed_models (limits p)"
    by (rule sorted_list_of_fset_simps(2))
  with Nil show ?thesis by (simp add: model_for_def)
next
  case (Cons m ms)
  have set: "set (m # ms) = fset (allowed_models (limits p))"
    using sorted_list_of_fset_simps(1) [of "allowed_models (limits p)"] by (simp add: Cons)
  have "sorted (m # ms)"
    using sorted_sorted_list_of_set by (simp flip: Cons add: sorted_list_of_fset.rep_eq)
  then have "\<forall>x\<in>set (m # ms). m \<le> x" by simp
  with set have "m |\<in>| allowed_models (limits p)" "fBall (allowed_models (limits p)) (\<lambda>x. m \<le> x)"
    by auto
  with Cons show ?thesis by (simp add: model_for_def)
qed

section \<open>A concrete deployment\<close>

text \<open>A platform that permits email and web in two calling codes with a budget in dollars, and
  a tenant that narrows it. The theorems with hypotheses are applied to it.\<close>

definition sample_spend :: "u64 \<Rightarrow> u64 \<Rightarrow> u64 \<Rightarrow> spend_limits" where
  "sample_spend per_tx per_day approval =
     \<lparr>max_per_transaction = \<lparr>minor = per_tx, currency = USD\<rparr>,
      max_per_day = \<lparr>minor = per_day, currency = USD\<rparr>,
      approval_above = \<lparr>minor = approval, currency = USD\<rparr>\<rparr>"

definition sample_platform :: policy_limits where
  "sample_platform = policy_default\<lparr>spend := Some (sample_spend 50000 200000 10000),
     allowed_channels := {|Email, Sms, Web|},
     allowed_calling_codes := {|CallingCode 1, CallingCode 33|},
     denied_domains := {|Domain (lit ''evil.com'')|},
     allowed_models := {|Sonnet5, Opus5|},
     max_new_contacts_per_day := 20, max_turns_per_day := 100, allow_data_delete := True\<rparr>"

definition sample_tenant :: policy_limits where
  "sample_tenant = sample_platform\<lparr>spend := Some (sample_spend 20000 100000 5000),
     allowed_channels := {|Email, Sms|}, max_new_contacts_per_day := 5,
     allow_data_delete := False\<rparr>"

lemma sample_spend_facts [simp]:
  "spend_currency (sample_spend a b c) = USD"
  "spend_ok (sample_spend 50000 200000 10000)" "spend_ok (sample_spend 20000 100000 5000)"
  "spend_le (sample_spend 20000 100000 5000) (sample_spend 50000 200000 10000)"
  by (simp_all add: sample_spend_def spend_ok_def spend_currency_def spend_le_def)

lemma sample_ok [simp]: "policy_ok sample_platform" "policy_ok sample_tenant"
  by (simp_all add: policy_ok_def sample_platform_def sample_tenant_def)

lemma sample_le: "policy_le sample_tenant sample_platform"
  by (simp add: policy_le_def sample_tenant_def sample_platform_def)

lemma sample_intersect [simp]:
  "intersect sample_platform sample_tenant = Inr sample_tenant"
  "intersect sample_tenant sample_tenant = Inr sample_tenant"
  "intersect sample_tenant sample_platform = Inr sample_tenant"
  "intersect sample_platform sample_platform = Inr sample_platform"
  using policy.absorb_iff [OF sample_ok(2,1)] policy.meet_idem [OF sample_ok(1)]
    policy.meet_idem [OF sample_ok(2)] policy.meet_absorb [OF sample_ok(2,1)] sample_le by simp_all

lemma sample_effective [simp]:
  "effective_try_new sample_platform sample_tenant sample_platform sample_tenant =
     Inr (EffectivePolicy sample_tenant)"
  "effective_try_new sample_tenant sample_platform sample_tenant sample_platform =
     Inr (EffectivePolicy sample_tenant)"
  "effective_try_new sample_platform sample_platform sample_platform sample_platform =
     Inr (EffectivePolicy sample_platform)"
  "effective_try_new sample_platform sample_platform sample_platform sample_tenant =
     Inr (EffectivePolicy sample_tenant)"
  by (simp_all add: effective_try_new_def)

theorem effective_is_greatest_lower_bound_witness:
  "policy_le sample_tenant sample_platform \<and> policy_ok sample_tenant"
  using effective_is_greatest_lower_bound
    [of sample_platform sample_tenant sample_platform sample_tenant "EffectivePolicy sample_tenant"]
  by simp

theorem narrows_is_policy_le_witness:
  "narrows sample_tenant sample_platform = Inr True \<and> narrows sample_platform sample_tenant \<noteq> Inr True"
proof -
  have "\<not> policy_le sample_platform sample_tenant"
    by (simp add: policy_le_def sample_tenant_def sample_platform_def)
  then show ?thesis
    using narrows_is_policy_le [of sample_tenant sample_platform] sample_le
      narrows_is_policy_le [of sample_platform sample_tenant]
    by (simp add: sample_tenant_def [THEN arg_cong [of _ _ spend]]
        sample_platform_def [THEN arg_cong [of _ _ spend]])
qed

theorem effective_order_irrelevant_witness:
  "effective_try_new sample_platform sample_tenant sample_platform sample_tenant =
   effective_try_new sample_tenant sample_platform sample_tenant sample_platform"
  using effective_order_irrelevant
    [of sample_platform sample_tenant sample_platform sample_tenant
        sample_tenant sample_platform sample_tenant sample_platform]
  by auto

theorem model_for_permitted_witness:
  "model_for (Some (EffectivePolicy sample_platform)) Haiku45 = Some Sonnet5"
proof (cases "model_for (Some (EffectivePolicy sample_platform)) Haiku45")
  have allowed: "allowed_models sample_platform = {|Sonnet5, Opus5|}" by (simp add: sample_platform_def)
  note m = model_for_permitted [of "EffectivePolicy sample_platform" Haiku45]
  {
    case None
    with m allowed show ?thesis by simp
  next
    case (Some x)
    with m allowed have "x = Sonnet5 \<or> x = Opus5" "x \<le> Sonnet5" by simp_all
    then have "x = Sonnet5" by (auto simp: less_eq_model_id_def)
    with Some show ?thesis by simp
  }
qed

end
