(* ===== verification/Gate.thy ===== *)
theory Gate
  imports Policy
begin

text \<open>
  \<open>crates/domain/src/policy.rs\<close>, the second half: the reasons a ruling carries, the rules,
  \<open>evaluate\<close> with its taint check, the rulings other callers ask for, and \<open>always_denies\<close>.
  The summary of an approval is the arguments of the \<open>format!\<close> that renders it. The
  lemmas show that a narrower policy never rules more permissively, what an \<open>Allow\<close>
  implies action by action, and that the shortcuts agree with the full evaluation.
\<close>

section \<open>Reasons and decisions\<close>

datatype deny_reason =
    NoRule | ChannelNotAllowed | CallingCodeNotAllowed | ContactBudgetExhausted
  | SendingDomainWarming | DomainDenied | DomainNotAllowed | FileUploadNotAllowed
  | ToolNotAllowed | PeerNotAllowed | NoSpendPolicy | Deny_CurrencyMismatch
  | PerTransactionLimit | DailyLimit | NoTeamBudget | TeamDailyLimit | CrossTenantSecret
  | SelfDirection | OutsideChainOfCommand | CredentialChangeNotAllowed
  | DataDeleteNotAllowed | UntrustedInput

fun deny_code :: "deny_reason \<Rightarrow> ustr" where
  "deny_code NoRule = lit ''no_rule''"
| "deny_code ChannelNotAllowed = lit ''channel_not_allowed''"
| "deny_code CallingCodeNotAllowed = lit ''calling_code_not_allowed''"
| "deny_code ContactBudgetExhausted = lit ''contact_budget_exhausted''"
| "deny_code SendingDomainWarming = lit ''sending_domain_warming''"
| "deny_code DomainDenied = lit ''domain_denied''"
| "deny_code DomainNotAllowed = lit ''domain_not_allowed''"
| "deny_code FileUploadNotAllowed = lit ''file_upload_not_allowed''"
| "deny_code ToolNotAllowed = lit ''tool_not_allowed''"
| "deny_code PeerNotAllowed = lit ''peer_not_allowed''"
| "deny_code NoSpendPolicy = lit ''no_spend_policy''"
| "deny_code Deny_CurrencyMismatch = lit ''currency_mismatch''"
| "deny_code PerTransactionLimit = lit ''per_transaction_limit''"
| "deny_code DailyLimit = lit ''daily_limit''"
| "deny_code NoTeamBudget = lit ''no_team_budget''"
| "deny_code TeamDailyLimit = lit ''team_daily_limit''"
| "deny_code CrossTenantSecret = lit ''cross_tenant_secret''"
| "deny_code SelfDirection = lit ''self_direction''"
| "deny_code OutsideChainOfCommand = lit ''outside_chain_of_command''"
| "deny_code CredentialChangeNotAllowed = lit ''credential_change_not_allowed''"
| "deny_code DataDeleteNotAllowed = lit ''data_delete_not_allowed''"
| "deny_code UntrustedInput = lit ''untrusted_input''"

fun grantable :: "deny_reason \<Rightarrow> bool" where
  "grantable NoRule = True"
| "grantable ChannelNotAllowed = True"
| "grantable CallingCodeNotAllowed = True"
| "grantable ContactBudgetExhausted = True"
| "grantable DomainNotAllowed = True"
| "grantable FileUploadNotAllowed = True"
| "grantable ToolNotAllowed = True"
| "grantable PeerNotAllowed = True"
| "grantable NoSpendPolicy = True"
| "grantable Deny_CurrencyMismatch = True"
| "grantable PerTransactionLimit = True"
| "grantable DailyLimit = True"
| "grantable NoTeamBudget = True"
| "grantable TeamDailyLimit = True"
| "grantable CredentialChangeNotAllowed = True"
| "grantable DataDeleteNotAllowed = True"
| "grantable DomainDenied = False"
| "grantable SendingDomainWarming = False"
| "grantable CrossTenantSecret = False"
| "grantable SelfDirection = False"
| "grantable OutsideChainOfCommand = False"
| "grantable UntrustedInput = False"

definition deny_all :: "deny_reason list" where
  "deny_all =
     [NoRule, ChannelNotAllowed, CallingCodeNotAllowed, ContactBudgetExhausted,
      SendingDomainWarming, DomainDenied, DomainNotAllowed, FileUploadNotAllowed,
      ToolNotAllowed, PeerNotAllowed, NoSpendPolicy, Deny_CurrencyMismatch,
      PerTransactionLimit, DailyLimit, NoTeamBudget, TeamDailyLimit, CrossTenantSecret,
      SelfDirection, OutsideChainOfCommand, CredentialChangeNotAllowed,
      DataDeleteNotAllowed, UntrustedInput]"

text \<open>The const block fills an array of 16 from the front; \<open>None\<close> is a failed assertion.\<close>

fun grantable_fill :: "deny_reason list \<Rightarrow> deny_reason list \<Rightarrow> nat \<Rightarrow> deny_reason list option" where
  "grantable_fill [] out n = (if n = 16 then Some out else None)"
| "grantable_fill (r # rs) out n =
     (if grantable r then if n < 16 then grantable_fill rs (out[n := r]) (n + 1) else None
      else grantable_fill rs out n)"

definition deny_grantable :: "deny_reason list option" where
  "deny_grantable = grantable_fill deny_all (replicate 16 NoRule) 0"

datatype approval_reason =
    PaymentAboveThreshold | ContractSignature | Approval_CredentialChange | BulkDataDelete
  | UntrustedEmail

fun approval_code :: "approval_reason \<Rightarrow> ustr" where
  "approval_code PaymentAboveThreshold = lit ''payment_above_threshold''"
| "approval_code ContractSignature = lit ''contract_signature''"
| "approval_code Approval_CredentialChange = lit ''credential_change''"
| "approval_code BulkDataDelete = lit ''bulk_data_delete''"
| "approval_code UntrustedEmail = lit ''untrusted_email''"

datatype summary =
    Summary_Email email_address
  | Summary_Pay money ustr
  | Summary_Sign ustr
  | Summary_Rotate ustr
  | Summary_Erase employee_id

datatype decision =
    Allow
  | Deny deny_reason
  | RequireApproval approval_reason summary

definition is_allow :: "decision \<Rightarrow> bool" where
  "is_allow d \<longleftrightarrow> (case d of Allow \<Rightarrow> True | Deny _ \<Rightarrow> False | RequireApproval _ _ \<Rightarrow> False)"

section \<open>Rules\<close>

definition no_match :: "bool \<Rightarrow> deny_reason \<Rightarrow> deny_reason" where
  "no_match list_is_empty specific = (if list_is_empty then NoRule else specific)"

definition mcp_rules :: "mcp_tool fset \<Rightarrow> mcp_tool \<Rightarrow> decision" where
  "mcp_rules allowed tool =
     (if tool |\<in>| allowed then Allow else Deny (no_match (allowed = {||}) ToolNotAllowed))"

definition evaluate_mcp_call :: "effective_policy \<Rightarrow> mcp_tool \<Rightarrow> decision" where
  "evaluate_mcp_call p tool = mcp_rules (allowed_mcp_tools (limits p)) tool"

definition is_denied :: "domain fset \<Rightarrow> domain \<Rightarrow> bool" where
  "is_denied denied host \<longleftrightarrow> fBex denied (\<lambda>entry. is_within host entry)"

definition domain_rules :: "domain fset \<Rightarrow> domain fset \<Rightarrow> domain \<Rightarrow> decision" where
  "domain_rules allowed denied host =
     (if is_denied denied host then Deny DomainDenied
      else if fBex allowed (\<lambda>entry. is_within host entry) then Allow
      else Deny (no_match (allowed = {||}) DomainNotAllowed))"

definition evaluate_browser_read :: "effective_policy \<Rightarrow> domain \<Rightarrow> decision" where
  "evaluate_browser_read p d =
     (let l = limits p in
      if is_denied (denied_domains l) d then Deny DomainDenied
      else if Web |\<in>| allowed_channels l then Allow
      else Deny (no_match (allowed_channels l = {||}) ChannelNotAllowed))"

fun spends_contact_budget :: "action \<Rightarrow> bool" where
  "spends_contact_budget (EmailSend _) = True"
| "spends_contact_budget (SmsSend _) = True"
| "spends_contact_budget (WhatsappSend _) = True"
| "spends_contact_budget (CallPlace _) = True"
| "spends_contact_budget (A2aSend _) = False"
| "spends_contact_budget (BrowserRead _) = False"
| "spends_contact_budget (BrowserWrite _) = False"
| "spends_contact_budget (FileUpload _) = False"
| "spends_contact_budget (McpCall _) = False"
| "spends_contact_budget (PaymentCreate _ _) = False"
| "spends_contact_budget (InvoiceIssue _) = False"
| "spends_contact_budget (QuoteIssue _) = False"
| "spends_contact_budget (ContractSign _) = False"
| "spends_contact_budget (CredentialChange _) = False"
| "spends_contact_budget (DataDelete _) = False"
| "spends_contact_budget (CharterSet _) = False"
| "spends_contact_budget (InternalSend _) = False"
| "spends_contact_budget AppointmentBook = False"

fun always_denies :: "effective_policy \<Rightarrow> action_kind \<Rightarrow> bool" where
  "always_denies p Kind_EmailSend = (Email |\<notin>| allowed_channels (limits p))"
| "always_denies p Kind_SmsSend =
     (Sms |\<notin>| allowed_channels (limits p) \<or> allowed_calling_codes (limits p) = {||})"
| "always_denies p Kind_WhatsappSend =
     (Whatsapp |\<notin>| allowed_channels (limits p) \<or> allowed_calling_codes (limits p) = {||})"
| "always_denies p Kind_CallPlace =
     (Voice |\<notin>| allowed_channels (limits p) \<or> allowed_calling_codes (limits p) = {||})"
| "always_denies p Kind_BrowserRead = (Web |\<notin>| allowed_channels (limits p))"
| "always_denies p Kind_BrowserWrite =
     (Web |\<notin>| allowed_channels (limits p) \<or> allowed_domains (limits p) = {||})"
| "always_denies p Kind_FileUpload =
     (allowed_domains (limits p) = {||} \<or> \<not> allow_file_upload (limits p))"
| "always_denies p Kind_McpCall = (allowed_mcp_tools (limits p) = {||})"
| "always_denies p Kind_A2aSend = (allowed_a2a_peers (limits p) = {||})"
| "always_denies p Kind_PaymentCreate = (spend (limits p) = None)"
| "always_denies p Kind_InvoiceIssue = (Email |\<notin>| allowed_channels (limits p))"
| "always_denies p Kind_QuoteIssue = (Email |\<notin>| allowed_channels (limits p))"
| "always_denies p Kind_ContractSign = False"
| "always_denies p Kind_CredentialChange = (\<not> allow_credential_change (limits p))"
| "always_denies p Kind_DataDelete = (\<not> allow_data_delete (limits p))"
| "always_denies p Kind_CharterSet = False"
| "always_denies p Kind_InternalSend = (Internal |\<notin>| allowed_channels (limits p))"
| "always_denies p Kind_AppointmentBook = (Internal |\<notin>| allowed_channels (limits p))"

section \<open>Evaluation\<close>

text \<open>The closures of \<open>evaluate_rules\<close>, over the limits and the context they capture.\<close>

definition channel_open :: "policy_limits \<Rightarrow> channel \<Rightarrow> deny_reason option" where
  "channel_open l c =
     (if c |\<in>| allowed_channels l then None
      else Some (no_match (allowed_channels l = {||}) ChannelNotAllowed))"

definition channel_rules :: "policy_limits \<Rightarrow> action_ctx \<Rightarrow> channel \<Rightarrow> deny_reason option" where
  "channel_rules l ctx c =
     (case channel_open l c of
        Some reason \<Rightarrow> Some reason
      | None \<Rightarrow>
          if contact ctx = New \<and> new_contacts_today ctx \<ge> max_new_contacts_per_day l
          then Some ContactBudgetExhausted
          else None)"

definition phone_rules :: "policy_limits \<Rightarrow> e164 \<Rightarrow> deny_reason option" where
  "phone_rules l to =
     (if fBex (allowed_calling_codes l) (\<lambda>c. e164_starts_with to c) then None
      else Some (no_match (allowed_calling_codes l = {||}) CallingCodeNotAllowed))"

definition or_else :: "'a option \<Rightarrow> 'a option \<Rightarrow> 'a option" where
  "or_else a b = (case a of None \<Rightarrow> b | Some x \<Rightarrow> Some x)"

definition deny_or_allow :: "deny_reason option \<Rightarrow> decision" where
  "deny_or_allow r = (case r of Some reason \<Rightarrow> Deny reason | None \<Rightarrow> Allow)"

definition payment_rules :: "policy_limits \<Rightarrow> action_ctx \<Rightarrow> money \<Rightarrow> ustr \<Rightarrow> decision" where
  "payment_rules l ctx amt payee =
     (case spend l of
        None \<Rightarrow> Deny NoSpendPolicy
      | Some s \<Rightarrow>
          if currency amt \<noteq> spend_currency s then Deny Deny_CurrencyMismatch
          else if minor amt > minor (max_per_transaction s) then Deny PerTransactionLimit
          else case (case spent_today ctx of
                       None \<Rightarrow> Inr amt
                     | Some spent \<Rightarrow>
                         if currency spent \<noteq> spend_currency s then Inl Deny_CurrencyMismatch
                         else map_err (\<lambda>_. DailyLimit) (checked_add spent amt)) of
                 Inl reason \<Rightarrow> Deny reason
               | Inr tot \<Rightarrow>
                   if minor tot > minor (max_per_day s) then Deny DailyLimit
                   else if minor amt \<ge> minor (approval_above s)
                   then RequireApproval PaymentAboveThreshold (Summary_Pay amt payee)
                   else Allow)"

fun evaluate_rules :: "effective_policy \<Rightarrow> action \<Rightarrow> action_ctx \<Rightarrow> decision" where
  "evaluate_rules p (EmailSend to) ctx =
     (if is_denied (denied_domains (limits p)) (email_domain to) then Deny DomainDenied
      else case channel_rules (limits p) ctx Email of
             Some reason \<Rightarrow> Deny reason
           | None \<Rightarrow>
               if untrusted_email_needs_approval (limits p) \<and> is_untrusted (trust ctx) \<and> read_outside ctx
               then RequireApproval UntrustedEmail (Summary_Email to)
               else Allow)"
| "evaluate_rules p (SmsSend to) ctx =
     deny_or_allow (or_else (channel_rules (limits p) ctx Sms) (phone_rules (limits p) to))"
| "evaluate_rules p (WhatsappSend to) ctx =
     deny_or_allow (or_else (channel_rules (limits p) ctx Whatsapp) (phone_rules (limits p) to))"
| "evaluate_rules p (CallPlace to) ctx =
     deny_or_allow (or_else (channel_rules (limits p) ctx Voice) (phone_rules (limits p) to))"
| "evaluate_rules p (BrowserRead d) ctx =
     (if is_denied (denied_domains (limits p)) d then Deny DomainDenied
      else deny_or_allow (channel_open (limits p) Web))"
| "evaluate_rules p (BrowserWrite d) ctx =
     (case channel_open (limits p) Web of
        Some reason \<Rightarrow> Deny reason
      | None \<Rightarrow> domain_rules (allowed_domains (limits p)) (denied_domains (limits p)) d)"
| "evaluate_rules p (FileUpload d) ctx =
     (case domain_rules (allowed_domains (limits p)) (denied_domains (limits p)) d of
        Allow \<Rightarrow> if allow_file_upload (limits p) then Allow else Deny FileUploadNotAllowed
      | refused \<Rightarrow> refused)"
| "evaluate_rules p (McpCall tool) ctx = mcp_rules (allowed_mcp_tools (limits p)) tool"
| "evaluate_rules p (A2aSend peer) ctx =
     (if is_denied (denied_domains (limits p)) peer then Deny DomainDenied
      else if fBex (allowed_a2a_peers (limits p)) (\<lambda>entry. is_within peer entry) then Allow
      else Deny (no_match (allowed_a2a_peers (limits p) = {||}) PeerNotAllowed))"
| "evaluate_rules p (PaymentCreate amt payee) ctx = payment_rules (limits p) ctx amt payee"
| "evaluate_rules p (InvoiceIssue _) ctx = deny_or_allow (channel_open (limits p) Email)"
| "evaluate_rules p (QuoteIssue _) ctx = deny_or_allow (channel_open (limits p) Email)"
| "evaluate_rules p (ContractSign title) ctx = RequireApproval ContractSignature (Summary_Sign title)"
| "evaluate_rules p (CredentialChange secret) ctx =
     (if sr_tenant secret \<noteq> actor_tenant_id (actor ctx) \<or>
         sr_employee secret \<noteq> actor_employee_id (actor ctx)
      then Deny CrossTenantSecret
      else if \<not> allow_credential_change (limits p) then Deny CredentialChangeNotAllowed
      else RequireApproval Approval_CredentialChange (Summary_Rotate (sr_name secret)))"
| "evaluate_rules p (DataDelete scope) ctx =
     (if \<not> allow_data_delete (limits p) then Deny DataDeleteNotAllowed
      else case scope of
             Conversation _ \<Rightarrow> Allow
           | AllForEmployee e \<Rightarrow> RequireApproval BulkDataDelete (Summary_Erase e))"
| "evaluate_rules p (CharterSet subordinate) ctx =
     (if subordinate = actor_employee_id (actor ctx) then Deny SelfDirection
      else if \<not> directs_subject ctx then Deny OutsideChainOfCommand
      else Allow)"
| "evaluate_rules p (InternalSend _) ctx =
     (if Internal |\<in>| allowed_channels (limits p) then Allow
      else Deny (no_match (allowed_channels (limits p) = {||}) ChannelNotAllowed))"
| "evaluate_rules p AppointmentBook ctx =
     (if Internal |\<in>| allowed_channels (limits p) then Allow
      else Deny (no_match (allowed_channels (limits p) = {||}) ChannelNotAllowed))"

definition is_deny :: "decision \<Rightarrow> bool" where
  "is_deny d \<longleftrightarrow> (case d of Deny _ \<Rightarrow> True | Allow \<Rightarrow> False | RequireApproval _ _ \<Rightarrow> False)"

definition evaluate :: "effective_policy \<Rightarrow> action \<Rightarrow> action_ctx \<Rightarrow> decision" where
  "evaluate p a ctx =
     (let decision = evaluate_rules p a ctx in
      if is_untrusted (trust ctx) \<and> is_high (action_risk a) \<and> \<not> is_deny decision
      then Deny UntrustedInput
      else decision)"

section \<open>Lemmas about the rules\<close>

text \<open>How permissive a decision is.\<close>

fun decision_rank :: "decision \<Rightarrow> nat" where
  "decision_rank (Deny _) = 0"
| "decision_rank (RequireApproval _ _) = 1"
| "decision_rank Allow = 2"

lemma is_deny_simps [simp]:
  "is_deny (Deny r)" "\<not> is_deny Allow" "\<not> is_deny (RequireApproval why what)"
  by (simp_all add: is_deny_def)

lemma is_deny_iff_rank: "is_deny d \<longleftrightarrow> decision_rank d = 0"
  by (cases d) simp_all

lemma or_else_None_iff [simp]: "or_else a b = None \<longleftrightarrow> a = None \<and> b = None"
  by (cases a) (simp_all add: or_else_def)

lemma deny_or_allow_Allow_iff [simp]: "deny_or_allow r = Allow \<longleftrightarrow> r = None"
  by (cases r) (simp_all add: deny_or_allow_def)

lemma deny_or_allow_simps [simp]:
  "deny_or_allow None = Allow" "deny_or_allow (Some r) = Deny r"
  by (simp_all add: deny_or_allow_def)

lemma deny_or_allow_mono:
  "(r = None \<Longrightarrow> r' = None) \<Longrightarrow> decision_rank (deny_or_allow r) \<le> decision_rank (deny_or_allow r')"
  by (cases r; cases r') auto

lemma channel_open_None_iff: "channel_open l c = None \<longleftrightarrow> c |\<in>| allowed_channels l"
  by (simp add: channel_open_def)

lemma channel_rules_None_iff:
  "channel_rules l ctx c = None \<longleftrightarrow> c |\<in>| allowed_channels l \<and>
     (contact ctx = New \<longrightarrow> new_contacts_today ctx < max_new_contacts_per_day l)"
  by (auto simp: channel_rules_def channel_open_def)

lemma phone_rules_None_iff:
  "phone_rules l to = None \<longleftrightarrow> (\<exists>c. c |\<in>| allowed_calling_codes l \<and> e164_starts_with to c)"
  by (auto simp: phone_rules_def)

lemma domain_rules_Allow_iff:
  "domain_rules allowed denied d = Allow \<longleftrightarrow>
     \<not> is_denied denied d \<and> (\<exists>x. x |\<in>| allowed \<and> is_within d x)"
  by (auto simp: domain_rules_def)

lemma domain_rules_binary: "domain_rules allowed denied d = Allow \<or> is_deny (domain_rules allowed denied d)"
  by (simp add: domain_rules_def)

lemma is_denied_mono: "x |\<subseteq>| y \<Longrightarrow> is_denied x d \<Longrightarrow> is_denied y d"
  by (auto simp: is_denied_def)

text \<open>The fields of a narrower policy, as the rules read them.\<close>

lemma policy_leD:
  assumes "policy_le a b"
  shows "c |\<in>| allowed_channels a \<Longrightarrow> c |\<in>| allowed_channels b"
    "cc |\<in>| allowed_calling_codes a \<Longrightarrow> cc |\<in>| allowed_calling_codes b"
    "d |\<in>| allowed_domains a \<Longrightarrow> d |\<in>| allowed_domains b"
    "is_denied (denied_domains b) d \<Longrightarrow> is_denied (denied_domains a) d"
    "t |\<in>| allowed_mcp_tools a \<Longrightarrow> t |\<in>| allowed_mcp_tools b"
    "d |\<in>| allowed_a2a_peers a \<Longrightarrow> d |\<in>| allowed_a2a_peers b"
    "n < max_new_contacts_per_day a \<Longrightarrow> n < max_new_contacts_per_day b"
    "allow_file_upload a \<Longrightarrow> allow_file_upload b"
    "allow_credential_change a \<Longrightarrow> allow_credential_change b"
    "allow_data_delete a \<Longrightarrow> allow_data_delete b"
    "untrusted_email_needs_approval b \<Longrightarrow> untrusted_email_needs_approval a"
    "spend_opt_le (spend a) (spend b)"
  using assms by (auto simp: policy_le_def less_le_trans intro: is_denied_mono)

lemma channel_open_mono: "policy_le a b \<Longrightarrow> channel_open a c = None \<Longrightarrow> channel_open b c = None"
  by (simp add: channel_open_None_iff policy_leD)

lemma channel_rules_mono:
  "policy_le a b \<Longrightarrow> channel_rules a ctx c = None \<Longrightarrow> channel_rules b ctx c = None"
  by (auto simp: channel_rules_None_iff dest: policy_leD)

lemma phone_rules_mono: "policy_le a b \<Longrightarrow> phone_rules a to = None \<Longrightarrow> phone_rules b to = None"
  by (auto simp: phone_rules_None_iff dest: policy_leD)

lemma domain_rules_mono:
  "policy_le a b \<Longrightarrow> domain_rules (allowed_domains a) (denied_domains a) d = Allow \<Longrightarrow>
     domain_rules (allowed_domains b) (denied_domains b) d = Allow"
  by (auto simp: domain_rules_Allow_iff dest: policy_leD)

lemmas rules_mono = channel_open_mono channel_rules_mono phone_rules_mono domain_rules_mono

text \<open>The money already spent plus this payment, when both are in the policy's currency.\<close>

definition payment_total :: "action_ctx \<Rightarrow> money \<Rightarrow> nat" where
  "payment_total ctx amt = (case spent_today ctx of None \<Rightarrow> 0 | Some s \<Rightarrow> unat (minor s)) + unat (minor amt)"

definition payment_in_caps :: "spend_limits \<Rightarrow> action_ctx \<Rightarrow> money \<Rightarrow> bool" where
  "payment_in_caps s ctx amt \<longleftrightarrow> currency amt = spend_currency s \<and>
     minor amt \<le> minor (max_per_transaction s) \<and>
     (case spent_today ctx of None \<Rightarrow> True | Some x \<Rightarrow> currency x = spend_currency s) \<and>
     payment_total ctx amt \<le> unat (minor (max_per_day s))"

lemma checked_add_value:
  assumes "money_ok b"
  shows "checked_add a b = (if currency a \<noteq> currency b then Inl (CurrencyMismatch (currency a) (currency b))
     else if 2 ^ 64 \<le> unat (minor a) + unat (minor b) then Inl Overflow
     else Inr \<lparr>minor = minor a + minor b, currency = currency a\<rparr>)"
proof -
  have "minor a + minor b \<noteq> 0" if "unat (minor a) + unat (minor b) < 2 ^ 64"
  proof -
    from that have "unat (minor a + minor b) = unat (minor a) + unat (minor b)"
      by (simp add: unat_word_ariths)
    moreover have "unat (minor b) \<noteq> 0" using assms by (simp add: money_ok_nat)
    ultimately show ?thesis by (metis add_is_0 unat_0)
  qed
  then show ?thesis
    by (simp add: checked_add_def same_currency_def u_checked_add_def money_new_def)
qed

text \<open>The whole payment rule, on amounts that are money.\<close>

lemma payment_rules_cases:
  assumes "money_ok amt"
  shows "payment_rules l ctx amt payee =
    (case spend l of
       None \<Rightarrow> Deny NoSpendPolicy
     | Some s \<Rightarrow>
         if payment_in_caps s ctx amt
         then if minor amt \<ge> minor (approval_above s)
              then RequireApproval PaymentAboveThreshold (Summary_Pay amt payee) else Allow
         else Deny (if currency amt \<noteq> spend_currency s then Deny_CurrencyMismatch
           else if minor amt > minor (max_per_transaction s) then PerTransactionLimit
           else case spent_today ctx of
                  None \<Rightarrow> DailyLimit
                | Some x \<Rightarrow> if currency x \<noteq> spend_currency s then Deny_CurrencyMismatch else DailyLimit))"
proof (cases "spend l")
  case None
  then show ?thesis by (simp add: payment_rules_def)
next
  case (Some s)
  show ?thesis
  proof (cases "spent_today ctx")
    case None
    with Some show ?thesis
      by (auto simp: payment_rules_def payment_in_caps_def payment_total_def word_le_nat_alt
          word_less_nat_alt)
  next
    case spent: (Some x)
    have big: "\<not> unat (minor x) + unat (minor amt) \<le> unat (minor (max_per_day s))"
      if "2 ^ 64 \<le> unat (minor x) + unat (minor amt)"
      using less_le_trans [OF unat_u64_less [of "minor (max_per_day s)"], of "unat (minor x) + unat (minor amt)"]
        that by (simp add: not_le)
    have small: "minor x + minor amt \<le> minor (max_per_day s) \<longleftrightarrow>
        unat (minor x) + unat (minor amt) \<le> unat (minor (max_per_day s))"
      if "unat (minor x) + unat (minor amt) < 2 ^ 64"
      using that by (simp add: word_le_nat_alt unat_word_ariths)
    show ?thesis
    proof (cases "2 ^ 64 \<le> unat (minor x) + unat (minor amt)")
      case True
      with big Some spent show ?thesis
        by (simp add: payment_rules_def payment_in_caps_def payment_total_def checked_add_value [OF assms])
    next
      case False
      with small Some spent show ?thesis
        by (simp add: payment_rules_def payment_in_caps_def payment_total_def
            checked_add_value [OF assms] not_less [symmetric])
    qed
  qed
qed

lemma payment_mono:
  assumes "money_ok amt" and "policy_le a b"
  shows "decision_rank (payment_rules a ctx amt payee) \<le> decision_rank (payment_rules b ctx amt payee)"
proof (cases "spend a")
  case None
  then show ?thesis by (simp add: payment_rules_def)
next
  case (Some s)
  with policy_leD(12) [OF assms(2)] obtain t where t: "spend b = Some t" "spend_le s t"
    by (cases "spend b") auto
  have "payment_in_caps t ctx amt" if "payment_in_caps s ctx amt"
    using that t(2) by (auto simp: payment_in_caps_def spend_le_def word_le_nat_alt split: option.splits)
  moreover have "\<not> minor (approval_above t) \<le> minor amt" if "\<not> minor (approval_above s) \<le> minor amt"
    using that t(2) by (auto simp: spend_le_def)
  ultimately show ?thesis
    using Some t(1) by (simp add: payment_rules_cases [OF assms(1)])
qed

text \<open>The amounts an action carries are money.\<close>

fun action_ok :: "action \<Rightarrow> bool" where
  "action_ok (PaymentCreate amt _) = money_ok amt"
| "action_ok (InvoiceIssue amt) = money_ok amt"
| "action_ok (QuoteIssue amt) = money_ok amt"
| "action_ok _ = True"

lemma evaluate_rules_mono:
  assumes "action_ok act" and le: "policy_le a b"
  shows "decision_rank (evaluate_rules (EffectivePolicy a) act ctx) \<le>
    decision_rank (evaluate_rules (EffectivePolicy b) act ctx)"
proof (cases act)
  case (EmailSend to)
  show ?thesis
    using policy_leD(4,11) [OF le] channel_rules_mono [OF le, of ctx Email]
    by (auto simp: EmailSend split: option.splits)
next
  case (FileUpload d)
  show ?thesis
    using domain_rules_mono [OF le, of d] policy_leD(8) [OF le]
      domain_rules_binary [of "allowed_domains a" "denied_domains a" d]
    by (cases "domain_rules (allowed_domains a) (denied_domains a) d") (auto simp: FileUpload)
next
  case (BrowserWrite d)
  show ?thesis
    using channel_open_mono [OF le, of Web] domain_rules_mono [OF le, of d]
      domain_rules_binary [of "allowed_domains a" "denied_domains a" d]
    by (auto simp: BrowserWrite is_deny_iff_rank split: option.splits)
next
  case (PaymentCreate amt payee)
  with assms payment_mono [of amt a b ctx payee] show ?thesis by simp
next
  case (BrowserRead d)
  show ?thesis
    using policy_leD(4) [OF le, of d] channel_open_mono [OF le, of Web]
    by (auto simp: BrowserRead intro!: deny_or_allow_mono)
next
  case (A2aSend d)
  show ?thesis using policy_leD(4) [OF le, of d] policy_leD(6) [OF le] by (auto simp: A2aSend)
next
  case (McpCall t)
  show ?thesis using policy_leD(5) [OF le, of t] by (simp add: McpCall mcp_rules_def)
next
  case (CredentialChange s)
  show ?thesis using policy_leD(9) [OF le] by (simp add: CredentialChange)
next
  case (DataDelete s)
  show ?thesis using policy_leD(10) [OF le] by (simp add: DataDelete)
next
  case (InternalSend s)
  show ?thesis using policy_leD(1) [OF le] by (simp add: InternalSend)
next
  case AppointmentBook
  show ?thesis using policy_leD(1) [OF le] by (simp add: AppointmentBook)
qed (use rules_mono [OF le] in \<open>auto intro!: deny_or_allow_mono\<close>)

lemma evaluate_rank:
  "decision_rank (evaluate p a ctx) =
     (if is_untrusted (trust ctx) \<and> is_high (action_risk a) then 0
      else decision_rank (evaluate_rules p a ctx))"
  by (simp add: evaluate_def Let_def is_deny_iff_rank)

text \<open>\<open>evaluate\<close> is a ruling over the narrowing order of policies; actions that carry no
  money are ruled as zero, which no decision ranks below.\<close>

definition ranked_evaluate :: "policy_limits \<Rightarrow> action \<times> action_ctx \<Rightarrow> nat" where
  "ranked_evaluate l q = (if action_ok (fst q)
     then decision_rank (evaluate (EffectivePolicy l) (fst q) (snd q)) else 0)"

interpretation gate: ordered_ruling intersect policy_le policy_ok ranked_evaluate "\<lambda>n. n"
proof
  fix a b :: policy_limits and q :: "action \<times> action_ctx"
  assume "policy_le a b"
  then show "ranked_evaluate a q \<le> ranked_evaluate b q"
    using evaluate_rules_mono [of "fst q" a b "snd q"] by (simp add: ranked_evaluate_def evaluate_rank)
qed

lemma ranked_evaluate_ok [simp]:
  "action_ok a \<Longrightarrow> ranked_evaluate l (a, ctx) = decision_rank (evaluate (EffectivePolicy l) a ctx)"
  by (simp add: ranked_evaluate_def)

text \<open>The host an action is addressed to, for the actions that reach one.\<close>

fun target_domain :: "action \<Rightarrow> domain option" where
  "target_domain (EmailSend e) = Some (email_domain e)"
| "target_domain (BrowserRead d) = Some d"
| "target_domain (BrowserWrite d) = Some d"
| "target_domain (FileUpload d) = Some d"
| "target_domain (A2aSend d) = Some d"
| "target_domain _ = None"

fun outreach_channel :: "action \<Rightarrow> channel option" where
  "outreach_channel (EmailSend _) = Some Email"
| "outreach_channel (SmsSend _) = Some Sms"
| "outreach_channel (WhatsappSend _) = Some Whatsapp"
| "outreach_channel (CallPlace _) = Some Voice"
| "outreach_channel _ = None"

fun target_phone :: "action \<Rightarrow> e164 option" where
  "target_phone (SmsSend n) = Some n"
| "target_phone (WhatsappSend n) = Some n"
| "target_phone (CallPlace n) = Some n"
| "target_phone _ = None"

lemma evaluate_not_deny:
  "\<not> is_deny (evaluate p a ctx) \<Longrightarrow> evaluate p a ctx = evaluate_rules p a ctx"
  by (auto simp: evaluate_def Let_def split: if_splits)

lemma evaluate_not_deny_iff:
  "\<not> is_deny (evaluate p a ctx) \<longleftrightarrow>
     \<not> is_deny (evaluate_rules p a ctx) \<and> \<not> (is_untrusted (trust ctx) \<and> is_high (action_risk a))"
  by (auto simp: evaluate_def Let_def)

lemma evaluate_eq_Allow_iff:
  "evaluate p a ctx = Allow \<longleftrightarrow>
     evaluate_rules p a ctx = Allow \<and> \<not> (is_untrusted (trust ctx) \<and> is_high (action_risk a))"
  by (auto simp: evaluate_def Let_def)

section \<open>Properties\<close>

text \<open>C4. No layer can be widened: the decision under the effective policy is never more
  permissive than the decision any one of the four layers gives alone (refuse, then ask, then allow).\<close>

theorem layer_bounds_decision:
  assumes "list_all policy_ok [platform, tenant, role, employee]" and "action_ok a"
    and "effective_try_new platform tenant role employee = Inr p"
    and "l \<in> set [platform, tenant, role, employee]"
  shows "decision_rank (evaluate p a ctx) \<le> decision_rank (evaluate (EffectivePolicy l) a ctx)"
  using gate.fold_rank [of platform "[tenant, role, employee]" "limits p" l "(a, ctx)"] assms
  by (simp add: effective_try_new_fold)

text \<open>Replacing one layer by a layer that narrows it never makes any decision more permissive.\<close>

theorem narrowing_a_layer_is_safe:
  assumes "list_all policy_ok [platform, tenant, role, employee, employee']" and "action_ok a"
    and "narrows employee' employee = Inr True"
    and "effective_try_new platform tenant role employee = Inr p"
    and "effective_try_new platform tenant role employee' = Inr p'"
  shows "decision_rank (evaluate p' a ctx) \<le> decision_rank (evaluate p a ctx)"
proof -
  have ok: "policy_ok platform" "list_all policy_ok [tenant, role, employee]"
      "list_all policy_ok [tenant, role, employee']" "policy_ok employee" "policy_ok employee'"
    using assms(1) by simp_all
  have le: "policy_le employee' employee"
    using assms(3) policy.absorb_iff [OF ok(5,4)] by (auto simp: narrows_def rbind_eq_Inr_iff)
  note b' = policy.fold_bounds [OF ok(1,3) assms(5) [unfolded effective_try_new_fold]]
  note fold = assms(4) [unfolded effective_try_new_fold]
  from b' policy_le_trans [OF _ le] have "policy_le (limits p') (limits p)"
    by (intro policy.fold_greatest [OF ok(1,2) fold]) simp_all
  moreover from b' policy.fold_bounds [OF ok(1,2) fold] have "policy_ok (limits p')" "policy_ok (limits p)"
    by blast+
  ultimately show ?thesis
    using gate.rule_mono [of "limits p'" "limits p" "(a, ctx)"] assms(2) by simp
qed

text \<open>C7. A shortcut refusal is a real one: when \<open>always_denies\<close> says a kind of action is
  closed, \<open>evaluate\<close> refuses every action of that kind in every context.\<close>

theorem always_denies_sound:
  assumes "always_denies p (kind a)"
  shows "is_deny (evaluate p a ctx)"
proof -
  have "is_deny (evaluate_rules p a ctx)"
    using assms
    by (cases a) (auto simp: is_deny_def channel_open_def channel_rules_def phone_rules_def
        deny_or_allow_def or_else_def domain_rules_def mcp_rules_def payment_rules_def)
  then show ?thesis by (simp add: evaluate_def)
qed


text \<open>C5. A payment goes through unattended exactly when the input is trusted, a spend policy in
  its currency is written, the payment is within the transaction cap, what is already spent today
  plus the payment is within the daily cap as a number (no wrap-around), and it is below the
  approval threshold.\<close>

theorem payment_allowed_iff:
  assumes "money_ok amt"
  shows "evaluate p (PaymentCreate amt payee) ctx = Allow \<longleftrightarrow>
    \<not> is_untrusted (trust ctx) \<and>
    (\<exists>s. spend (limits p) = Some s \<and> payment_in_caps s ctx amt \<and> minor amt < minor (approval_above s))"
  by (auto simp: evaluate_eq_Allow_iff payment_rules_cases [OF assms] split: option.splits if_splits)

text \<open>Whatever is asked of a human about a payment already satisfies every cap: approval
  replaces the threshold, never a limit.\<close>

theorem payment_not_denied_in_caps:
  assumes "money_ok amt" and "\<not> is_deny (evaluate p (PaymentCreate amt payee) ctx)"
  shows "\<exists>s. spend (limits p) = Some s \<and> payment_in_caps s ctx amt"
  using assms(2)
  by (auto simp: evaluate_not_deny_iff payment_rules_cases [OF assms(1)] split: option.splits if_splits)

text \<open>C19. The denylist wins: an action addressed to a denied host, or to any host below one, is
  refused whatever the allowlists, the context and the order of the rules.\<close>

theorem denylist_wins:
  assumes "target_domain a = Some d" and "is_within d e" and "e |\<in>| denied_domains (limits p)"
  shows "is_deny (evaluate p a ctx)"
proof -
  have "is_denied (denied_domains (limits p)) d" using assms by (auto simp: is_denied_def)
  with assms(1) have "is_deny (evaluate_rules p a ctx)"
    by (cases a) (auto simp: domain_rules_def channel_open_def)
  then show ?thesis by (simp add: evaluate_def)
qed

text \<open>A message to a counterparty that is not refused leaves on an allowed channel, to a
  stranger only within the daily budget, and to a phone only under an allowed calling code.\<close>

theorem outreach_not_denied:
  assumes "outreach_channel a = Some c" and "\<not> is_deny (evaluate p a ctx)"
  shows "c |\<in>| allowed_channels (limits p) \<and>
    (contact ctx = New \<longrightarrow> new_contacts_today ctx < max_new_contacts_per_day (limits p)) \<and>
    (\<forall>n. target_phone a = Some n \<longrightarrow>
      (\<exists>k. k |\<in>| allowed_calling_codes (limits p) \<and> e164_starts_with n k))"
proof -
  have deny: "is_deny (deny_or_allow r) \<longleftrightarrow> r \<noteq> None" for r by (cases r) simp_all
  from assms(2) have "\<not> is_deny (evaluate_rules p a ctx)" by (simp add: evaluate_not_deny_iff)
  with assms(1) show ?thesis
    by (cases a) (auto simp: deny channel_rules_None_iff [symmetric] phone_rules_None_iff [symmetric]
        split: if_splits option.splits)
qed

text \<open>Under the empty policy every action is refused except two: on trusted input, signing
  a contract is put to a human, and a charter for another employee the actor directs is allowed.\<close>

theorem empty_policy_decisions:
  "\<not> is_deny (evaluate (EffectivePolicy policy_default) a ctx) \<longleftrightarrow>
     trust ctx = Trusted \<and>
     ((\<exists>t. a = ContractSign t) \<or>
      (\<exists>e. a = CharterSet e \<and> e \<noteq> actor_employee_id (actor ctx) \<and> directs_subject ctx))"
proof -
  have empty: "spend policy_default = None" "allowed_channels policy_default = {||}"
      "allowed_domains policy_default = {||}" "allowed_mcp_tools policy_default = {||}"
      "allowed_a2a_peers policy_default = {||}" "\<not> allow_credential_change policy_default"
      "\<not> allow_data_delete policy_default"
    by (simp_all add: policy_default_def)
  have [simp]: "channel_open policy_default c = Some NoRule"
      "channel_rules policy_default ctx c = Some NoRule" for c
    by (simp_all add: channel_open_def channel_rules_def no_match_def empty)
  have t: "trust ctx = Trusted \<longleftrightarrow> \<not> is_untrusted (trust ctx)" by (cases "trust ctx") simp_all
  have rules: "is_deny (evaluate_rules (EffectivePolicy policy_default) a ctx) \<longleftrightarrow>
      \<not> ((\<exists>t. a = ContractSign t) \<or>
         (\<exists>e. a = CharterSet e \<and> e \<noteq> actor_employee_id (actor ctx) \<and> directs_subject ctx))"
    by (cases a) (simp_all add: empty or_else_def mcp_rules_def no_match_def domain_rules_def
        payment_rules_def is_denied_def)
  show ?thesis
    by (auto simp: evaluate_not_deny_iff rules t)
qed

text \<open>The two rulings other callers ask for without an action at hand agree with
  \<open>evaluate\<close> on the action they stand for, in every context.\<close>

theorem shortcut_rulings_agree:
  "evaluate_browser_read p d = evaluate p (BrowserRead d) ctx \<and>
   evaluate_mcp_call p t = evaluate p (McpCall t) ctx"
  by (simp add: evaluate_browser_read_def evaluate_mcp_call_def evaluate_def Let_def
      channel_open_def)

text \<open>A human is asked only for the five written reasons, and three actions are never
  carried out unattended: signing a contract, changing a credential, erasing an employee.\<close>

theorem approval_reasons:
  "(case evaluate p a ctx of
      RequireApproval why what \<Rightarrow>
        (case why of
           PaymentAboveThreshold \<Rightarrow> \<exists>amt payee. a = PaymentCreate amt payee \<and> what = Summary_Pay amt payee
         | ContractSignature \<Rightarrow> \<exists>t. a = ContractSign t \<and> what = Summary_Sign t
         | Approval_CredentialChange \<Rightarrow> \<exists>r. a = CredentialChange r \<and> what = Summary_Rotate (sr_name r) \<and>
             sr_tenant r = actor_tenant_id (actor ctx) \<and> sr_employee r = actor_employee_id (actor ctx)
         | BulkDataDelete \<Rightarrow> \<exists>e. a = DataDelete (AllForEmployee e) \<and> what = Summary_Erase e
         | UntrustedEmail \<Rightarrow> \<exists>to. a = EmailSend to \<and> what = Summary_Email to \<and>
             is_untrusted (trust ctx) \<and> read_outside ctx)
    | Allow \<Rightarrow> kind a \<noteq> Kind_ContractSign \<and> kind a \<noteq> Kind_CredentialChange \<and>
        (\<forall>e. a \<noteq> DataDelete (AllForEmployee e))
    | Deny _ \<Rightarrow> True)"
proof (cases "is_deny (evaluate p a ctx)")
  case True
  then show ?thesis by (cases "evaluate p a ctx") simp_all
next
  case False
  then have "evaluate p a ctx = evaluate_rules p a ctx" by (rule evaluate_not_deny)
  then show ?thesis
    by (cases a) (simp_all add: deny_or_allow_def mcp_rules_def domain_rules_def payment_rules_def
        split: option.splits sum.splits data_scope.splits)
qed

text \<open>The lists of refusal reasons are complete: \<open>ALL\<close> names each reason once, no two
  share a wire code, and the const block that fills \<open>GRANTABLE\<close> succeeds with exactly the
  grantable reasons, in the order of \<open>ALL\<close>.\<close>

theorem deny_reason_lists:
  "set deny_all = UNIV \<and> distinct deny_all \<and> inj deny_code \<and>
   deny_grantable = Some (filter grantable deny_all)"
proof (intro conjI)
  have mem: "r \<in> set deny_all" for r by (cases r) (simp_all add: deny_all_def)
  then show "set deny_all = UNIV" by blast
  show "distinct deny_all" by (simp add: deny_all_def)
  have "distinct (map deny_code deny_all)" by (simp add: deny_all_def)
  then have "inj_on deny_code (set deny_all)" by (simp add: distinct_map)
  then show "inj deny_code" using mem by (simp add: inj_on_def)
  show "deny_grantable = Some (filter grantable deny_all)"
    by (simp add: deny_grantable_def deny_all_def numeral_eq_Suc)
qed

text \<open>A context nobody filled in is the least permissive one among those whose stranger
  budget is untouched: filling in trust, standing, spend and authority can only permit more.\<close>

theorem action_ctx_new_safest:
  assumes "contact ctx = Known \<or> new_contacts_today ctx = 0"
  shows "decision_rank (evaluate p a (action_ctx_new (actor ctx) t)) \<le> decision_rank (evaluate p a ctx)"
proof (cases "is_high (action_risk a)")
  case True
  then show ?thesis by (simp add: evaluate_rank action_ctx_new_def)
next
  case False
  let ?c = "action_ctx_new (actor ctx) t"
  have new: "contact ?c = New" "new_contacts_today ?c = 0" by (simp_all add: action_ctx_new_def)
  have "channel_rules l ctx c = None" if "channel_rules l ?c c = None" for l c
    using that assms by (auto simp: channel_rules_None_iff new)
  then have "decision_rank (evaluate_rules p a ?c) \<le> decision_rank (evaluate_rules p a ctx)"
    using False
    by (cases a) (auto intro!: deny_or_allow_mono simp: action_ctx_new_def split: option.splits)
  with False show ?thesis by (simp add: evaluate_rank)
qed

section \<open>The concrete deployment, ruled\<close>

definition sample_actor :: actor where
  "sample_actor = \<lparr>actor_tenant_id = TenantId 1, actor_employee_id = EmployeeId 7\<rparr>"

definition sample_ctx :: action_ctx where
  "sample_ctx = \<lparr>actor = sample_actor, trust = Trusted, read_outside = False, contact = New,
     spent_today = Some \<lparr>minor = 90000, currency = USD\<rparr>, new_contacts_today = 3,
     directs_subject = True, now = 0\<rparr>"

definition sample_payment :: "u64 \<Rightarrow> action" where
  "sample_payment m = PaymentCreate \<lparr>minor = m, currency = USD\<rparr> (lit ''acme'')"

lemma sample_spend_limit:
  "spend sample_tenant = Some (sample_spend 20000 100000 5000)"
  "spend sample_platform = Some (sample_spend 50000 200000 10000)"
  by (simp_all add: sample_tenant_def sample_platform_def)

lemma sample_payment_ok [simp]: "m \<noteq> 0 \<Longrightarrow> action_ok (sample_payment m)"
  by (simp add: sample_payment_def money_ok_def)

theorem layer_bounds_decision_witness:
  "decision_rank (evaluate (EffectivePolicy sample_tenant) (sample_payment 4000) sample_ctx) \<le>
   decision_rank (evaluate (EffectivePolicy sample_platform) (sample_payment 4000) sample_ctx)"
  using layer_bounds_decision [of sample_platform sample_tenant sample_platform sample_tenant
      "sample_payment 4000" "EffectivePolicy sample_tenant" sample_platform sample_ctx]
  by simp

theorem narrowing_a_layer_is_safe_witness:
  "decision_rank (evaluate (EffectivePolicy sample_tenant) (sample_payment 4000) sample_ctx) \<le>
   decision_rank (evaluate (EffectivePolicy sample_platform) (sample_payment 4000) sample_ctx)"
  using narrowing_a_layer_is_safe [of sample_platform sample_platform sample_platform sample_platform
      sample_tenant "sample_payment 4000" "EffectivePolicy sample_platform"
      "EffectivePolicy sample_tenant" sample_ctx]
  by (simp add: narrows_def)

theorem always_denies_sound_witness:
  "is_deny (evaluate (EffectivePolicy sample_tenant) (BrowserRead (Domain (lit ''acme.com''))) sample_ctx)"
  by (rule always_denies_sound) (simp add: sample_tenant_def)


lemmas sample_payment_simps = sample_spend_limit payment_in_caps_def payment_total_def
  sample_spend_def spend_currency_def sample_ctx_def

theorem payment_allowed_iff_witness:
  "evaluate (EffectivePolicy sample_tenant) (sample_payment 4000) sample_ctx = Allow \<and>
   evaluate (EffectivePolicy sample_tenant) (sample_payment 5000) sample_ctx \<noteq> Allow"
  unfolding sample_payment_def
  by (subst (1 2) payment_allowed_iff) (simp_all add: sample_payment_simps money_ok_def)

theorem payment_not_denied_in_caps_witness:
  "payment_in_caps (sample_spend 20000 100000 5000) sample_ctx \<lparr>minor = 6000, currency = USD\<rparr>"
proof -
  have "\<not> is_deny (evaluate (EffectivePolicy sample_tenant)
      (PaymentCreate \<lparr>minor = 6000, currency = USD\<rparr> []) sample_ctx)"
    by (simp add: evaluate_not_deny_iff payment_rules_cases money_ok_def sample_payment_simps)
  from payment_not_denied_in_caps [OF _ this] show ?thesis
    by (simp add: money_ok_def sample_spend_limit)
qed

theorem denylist_wins_witness:
  "is_deny (evaluate (EffectivePolicy sample_platform)
     (BrowserRead (Domain (lit ''mail.evil.com''))) sample_ctx)"
  by (rule denylist_wins [where d = "Domain (lit ''mail.evil.com'')" and e = "Domain (lit ''evil.com'')"])
    (simp_all add: is_within_def str_ends_with_def str_starts_with_def sample_platform_def)

theorem outreach_not_denied_witness:
  "Sms |\<in>| allowed_channels sample_tenant \<and> (\<exists>k. k |\<in>| allowed_calling_codes sample_tenant \<and>
     e164_starts_with (E164 (lit ''+33612345678'')) k)"
proof -
  have s: "show_word (33 :: u16) = lit ''33''" "show_word (1 :: u16) = lit ''1''"
    by (simp_all add: show_word_def show_nat.simps)
  have "\<not> is_deny (evaluate (EffectivePolicy sample_tenant) (SmsSend (E164 (lit ''+33612345678''))) sample_ctx)"
    by (simp add: evaluate_not_deny_iff deny_or_allow_def or_else_def channel_rules_def channel_open_def
        phone_rules_def sample_tenant_def sample_platform_def sample_ctx_def e164_starts_with_def
        e164_digits_def s str_starts_with_def)
  from outreach_not_denied [OF _ this, of Sms] show ?thesis by simp
qed

theorem action_ctx_new_safest_witness:
  "decision_rank (evaluate (EffectivePolicy sample_tenant) (SmsSend (E164 (lit ''+33612345678'')))
     (action_ctx_new sample_actor 0)) \<le>
   decision_rank (evaluate (EffectivePolicy sample_tenant) (SmsSend (E164 (lit ''+33612345678'')))
     (sample_ctx\<lparr>contact := Known\<rparr>))"
  using action_ctx_new_safest [of "sample_ctx\<lparr>contact := Known\<rparr>"] by (simp add: sample_ctx_def)

text \<open>A denied host has a spelling the denylist misses: where the URL parser decodes a
  percent-encoded final dot and keeps it, the parsed domain is a different name than the entry, so
  reading the very host the policy denies is allowed while its usual spelling is refused.\<close>

theorem denylist_misses_encoded_dot:
  assumes "parse_url (lit ''https://'' @ lit ''evil.com%2E'' @ lit ''/'') = Some u"
    and "url_host u = Some (Host_Domain (lit ''evil.com.''))"
    and "denied_domains (limits p) = {|Domain (lit ''evil.com'')|}" and "Web |\<in>| allowed_channels (limits p)"
  shows "domain_parse parse_url (lit ''evil.com%2E'') = Inr (Domain (lit ''evil.com.'')) \<and>
    evaluate p (BrowserRead (Domain (lit ''evil.com.''))) ctx = Allow \<and>
    is_deny (evaluate p (BrowserRead (Domain (lit ''evil.com''))) ctx)"
proof (intro conjI)
  have "trim_end_when (\<lambda>c. c = 46) (trim (lit ''evil.com%2E'')) = lit ''evil.com%2E''"
  proof -
    have "trim (lit ''evil.com%2E'') = lit ''evil.com%2E''"
      by (rule trim_no_ws) (simp add: is_whitespace_def)
    then show ?thesis by (simp add: trim_end_when_def)
  qed
  moreover have "\<not> list_ex domain_forbidden (lit ''evil.com%2E'')" "lit ''evil.com%2E'' \<noteq> []"
      "public_host (lit ''evil.com.'')"
    by (simp_all add: domain_forbidden_def public_host_def private_use_suffixes_def
        str_ends_with_def str_starts_with_def)
  ultimately show "domain_parse parse_url (lit ''evil.com%2E'') = Inr (Domain (lit ''evil.com.''))"
    using assms(1,2) unfolding domain_parse_Inr_iff Let_def by (simp del: lit_simps)
  show "evaluate p (BrowserRead (Domain (lit ''evil.com.''))) ctx = Allow"
    using assms(3,4) by (simp add: evaluate_def is_denied_def is_within_def channel_open_def
        str_ends_with_def str_starts_with_def)
  show "is_deny (evaluate p (BrowserRead (Domain (lit ''evil.com''))) ctx)"
    using assms(3) by (simp add: evaluate_def is_denied_def)
qed

theorem denylist_misses_encoded_dot_witness:
  "evaluate (EffectivePolicy sample_platform) (BrowserRead (Domain (lit ''evil.com.''))) sample_ctx = Allow"
proof -
  have dot: "\<not> list_ex (\<lambda>c. domain_forbidden c \<or> is_whitespace c \<or> c = 37) (lit ''evil.com.'')"
    by (simp add: domain_forbidden_def is_whitespace_def)
  have e: "str_ends_with (lit ''evil.com%2E'') (lit ''%2E'')"
      "take (length (lit ''evil.com%2E'') - 3) (lit ''evil.com%2E'') @ [46] = lit ''evil.com.''"
    by (simp_all add: str_ends_with_def str_starts_with_def)
  have "sample_parse_url (lit ''https://'' @ lit ''evil.com%2E'' @ lit ''/'') =
      Some \<lparr>url_scheme = lit ''https'', url_host = Some (Host_Domain (lit ''evil.com.'')),
        url_text = lit ''https://'' @ lit ''evil.com%2E'' @ lit ''/''\<rparr>"
    using dot by (simp only: sample_parse_url_https Let_def e if_True if_False)
  from denylist_misses_encoded_dot [of sample_parse_url, OF this, of "EffectivePolicy sample_platform" sample_ctx]
  show ?thesis by (simp add: sample_platform_def)
qed

end
