(* ===== verification/Org.thy ===== *)
theory Org
  imports Gate
begin

text \<open>
  \<open>crates/domain/src/org.rs\<close>: missions, the team's daily budget, teams with their tool ceiling
  and sections, memberships, and the \<open>role\<close> layer of an employee. The lemmas show that the
  intersection used here is the policy's own, that a section never permits more than its team
  and a member never more than any of its teams, and that a day of charges stays under the cap.
\<close>

section \<open>Definitions\<close>

datatype org_error =
    ToolCeilingExceeded slug nat nat
  | Org_CurrencyMismatch currency currency
  | TeamBudgetExhausted money "money option" money
  | UnknownTeam employee_id slug
  | BadMission ustr
  | UnknownSection slug slug
  | Org_Policy policy_error

definition org_intersect :: "policy_limits \<Rightarrow> policy_limits \<Rightarrow> org_error + policy_limits" where
  "org_intersect a b = rbind (map_err Org_Policy (effective_try_new a b a b)) (\<lambda>p. Inr (limits p))"

definition org_min_money :: "money \<Rightarrow> money \<Rightarrow> money" where
  "org_min_money a b = (if minor a \<le> minor b then a else b)"

datatype mission = Mission (mission_str: ustr)

definition mission_max_chars :: nat where "mission_max_chars = 240"

definition mission_parse :: "ustr \<Rightarrow> org_error + mission" where
  "mission_parse raw =
     (let t = trim raw in
      if t = [] then Inl (BadMission (lit ''must not be blank''))
      else if mission_max_chars < length t then Inl (BadMission (lit ''at most 240 characters''))
      else if list_ex is_control t then Inl (BadMission (lit ''must not contain control characters''))
      else Inr (Mission t))"

datatype team_budget = TeamBudget (cap: money)

definition charge :: "team_budget \<Rightarrow> money option \<Rightarrow> money \<Rightarrow> org_error + money" where
  "charge b spent amt =
     (case find (\<lambda>other. currency other \<noteq> currency (cap b))
             (amt # (case spent of None \<Rightarrow> [] | Some x \<Rightarrow> [x])) of
        Some other \<Rightarrow> Inl (Org_CurrencyMismatch (currency (cap b)) (currency other))
      | None \<Rightarrow>
          rbind (case spent of None \<Rightarrow> Inr amt
                 | Some x \<Rightarrow> map_err (\<lambda>_. TeamBudgetExhausted (cap b) spent amt) (checked_add x amt))
            (\<lambda>tot. if minor tot > minor (cap b) then Inl (TeamBudgetExhausted (cap b) spent amt)
              else Inr tot))"

record team =
  t_tenant :: tenant_id
  t_name :: slug
  t_limits :: policy_limits
  t_budget :: "team_budget option"
  t_sections :: "slug \<rightharpoonup> policy_limits"

definition max_tools_per_employee :: nat where "max_tools_per_employee = 32"

text \<open>The spend limits of a team with a budget: no member's day is larger than the team's.\<close>

definition clamp_spend :: "spend_limits \<Rightarrow> money \<Rightarrow> org_error + spend_limits" where
  "clamp_spend s c =
     (if spend_currency s \<noteq> currency c then Inl (Org_CurrencyMismatch (spend_currency s) (currency c))
      else map_err Org_Policy (spend_try_new (org_min_money (max_per_transaction s) c)
             (org_min_money (max_per_day s) c) (org_min_money (approval_above s) c)))"

definition team_try_new ::
  "tenant_id \<Rightarrow> slug \<Rightarrow> policy_limits \<Rightarrow> team_budget option \<Rightarrow> org_error + team" where
  "team_try_new tenant name l budget =
     (let n = fcard (allowed_mcp_tools l) in
      if n > max_tools_per_employee then Inl (ToolCeilingExceeded name n max_tools_per_employee)
      else rbind (case (budget, spend l) of
                    (Some b, Some s) \<Rightarrow> rbind (clamp_spend s (cap b)) (\<lambda>s'. Inr (l\<lparr>spend := Some s'\<rparr>))
                  | _ \<Rightarrow> Inr l)
             (\<lambda>l'. Inr \<lparr>t_tenant = tenant, t_name = name, t_limits = l', t_budget = budget,
                t_sections = Map.empty\<rparr>))"

definition with_section :: "team \<Rightarrow> slug \<Rightarrow> policy_limits option \<Rightarrow> org_error + team" where
  "with_section t name narrower =
     rbind (case narrower of None \<Rightarrow> Inr (t_limits t) | Some n \<Rightarrow> org_intersect (t_limits t) n)
       (\<lambda>layer. Inr (t\<lparr>t_sections := (t_sections t)(name \<mapsto> layer)\<rparr>))"

definition tool_count :: "team \<Rightarrow> nat" where
  "tool_count t = fcard (allowed_mcp_tools (t_limits t))"

definition layer_for :: "team \<Rightarrow> slug option \<Rightarrow> org_error + policy_limits" where
  "layer_for t sec =
     (case sec of
        None \<Rightarrow> Inr (t_limits t)
      | Some s \<Rightarrow> ok_or (t_sections t s) (UnknownSection (t_name t) s))"

record membership =
  m_employee :: employee_id
  m_team :: slug
  m_section :: "slug option"

text \<open>One turn of the loop: the layer of a membership, met with what the loop has so far.\<close>

definition membership_layer ::
  "tenant_id \<Rightarrow> employee_id \<Rightarrow> team list \<Rightarrow> membership \<Rightarrow> org_error + policy_limits" where
  "membership_layer tenant e teams m =
     rbind (ok_or (find (\<lambda>t. t_tenant t = tenant \<and> t_name t = m_team m) teams) (UnknownTeam e (m_team m)))
       (\<lambda>t. layer_for t (m_section m))"

fun role_loop ::
  "tenant_id \<Rightarrow> employee_id \<Rightarrow> team list \<Rightarrow> membership list \<Rightarrow> policy_limits option \<Rightarrow>
   org_error + policy_limits option" where
  "role_loop tenant e teams [] effective = Inr effective"
| "role_loop tenant e teams (m # ms) effective =
     rbind (membership_layer tenant e teams m) (\<lambda>layer.
     rbind (case effective of None \<Rightarrow> Inr layer | Some prev \<Rightarrow> org_intersect prev layer) (\<lambda>next_layer.
     role_loop tenant e teams ms (Some next_layer)))"

definition role_layer ::
  "tenant_id \<Rightarrow> employee_id \<Rightarrow> team list \<Rightarrow> membership list \<Rightarrow> org_error + policy_limits option" where
  "role_layer tenant e teams memberships =
     role_loop tenant e teams (filter (\<lambda>m. m_employee m = e) memberships) None"

section \<open>Lemmas\<close>

text \<open>The intersection taken twice over is the intersection.\<close>

lemma org_intersect_eq:
  assumes "policy_ok a" and "policy_ok b"
  shows "org_intersect a b = map_err Org_Policy (intersect a b)"
proof (cases "intersect a b")
  case (Inl e)
  then show ?thesis by (simp add: org_intersect_def effective_try_new_def)
next
  case (Inr m)
  note m = intersect_meet [OF assms Inr]
  from policy.meet_absorb [OF m(1) assms(1) m(2)] policy.meet_absorb [OF m(1) assms(2) m(3)] Inr
  show ?thesis by (simp add: org_intersect_def effective_try_new_def)
qed

lemma org_intersect_Inr_iff:
  "policy_ok a \<Longrightarrow> policy_ok b \<Longrightarrow> org_intersect a b = Inr m \<longleftrightarrow> intersect a b = Inr m"
  by (simp add: org_intersect_eq)

lemma charge_Inr_iff:
  assumes "money_ok amt"
  shows "charge b spent amt = Inr tot \<longleftrightarrow>
    currency amt = currency (cap b) \<and> currency tot = currency (cap b) \<and>
    (case spent of None \<Rightarrow> True | Some x \<Rightarrow> currency x = currency (cap b)) \<and>
    nat_of_money tot = (case spent of None \<Rightarrow> 0 | Some x \<Rightarrow> nat_of_money x) + nat_of_money amt \<and>
    nat_of_money tot \<le> nat_of_money (cap b)"
proof (cases spent)
  case None
  then show ?thesis
    by (auto simp: charge_def word_less_nat_alt intro: money_eqI)
next
  case (Some x)
  with assms show ?thesis
    by (auto simp: charge_def word_less_nat_alt rbind_eq_Inr_iff checked_add_Inr_iff money_ok_nat
        intro!: exI [of _ tot])
qed

text \<open>A team as the constructors leave it.\<close>

definition team_ok :: "team \<Rightarrow> bool" where
  "team_ok t \<longleftrightarrow> policy_ok (t_limits t) \<and> tool_count t \<le> 32 \<and>
     (\<forall>s l. t_sections t s = Some l \<longrightarrow> policy_ok l \<and> policy_le l (t_limits t)) \<and>
     (\<forall>b s. t_budget t = Some b \<and> spend (t_limits t) = Some s \<longrightarrow>
        spend_currency s = currency (cap b) \<and> minor (max_per_day s) \<le> minor (cap b))"

lemma org_min_money_eq: "org_min_money = min_money"
  by (rule ext)+ (simp add: org_min_money_def min_money_def)

lemma clamp_spend_Inr:
  assumes "spend_ok s" and "clamp_spend s c = Inr s'"
  shows "spend_ok s' \<and> spend_le s' s \<and> spend_currency s' = currency c \<and> minor (max_per_day s') \<le> minor c"
  using assms
  by (auto simp: clamp_spend_def spend_try_new_Inr_iff org_min_money_eq spend_le_def spend_currency_def
      min_money_currency split: if_splits)

lemma clamp_spend_ok:
  assumes "spend_ok s" and "spend_currency s = currency c"
  shows "\<exists>s'. clamp_spend s c = Inr s'"
proof -
  let ?s = "\<lparr>max_per_transaction = min_money (max_per_transaction s) c,
    max_per_day = min_money (max_per_day s) c, approval_above = min_money (approval_above s) c\<rparr>"
  have "spend_ok ?s"
    using assms by (simp add: spend_ok_def spend_currency_def min_money_currency min.coboundedI1
        min.coboundedI2 min_le_iff_disj)
  with assms(2) show ?thesis
    by (auto simp: clamp_spend_def org_min_money_eq spend_try_new_Inr_iff intro!: exI [of _ ?s])
qed

lemma policy_le_spend: "spend_opt_le s (spend l) \<Longrightarrow> policy_le (l\<lparr>spend := s\<rparr>) l"
  by (simp add: policy_le_def)

lemma team_try_new_Inr:
  assumes "policy_ok l" and "team_try_new tenant name l budget = Inr t"
  shows "team_ok t \<and> policy_le (t_limits t) l \<and> t_tenant t = tenant \<and> t_name t = name"
proof -
  from assms(2) obtain l' where n: "fcard (allowed_mcp_tools l) \<le> 32"
    and l': "(case (budget, spend l) of (Some b, Some s) \<Rightarrow> rbind (clamp_spend s (cap b)) (\<lambda>s'. Inr (l\<lparr>spend := Some s'\<rparr>))
        | _ \<Rightarrow> Inr l) = Inr l'"
    and t: "t = \<lparr>t_tenant = tenant, t_name = name, t_limits = l', t_budget = budget, t_sections = Map.empty\<rparr>"
    by (auto simp: team_try_new_def Let_def max_tools_per_employee_def rbind_eq_Inr_iff split: if_splits)
  have "policy_ok l' \<and> policy_le l' l \<and> allowed_mcp_tools l' = allowed_mcp_tools l \<and>
      (\<forall>b s. budget = Some b \<and> spend l' = Some s \<longrightarrow>
        spend_currency s = currency (cap b) \<and> minor (max_per_day s) \<le> minor (cap b))"
  proof (cases "budget = None \<or> spend l = None")
    case True
    with l' assms(1) show ?thesis by (cases budget; cases "spend l") auto
  next
    case False
    then obtain b s where bs: "budget = Some b" "spend l = Some s" by auto
    with l' obtain s' where s': "clamp_spend s (cap b) = Inr s'" "l' = l\<lparr>spend := Some s'\<rparr>"
      by (auto simp: rbind_eq_Inr_iff)
    from clamp_spend_Inr [OF policy_okD [OF assms(1) bs(2)] s'(1)] s'(2) bs show ?thesis
      by (auto simp: policy_ok_def intro!: policy_le_spend)
  qed
  with n t show ?thesis by (simp add: team_ok_def tool_count_def)
qed

lemma with_section_Inr:
  assumes "team_ok t" and "\<And>n. narrower = Some n \<Longrightarrow> policy_ok n"
    and "with_section t name narrower = Inr t'"
  shows "team_ok t' \<and> t_limits t' = t_limits t"
proof -
  have ok: "policy_ok (t_limits t)" using assms(1) by (simp add: team_ok_def)
  from assms(3) obtain layer where t': "t' = t\<lparr>t_sections := (t_sections t)(name \<mapsto> layer)\<rparr>"
    and layer: "(case narrower of None \<Rightarrow> Inr (t_limits t) | Some n \<Rightarrow> org_intersect (t_limits t) n) = Inr layer"
    by (auto simp: with_section_def rbind_eq_Inr_iff)
  have "policy_ok layer \<and> policy_le layer (t_limits t)"
  proof (cases narrower)
    case None
    with layer ok show ?thesis by simp
  next
    case (Some n)
    with layer ok assms(2) have "intersect (t_limits t) n = Inr layer" by (simp add: org_intersect_Inr_iff)
    with ok assms(2) Some show ?thesis using intersect_meet(1,2) by blast
  qed
  with assms(1) t' show ?thesis by (auto simp: team_ok_def tool_count_def)
qed

lemma layer_for_Inr:
  assumes "team_ok t" and "layer_for t sec = Inr l"
  shows "policy_ok l \<and> policy_le l (t_limits t)"
  using assms by (auto simp: team_ok_def layer_for_def ok_or_eq_Inr_iff split: option.splits)

lemma membership_layer_Inr:
  assumes "list_all team_ok teams" and "membership_layer tenant e teams m = Inr l"
  obtains t where "t \<in> set teams" "t_tenant t = tenant" "t_name t = m_team m" "team_ok t"
    "layer_for t (m_section m) = Inr l" "policy_ok l" "policy_le l (t_limits t)"
proof -
  from assms(2) obtain t where t: "find (\<lambda>t. t_tenant t = tenant \<and> t_name t = m_team m) teams = Some t"
    and l: "layer_for t (m_section m) = Inr l"
    by (auto simp: membership_layer_def rbind_eq_Inr_iff ok_or_eq_Inr_iff)
  from t have f: "t \<in> set teams" "t_tenant t = tenant" "t_name t = m_team m" by (auto simp: find_Some_iff)
  with assms(1) have ok: "team_ok t" by (simp add: list_all_iff)
  from layer_for_Inr [OF ok l] that [OF f ok l] show thesis by blast
qed

text \<open>The loop is a meet over the layers of the memberships.\<close>

lemma role_loop_fold:
  assumes "list_all team_ok teams" and "policy_ok p" and "role_loop tenant e teams ms (Some p) = Inr r"
  shows "\<exists>ls l. map (membership_layer tenant e teams) ms = map Inr ls \<and> list_all policy_ok ls \<and>
    r = Some l \<and> fold_meet intersect p ls = Inr l"
  using assms(2,3)
proof (induction ms arbitrary: p)
  case Nil
  then show ?case by simp
next
  case (Cons m ms)
  then obtain x y where x: "membership_layer tenant e teams m = Inr x"
    and y: "org_intersect p x = Inr y" and r: "role_loop tenant e teams ms (Some y) = Inr r"
    by (auto simp: rbind_eq_Inr_iff)
  from x have px: "policy_ok x" by (rule membership_layer_Inr [OF assms(1)])
  with y Cons.prems(1) have m: "intersect p x = Inr y" by (simp add: org_intersect_Inr_iff)
  then have "policy_ok y" using intersect_meet(1) Cons.prems(1) px by blast
  from Cons.IH [OF this r] obtain ls l where "map (membership_layer tenant e teams) ms = map Inr ls"
      "list_all policy_ok ls" "r = Some l" "fold_meet intersect y ls = Inr l" by blast
  with x px m show ?case by (intro exI [of _ "x # ls"] exI [of _ l]) simp
qed

lemma role_layer_fold:
  assumes "list_all team_ok teams" and "role_layer tenant e teams ms = Inr (Some l)"
  shows "\<exists>x ls. map (membership_layer tenant e teams) (filter (\<lambda>m. m_employee m = e) ms) = map Inr (x # ls) \<and>
    policy_ok x \<and> list_all policy_ok ls \<and> fold_meet intersect x ls = Inr l"
proof (cases "filter (\<lambda>m. m_employee m = e) ms")
  case Nil
  with assms(2) show ?thesis by (simp add: role_layer_def)
next
  case (Cons m ms')
  with assms(2) obtain x where x: "membership_layer tenant e teams m = Inr x"
    and r: "role_loop tenant e teams ms' (Some x) = Inr (Some l)"
    by (auto simp: role_layer_def rbind_eq_Inr_iff)
  from x have px: "policy_ok x" by (rule membership_layer_Inr [OF assms(1)])
  from role_loop_fold [OF assms(1) px r] obtain ls where
    "map (membership_layer tenant e teams) ms' = map Inr ls" "list_all policy_ok ls"
    "fold_meet intersect x ls = Inr l" by auto
  with Cons x px show ?thesis by (intro exI [of _ x] exI [of _ ls]) simp
qed

lemma role_layer_le:
  assumes "list_all team_ok teams" and "role_layer tenant e teams ms = Inr (Some l)"
    and "m \<in> set ms" and "m_employee m = e"
  obtains x where "membership_layer tenant e teams m = Inr x" "policy_ok x" "policy_ok l" "policy_le l x"
proof -
  from role_layer_fold [OF assms(1,2)] obtain x ls where
    ls: "map (membership_layer tenant e teams) (filter (\<lambda>m. m_employee m = e) ms) = map Inr (x # ls)"
    and ok: "policy_ok x" "list_all policy_ok ls" "fold_meet intersect x ls = Inr l" by blast
  from assms(3,4) have "membership_layer tenant e teams m \<in> set (map (membership_layer tenant e teams)
      (filter (\<lambda>m. m_employee m = e) ms))" by auto
  then obtain y where "y \<in> set (x # ls)" "membership_layer tenant e teams m = Inr y"
    unfolding ls by auto
  with policy.fold_bounds [OF ok] ok that show thesis by (auto simp: list_all_iff)
qed

text \<open>A day of charges: a refused one leaves the running total.\<close>

definition charge_day :: "team_budget \<Rightarrow> money list \<Rightarrow> money option" where
  "charge_day b amts = run (\<lambda>s amt. rbind (charge b s amt) (\<lambda>tot. Inr (Some tot))) None amts"

section \<open>Properties\<close>

text \<open>C24. The role layer of an employee permits no more than the layer of every team it belongs to
  (each already narrowed by the section), is the most permissive such policy, is absent exactly when
  the employee has no membership, and never carries more than 32 tools.\<close>

theorem role_layer_correct:
  assumes "list_all team_ok teams"
  shows "(role_layer tenant e teams ms = Inr None \<longleftrightarrow> (\<forall>m\<in>set ms. m_employee m \<noteq> e)) \<and>
    (\<forall>l. role_layer tenant e teams ms = Inr (Some l) \<longrightarrow>
      policy_ok l \<and> fcard (allowed_mcp_tools l) \<le> 32 \<and>
      (\<forall>m\<in>set ms. m_employee m = e \<longrightarrow>
        (\<exists>x. membership_layer tenant e teams m = Inr x \<and> policy_le l x)) \<and>
      (\<forall>y. (\<forall>m\<in>set ms. \<forall>x. m_employee m = e \<and> membership_layer tenant e teams m = Inr x \<longrightarrow> policy_le y x)
        \<longrightarrow> policy_le y l))"
proof (intro conjI allI impI)
  show "role_layer tenant e teams ms = Inr None \<longleftrightarrow> (\<forall>m\<in>set ms. m_employee m \<noteq> e)"
  proof (cases "filter (\<lambda>m. m_employee m = e) ms")
    case Nil
    then show ?thesis by (auto simp: role_layer_def filter_empty_conv)
  next
    case (Cons m ms')
    then have "m \<in> set (filter (\<lambda>m. m_employee m = e) ms)" by simp
    then have "m \<in> set ms" "m_employee m = e" by simp_all
    moreover have "role_layer tenant e teams ms \<noteq> Inr None"
    proof
      assume "role_layer tenant e teams ms = Inr None"
      with Cons obtain x where x: "membership_layer tenant e teams m = Inr x"
          "role_loop tenant e teams ms' (Some x) = Inr None"
        by (auto simp: role_layer_def rbind_eq_Inr_iff)
      have "policy_ok x" using x(1) by (rule membership_layer_Inr [OF assms])
      from role_loop_fold [OF assms this x(2)] show False by auto
    qed
    ultimately show ?thesis by blast
  qed
  fix l assume "role_layer tenant e teams ms = Inr (Some l)"
  from role_layer_fold [OF assms this] obtain x ls where
      map: "map (membership_layer tenant e teams) (filter (\<lambda>m. m_employee m = e) ms) = map Inr (x # ls)"
    and ok: "policy_ok x" "list_all policy_ok ls" and fold: "fold_meet intersect x ls = Inr l" by blast
  have images: "membership_layer tenant e teams ` {m \<in> set ms. m_employee m = e} = Inr ` set (x # ls)"
    using arg_cong [OF map, of set] by simp
  note b = policy.fold_bounds [OF ok fold]
  from b show "policy_ok l" by blast
  have "Inr x \<in> membership_layer tenant e teams ` {m \<in> set ms. m_employee m = e}"
    unfolding images by simp
  then obtain m where m: "membership_layer tenant e teams m = Inr x" by auto
  then obtain t where "team_ok t" "policy_le x (t_limits t)" by (rule membership_layer_Inr [OF assms])
  moreover from b have "policy_le l x" by simp
  ultimately have "allowed_mcp_tools l |\<subseteq>| allowed_mcp_tools (t_limits t)" "tool_count t \<le> 32"
    using policy_le_trans [of l x "t_limits t"] by (simp_all add: policy_le_def team_ok_def)
  then show "fcard (allowed_mcp_tools l) \<le> 32"
    using fcard_mono [of "allowed_mcp_tools l" "allowed_mcp_tools (t_limits t)"] by (simp add: tool_count_def)
  show "\<forall>m\<in>set ms. m_employee m = e \<longrightarrow> (\<exists>x. membership_layer tenant e teams m = Inr x \<and> policy_le l x)"
  proof (intro ballI impI)
    fix m assume "m \<in> set ms" "m_employee m = e"
    then have "membership_layer tenant e teams m \<in> Inr ` set (x # ls)" unfolding images [symmetric] by blast
    with b show "\<exists>x. membership_layer tenant e teams m = Inr x \<and> policy_le l x" by auto
  qed
  fix y assume y: "\<forall>m\<in>set ms. \<forall>x. m_employee m = e \<and> membership_layer tenant e teams m = Inr x \<longrightarrow> policy_le y x"
  have "policy_le y z" if "z \<in> set (x # ls)" for z
  proof -
    from that have "Inr z \<in> membership_layer tenant e teams ` {m \<in> set ms. m_employee m = e}"
      unfolding images by (rule imageI)
    then obtain m where "m \<in> set ms" "m_employee m = e" "membership_layer tenant e teams m = Inr z" by auto
    with y show ?thesis by blast
  qed
  then show "policy_le y l" by (intro policy.fold_greatest [OF ok fold]) simp_all
qed

text \<open>C25. A team is within its bounds however it is built: at most 32 tools, limits no wider than
  the written ones, every section no wider than the team, and with a budget no member's daily cap
  above the team's; adding a section keeps all of it.\<close>

theorem team_construction_ok:
  assumes "policy_ok l"
  shows "(team_try_new tenant name l budget = Inr t \<longrightarrow> team_ok t \<and> policy_le (t_limits t) l) \<and>
    (team_ok t \<and> (\<forall>n. narrower = Some n \<longrightarrow> policy_ok n) \<and> with_section t sec narrower = Inr t' \<longrightarrow>
      team_ok t' \<and> t_limits t' = t_limits t \<and>
      (\<forall>x. layer_for t' (Some sec) = Inr x \<longrightarrow> policy_le x (t_limits t)))"
proof (intro conjI impI)
  assume "team_try_new tenant name l budget = Inr t"
  from team_try_new_Inr [OF assms this] show "team_ok t" "policy_le (t_limits t) l" by blast+
next
  assume *: "team_ok t \<and> (\<forall>n. narrower = Some n \<longrightarrow> policy_ok n) \<and> with_section t sec narrower = Inr t'"
  then have ok: "team_ok t'" "t_limits t' = t_limits t" using with_section_Inr by blast+
  then show "team_ok t'" "t_limits t' = t_limits t" by blast+
  show "\<forall>x. layer_for t' (Some sec) = Inr x \<longrightarrow> policy_le x (t_limits t)"
    using layer_for_Inr [OF ok(1)] ok(2) by auto
qed

text \<open>A day of team spending never passes the budget: whatever amounts are charged, in whatever
  order, the running total stays within the cap and in its currency; and a charge is refused only
  when it is in another currency or would pass the cap as a number.\<close>

theorem charge_day_bounded:
  assumes "list_all money_ok amts" and "money_ok amt"
  shows "(case charge_day b amts of None \<Rightarrow> True
      | Some tot \<Rightarrow> currency tot = currency (cap b) \<and> nat_of_money tot \<le> nat_of_money (cap b)) \<and>
    ((\<exists>tot. charge b (charge_day b amts) amt = Inr tot) \<longleftrightarrow> currency amt = currency (cap b) \<and>
      (case charge_day b amts of None \<Rightarrow> 0 | Some x \<Rightarrow> nat_of_money x) + nat_of_money amt \<le> nat_of_money (cap b))"
proof -
  let ?call = "\<lambda>s amt. rbind (charge b s amt) (\<lambda>tot. Inr (Some tot))"
  let ?P = "\<lambda>s. case s of None \<Rightarrow> True
      | Some tot \<Rightarrow> currency tot = currency (cap b) \<and> nat_of_money tot \<le> nat_of_money (cap b)"
  have inv: "?P (charge_day b amts)"
    unfolding charge_day_def
  proof (rule run_preserves [where P = ?P])
    fix s a y assume "a \<in> set amts" and "?call s a = Inr y"
    with assms(1) show "?P y"
      by (auto simp: rbind_eq_Inr_iff charge_Inr_iff list_all_iff)
  qed simp
  moreover have "(\<exists>tot. charge b s amt = Inr tot) \<longleftrightarrow> currency amt = currency (cap b) \<and>
      (case s of None \<Rightarrow> 0 | Some x \<Rightarrow> nat_of_money x) + nat_of_money amt \<le> nat_of_money (cap b)" (is "?l \<longleftrightarrow> ?r")
    if "?P s" for s
  proof
    show "?l \<Longrightarrow> ?r" by (auto simp: charge_Inr_iff [OF assms(2)])
    assume r: ?r
    let ?n = "(case s of None \<Rightarrow> 0 | Some x \<Rightarrow> nat_of_money x) + nat_of_money amt"
    have "?n < 2 ^ 64"
      using r le_less_trans [OF _ unat_u64_less [of "minor (cap b)"]] by simp
    then have "unat (word_of_nat ?n :: u64) = ?n" by (rule unat_word_of_nat_u64)
    with r that show ?l
      by (intro exI [of _ "\<lparr>minor = word_of_nat ?n, currency = currency (cap b)\<rparr>"])
        (auto simp: charge_Inr_iff [OF assms(2)] split: option.splits)
  qed
  ultimately show ?thesis by simp
qed

text \<open>The intersection used for sections and memberships is the policy's own: taking the two
  layers twice through the four-layer constructor gives exactly their meet, errors included.\<close>

theorem org_intersect_is_intersect:
  assumes "policy_ok a" and "policy_ok b"
  shows "org_intersect a b = map_err Org_Policy (intersect a b)"
  by (rule org_intersect_eq [OF assms])

section \<open>A concrete company\<close>

definition sample_teams :: "team list" where
  "sample_teams =
     [\<lparr>t_tenant = TenantId 1, t_name = Slug (lit ''support''), t_limits = sample_platform,
       t_budget = None, t_sections = Map.empty\<rparr>,
      \<lparr>t_tenant = TenantId 1, t_name = Slug (lit ''sales''), t_limits = sample_tenant,
       t_budget = None, t_sections = Map.empty\<rparr>]"

definition sample_memberships :: "membership list" where
  "sample_memberships =
     [\<lparr>m_employee = EmployeeId 7, m_team = Slug (lit ''support''), m_section = None\<rparr>,
      \<lparr>m_employee = EmployeeId 9, m_team = Slug (lit ''none''), m_section = None\<rparr>,
      \<lparr>m_employee = EmployeeId 7, m_team = Slug (lit ''sales''), m_section = None\<rparr>]"

lemma sample_tools [simp]: "allowed_mcp_tools sample_platform = {||}" "allowed_mcp_tools sample_tenant = {||}"
  by (simp_all add: sample_tenant_def sample_platform_def policy_default_def)

lemma sample_teams_ok: "list_all team_ok sample_teams"
  by (simp add: sample_teams_def team_ok_def tool_count_def fcard_fempty)

lemma sample_role_layer:
  "role_layer (TenantId 1) (EmployeeId 7) sample_teams sample_memberships = Inr (Some sample_tenant)"
  by (simp add: role_layer_def sample_memberships_def sample_teams_def membership_layer_def layer_for_def
      org_intersect_eq)

theorem role_layer_correct_witness:
  "fcard (allowed_mcp_tools sample_tenant) \<le> 32 \<and>
   role_layer (TenantId 1) (EmployeeId 8) sample_teams sample_memberships = Inr None"
  using role_layer_correct [OF sample_teams_ok, of "TenantId 1" "EmployeeId 7" sample_memberships]
    role_layer_correct [OF sample_teams_ok, of "TenantId 1" "EmployeeId 8" sample_memberships]
    sample_role_layer
  by (simp add: sample_memberships_def)

theorem team_construction_ok_witness:
  "\<exists>t. team_try_new (TenantId 1) (Slug (lit ''sales'')) sample_tenant None = Inr t \<and> team_ok t"
proof -
  have "\<exists>t. team_try_new (TenantId 1) (Slug (lit ''sales'')) sample_tenant None = Inr t"
    by (simp add: team_try_new_def Let_def max_tools_per_employee_def fcard_fempty)
  then obtain t where t: "team_try_new (TenantId 1) (Slug (lit ''sales'')) sample_tenant None = Inr t" ..
  with team_construction_ok [OF sample_ok(2), of "TenantId 1" "Slug (lit ''sales'')" None t] show ?thesis by blast
qed

theorem charge_day_bounded_witness:
  "case charge_day (TeamBudget \<lparr>minor = 100, currency = USD\<rparr>)
      [\<lparr>minor = 60, currency = USD\<rparr>, \<lparr>minor = 60, currency = USD\<rparr>, \<lparr>minor = 40, currency = USD\<rparr>] of
     None \<Rightarrow> True | Some tot \<Rightarrow> nat_of_money tot \<le> 100"
  using charge_day_bounded [of "[\<lparr>minor = 60, currency = USD\<rparr>, \<lparr>minor = 60, currency = USD\<rparr>, \<lparr>minor = 40, currency = USD\<rparr>]"
      "\<lparr>minor = 1, currency = USD\<rparr>" "TeamBudget \<lparr>minor = 100, currency = USD\<rparr>"]
  by (auto simp: money_ok_def split: option.splits)

theorem org_intersect_is_intersect_witness:
  "org_intersect sample_platform sample_tenant = Inr sample_tenant"
  using org_intersect_is_intersect [OF sample_ok] by simp

end
