(* ===== verification/Sourcing.thy ===== *)
theory Sourcing
  imports Policy
begin

text \<open>
  \<open>crates/domain/src/sourcing.rs\<close>: country codes, incoterms, the evidence a supplier's reputation
  is computed from, exchange rates over 128-bit intermediate products, requests for quotation,
  quotes with their validity window, supplier messages, and the negotiation. \<open>NonZeroU32\<close> and
  \<open>NonZeroU64\<close> are words with a well-formedness predicate. The lemmas show that reputation counts
  what was observed, that a conversion is the exact quotient rounded half up, and that the
  negotiation object follows its transition table.
\<close>

section \<open>Vocabulary\<close>

datatype supplier_id = SupplierId uuid
datatype rfq_id = RfqId uuid

datatype incoterm = Exw | Fca | Fas | Fob | Cfr | Cif | Cpt | Cip | Dap | Dpu | Ddp

definition incoterm_all :: "incoterm list" where
  "incoterm_all = [Exw, Fca, Fas, Fob, Cfr, Cif, Cpt, Cip, Dap, Dpu, Ddp]"

fun incoterm_str :: "incoterm \<Rightarrow> ustr" where
  "incoterm_str Exw = lit ''EXW''"
| "incoterm_str Fca = lit ''FCA''"
| "incoterm_str Fas = lit ''FAS''"
| "incoterm_str Fob = lit ''FOB''"
| "incoterm_str Cfr = lit ''CFR''"
| "incoterm_str Cif = lit ''CIF''"
| "incoterm_str Cpt = lit ''CPT''"
| "incoterm_str Cip = lit ''CIP''"
| "incoterm_str Dap = lit ''DAP''"
| "incoterm_str Dpu = lit ''DPU''"
| "incoterm_str Ddp = lit ''DDP''"

datatype certification = Ce | Rohs | Reach | Fcc | Ul | Fda | Iso9001 | Iso14001

datatype negotiation_state = Opened | Quoted | Countered | Accepted | Declined | Withdrawn | Lapsed

datatype sourcing_error =
    QuoteExpired timestamp timestamp
  | QuoteNotYetValid timestamp timestamp
  | EmptyValidityWindow timestamp timestamp
  | MissingRate currency currency
  | WrongRate currency currency currency currency
  | SameCurrencyRate currency
  | IncotermMismatch incoterm incoterm
  | BelowMoq u32 u32
  | Sourcing_IllegalTransition negotiation_state ustr
  | QuoteMismatch
  | Sourcing_NotInbound direction
  | InvalidCountry ustr
  | Sourcing_Money money_error

datatype country_code = CountryCode nat nat

definition country_parse :: "ustr \<Rightarrow> sourcing_error + country_code" where
  "country_parse raw =
     (let t = trim raw in
      if byte_len t \<noteq> 2 \<or> \<not> list_all is_ascii_alphabetic t then Inl (InvalidCountry t)
      else Inr (CountryCode (ascii_upper_char (t ! 0)) (ascii_upper_char (t ! 1))))"

definition country_str :: "country_code \<Rightarrow> ustr" where
  "country_str c = (case c of CountryCode a b \<Rightarrow> [a, b])"

section \<open>Reputation\<close>

datatype supplier_evidence =
    Delivery u32 u32
  | Response channel u32
  | Dispute

record response_stats =
  rst_count :: u32
  total_hours :: u64

definition mean_hours :: "response_stats \<Rightarrow> u64 option" where
  "mean_hours s = (if rst_count s = 0 then None else Some (total_hours s div ucast (rst_count s)))"

record reputation =
  deliveries :: u32
  on_time :: u32
  slip_days_total :: u64
  responses :: "channel \<rightharpoonup> response_stats"
  disputes :: u32

definition reputation_default :: reputation where
  "reputation_default = \<lparr>deliveries = 0, on_time = 0, slip_days_total = 0, responses = Map.empty, disputes = 0\<rparr>"

fun observe :: "reputation \<Rightarrow> supplier_evidence \<Rightarrow> reputation" where
  "observe r (Delivery quoted actual) =
     (let r = r\<lparr>deliveries := deliveries r + 1\<rparr> in
      if actual \<le> quoted then r\<lparr>on_time := on_time r + 1\<rparr>
      else r\<lparr>slip_days_total := slip_days_total r + ucast (actual - quoted)\<rparr>)"
| "observe r (Response c latency) =
     (let s = (case responses r c of None \<Rightarrow> \<lparr>rst_count = 0, total_hours = 0\<rparr> | Some s \<Rightarrow> s)
      in r\<lparr>responses := (responses r)(c \<mapsto>
           \<lparr>rst_count = rst_count s + 1, total_hours = total_hours s + ucast latency\<rparr>)\<rparr>)"
| "observe r Dispute = r\<lparr>disputes := disputes r + 1\<rparr>"

definition observed :: "supplier_evidence list \<Rightarrow> reputation" where
  "observed es = foldl observe reputation_default es"

definition observations :: "reputation \<Rightarrow> u32" where
  "observations r = deliveries r + disputes r +
     sum_list (map (\<lambda>c. case responses r c of None \<Rightarrow> 0 | Some s \<Rightarrow> rst_count s) channel_all)"

text \<open>\<open>u64\<close> arithmetic, then \<open>u32::try_from(..).ok()\<close>.\<close>

definition on_time_permille :: "reputation \<Rightarrow> u32 option" where
  "on_time_permille r =
     (if deliveries r = 0 then None
      else (let q = (ucast (on_time r) * 1000 :: u64) div ucast (deliveries r)
            in if unat q < 2 ^ 32 then Some (ucast q) else None))"

definition mean_slip_days :: "reputation \<Rightarrow> u64 option" where
  "mean_slip_days r =
     (if deliveries r = 0 then None else Some (slip_days_total r div ucast (deliveries r)))"

record supplier =
  sup_id :: supplier_id
  sup_tenant_id :: tenant_id
  sup_name :: "ustr untrusted"
  sup_country :: country_code
  sup_channels :: "channel fset"
  sup_evidence :: "supplier_evidence list"

definition supplier_new ::
  "supplier_id \<Rightarrow> tenant_id \<Rightarrow> ustr untrusted \<Rightarrow> country_code \<Rightarrow> channel list \<Rightarrow> supplier" where
  "supplier_new i t n c chans = \<lparr>sup_id = i, sup_tenant_id = t, sup_name = n, sup_country = c,
     sup_channels = fset_of_list chans, sup_evidence = []\<rparr>"

definition supplier_record :: "supplier \<Rightarrow> supplier_evidence \<Rightarrow> supplier" where
  "supplier_record s e = s\<lparr>sup_evidence := sup_evidence s @ [e]\<rparr>"

definition supplier_reputation :: "supplier \<Rightarrow> reputation" where
  "supplier_reputation s = observed (sup_evidence s)"

definition supplier_reachable_on :: "supplier \<Rightarrow> channel \<Rightarrow> bool" where
  "supplier_reachable_on s c \<longleftrightarrow> c |\<in>| sup_channels s"

section \<open>Exchange rates\<close>

record exchange_rate =
  xr_from :: currency
  xr_to :: currency
  numerator :: u64
  denominator :: u64

definition exchange_rate_new :: "currency \<Rightarrow> currency \<Rightarrow> u64 \<Rightarrow> u64 \<Rightarrow> sourcing_error + exchange_rate" where
  "exchange_rate_new from_c to_c num den =
     (if from_c = to_c then Inl (SameCurrencyRate from_c)
      else if num = 0 then Inl (Sourcing_Money Zero)
      else if den = 0 then Inl (Sourcing_Money Zero)
      else Inr \<lparr>xr_from = from_c, xr_to = to_c, numerator = num, denominator = den\<rparr>)"

definition convert :: "exchange_rate \<Rightarrow> money \<Rightarrow> sourcing_error + money" where
  "convert r amt =
     (if currency amt \<noteq> xr_from r then Inl (WrongRate (xr_from r) (xr_to r) (currency amt) (xr_to r))
      else rbind (ok_or (Option.bind (u_checked_mul (ucast (minor amt) :: 128 word) (ucast (numerator r)))
               (\<lambda>v. u_checked_mul v (ucast (minor_per_major (xr_to r))))) (Sourcing_Money Overflow)) (\<lambda>scaled.
        let divisor = ucast (denominator r) * ucast (minor_per_major (xr_from r));
            q = (scaled + divisor div 2) div divisor
        in if unat q < 2 ^ 64 then map_err Sourcing_Money (money_new (ucast q) (xr_to r))
           else Inl (Sourcing_Money Overflow)))"

section \<open>Requests and quotes\<close>

record rfq =
  rfq_id :: rfq_id
  rfq_tenant_id :: tenant_id
  product :: ustr
  quantity :: u32
  target_unit_price :: money
  delivery_country :: country_code
  rfq_incoterm :: incoterm
  required_certifications :: "certification fset"
  deadline :: timestamp

definition target_total :: "rfq \<Rightarrow> sourcing_error + money" where
  "target_total r = map_err Sourcing_Money (checked_mul_int (target_unit_price r) (ucast (quantity r)))"

definition is_open_at :: "rfq \<Rightarrow> timestamp \<Rightarrow> bool" where
  "is_open_at r tm \<longleftrightarrow> tm \<le> deadline r"

datatype sample_availability = NoSample | Free | Paid money

record quote =
  q_rfq_id :: rfq_id
  q_supplier_id :: supplier_id
  unit_price :: money
  moq :: u32
  lead_time_days :: u32
  valid_from :: timestamp
  valid_until :: timestamp
  q_incoterm :: incoterm
  q_sample :: sample_availability

datatype live_quote = LiveQuote (live: quote)

definition live_at :: "quote \<Rightarrow> timestamp \<Rightarrow> sourcing_error + live_quote" where
  "live_at q tm =
     (if valid_until q \<le> valid_from q then Inl (EmptyValidityWindow (valid_from q) (valid_until q))
      else if tm < valid_from q then Inl (QuoteNotYetValid (valid_from q) tm)
      else if tm > valid_until q then Inl (QuoteExpired (valid_until q) tm)
      else Inr (LiveQuote q))"

definition unit_price_in :: "quote \<Rightarrow> currency \<Rightarrow> exchange_rate option \<Rightarrow> sourcing_error + money" where
  "unit_price_in q target rate =
     (if currency (unit_price q) = target then Inr (unit_price q)
      else rbind (ok_or rate (MissingRate (currency (unit_price q)) target)) (\<lambda>r.
        if xr_to r \<noteq> target then Inl (WrongRate (xr_from r) (xr_to r) (currency (unit_price q)) target)
        else convert r (unit_price q)))"

definition meets_target :: "quote \<Rightarrow> rfq \<Rightarrow> exchange_rate option \<Rightarrow> sourcing_error + bool" where
  "meets_target q r rate =
     (if q_incoterm q \<noteq> rfq_incoterm r then Inl (IncotermMismatch (q_incoterm q) (rfq_incoterm r))
      else rbind (unit_price_in q (currency (target_unit_price r)) rate) (\<lambda>converted.
        Inr (minor converted \<le> minor (target_unit_price r))))"

definition order_total :: "quote \<Rightarrow> u32 \<Rightarrow> sourcing_error + money" where
  "order_total q n =
     (if n < moq q then Inl (BelowMoq n (moq q))
      else map_err Sourcing_Money (checked_mul_int (unit_price q) (ucast n)))"

record supplier_message =
  sm_supplier_id :: supplier_id
  sm_rfq_id :: rfq_id
  sm_round :: u32
  sm_message :: canonical_message

definition supplier_message_inbound ::
  "supplier_id \<Rightarrow> rfq_id \<Rightarrow> u32 \<Rightarrow> canonical_message \<Rightarrow> sourcing_error + supplier_message" where
  "supplier_message_inbound s r n m =
     (if cm_direction m \<noteq> Inbound then Inl (Sourcing_NotInbound (cm_direction m))
      else Inr \<lparr>sm_supplier_id = s, sm_rfq_id = r, sm_round = n, sm_message = m\<rparr>)"

definition supplier_message_taint :: "supplier_message \<Rightarrow> trust_label" where
  "supplier_message_taint m = Untrusted_label"

section \<open>Negotiation\<close>

fun negotiation_state_str :: "negotiation_state \<Rightarrow> ustr" where
  "negotiation_state_str Opened = lit ''opened''"
| "negotiation_state_str Quoted = lit ''quoted''"
| "negotiation_state_str Countered = lit ''countered''"
| "negotiation_state_str Accepted = lit ''accepted''"
| "negotiation_state_str Declined = lit ''declined''"
| "negotiation_state_str Withdrawn = lit ''withdrawn''"
| "negotiation_state_str Lapsed = lit ''lapsed''"

definition negotiation_terminal :: "negotiation_state \<Rightarrow> bool" where
  "negotiation_terminal s \<longleftrightarrow> s = Accepted \<or> s = Declined \<or> s = Withdrawn \<or> s = Lapsed"

datatype negotiation_event =
    QuoteReceived live_quote
  | CounterSent
  | Ev_Accepted live_quote
  | DeclinedBySupplier
  | WithdrawnByBuyer
  | Ev_Lapsed

fun negotiation_label :: "negotiation_event \<Rightarrow> ustr" where
  "negotiation_label (QuoteReceived _) = lit ''receive a quote''"
| "negotiation_label CounterSent = lit ''send a counter''"
| "negotiation_label (Ev_Accepted _) = lit ''accept''"
| "negotiation_label DeclinedBySupplier = lit ''record a decline''"
| "negotiation_label WithdrawnByBuyer = lit ''withdraw''"
| "negotiation_label Ev_Lapsed = lit ''lapse''"

fun event_quote :: "negotiation_event \<Rightarrow> quote option" where
  "event_quote (QuoteReceived q) = Some (live q)"
| "event_quote (Ev_Accepted q) = Some (live q)"
| "event_quote _ = None"

fun negotiation_transition :: "negotiation_state \<Rightarrow> negotiation_event \<Rightarrow> negotiation_state option" where
  "negotiation_transition s (QuoteReceived _) =
     (if s = Opened \<or> s = Quoted \<or> s = Countered then Some Quoted else None)"
| "negotiation_transition s CounterSent = (if s = Quoted then Some Countered else None)"
| "negotiation_transition s (Ev_Accepted _) = (if s = Quoted then Some Accepted else None)"
| "negotiation_transition s DeclinedBySupplier =
     (if s = Opened \<or> s = Quoted \<or> s = Countered then Some Declined else None)"
| "negotiation_transition s WithdrawnByBuyer =
     (if s = Opened \<or> s = Quoted \<or> s = Countered then Some Withdrawn else None)"
| "negotiation_transition s Ev_Lapsed =
     (if s = Opened \<or> s = Quoted \<or> s = Countered then Some Lapsed else None)"

record negotiation =
  n_rfq_id :: rfq_id
  n_supplier_id :: supplier_id
  n_state :: negotiation_state
  round :: u32
  n_opened_at :: timestamp
  n_updated_at :: timestamp

definition negotiation_open :: "rfq_id \<Rightarrow> supplier_id \<Rightarrow> timestamp \<Rightarrow> negotiation" where
  "negotiation_open r s tm = \<lparr>n_rfq_id = r, n_supplier_id = s, n_state = Opened, round = 1,
     n_opened_at = tm, n_updated_at = tm\<rparr>"

definition negotiation_apply ::
  "negotiation \<Rightarrow> negotiation_event \<Rightarrow> timestamp \<Rightarrow> sourcing_error + negotiation" where
  "negotiation_apply n ev tm =
     (if (case event_quote ev of None \<Rightarrow> False
          | Some q \<Rightarrow> q_rfq_id q \<noteq> n_rfq_id n \<or> q_supplier_id q \<noteq> n_supplier_id n)
      then Inl QuoteMismatch
      else rbind (ok_or (negotiation_transition (n_state n) ev)
               (Sourcing_IllegalTransition (n_state n) (negotiation_label ev))) (\<lambda>next_state.
        Inr (n\<lparr>round := (if ev = CounterSent then round n + 1 else round n),
          n_state := next_state, n_updated_at := tm\<rparr>)))"

section \<open>Lemmas\<close>

text \<open>A rate as \<open>new\<close> makes it; its parts are not zero.\<close>

definition rate_ok :: "exchange_rate \<Rightarrow> bool" where
  "rate_ok r \<longleftrightarrow> xr_from r \<noteq> xr_to r \<and> numerator r \<noteq> 0 \<and> denominator r \<noteq> 0"

lemma exchange_rate_new_Inr_iff:
  "exchange_rate_new f t n d = Inr r \<longleftrightarrow>
     rate_ok r \<and> xr_from r = f \<and> xr_to r = t \<and> numerator r = n \<and> denominator r = d"
  by (cases r) (auto simp: exchange_rate_new_def rate_ok_def)

definition rate_scaled :: "exchange_rate \<Rightarrow> money \<Rightarrow> nat" where
  "rate_scaled r amt = nat_of_money amt * unat (numerator r) * unat (minor_per_major (xr_to r))"

definition rate_divisor :: "exchange_rate \<Rightarrow> nat" where
  "rate_divisor r = unat (denominator r) * unat (minor_per_major (xr_from r))"

lemma minor_per_major_bounds: "1 \<le> unat (minor_per_major c)" "unat (minor_per_major c) \<le> 100"
  using exponent_cases [of c] by (auto simp: unat_minor_per_major)

lemma unat_ucast_u64 [simp]: "unat (ucast (w :: u64) :: 128 word) = unat w"
proof (rule unat_ucast_small)
  show "unat w < 2 ^ LENGTH(128)" using less_trans [OF unat_u64_less [of w]] by simp
qed

lemma rate_divisor_bounds: "rate_ok r \<Longrightarrow> 0 < rate_divisor r" "rate_divisor r < 2 ^ 71"
proof -
  show "rate_ok r \<Longrightarrow> 0 < rate_divisor r"
    using minor_per_major_bounds(1) [of "xr_from r"] by (simp add: rate_divisor_def rate_ok_def neq_0_nat)
  have "rate_divisor r < 2 ^ 64 * 128"
    unfolding rate_divisor_def
    using minor_per_major_bounds(2) [of "xr_from r"] by (intro mult_strict_mono) simp_all
  then show "rate_divisor r < 2 ^ 71" by simp
qed

lemma unat_divisor:
  "unat (ucast (denominator r) * ucast (minor_per_major (xr_from r)) :: 128 word) = rate_divisor r"
  using rate_divisor_bounds(2) [of r]
  by (simp add: unat_word_ariths rate_divisor_def)

lemma checked_scaled:
  "Option.bind (u_checked_mul (ucast (minor amt) :: 128 word) (ucast (numerator r)))
     (\<lambda>v. u_checked_mul v (ucast (minor_per_major (xr_to r)))) = Some v \<longleftrightarrow> unat v = rate_scaled r amt"
  (is "?l \<longleftrightarrow> ?r")
proof
  show "?l \<Longrightarrow> ?r" by (auto simp: bind_eq_Some_conv u_checked_mul_Some rate_scaled_def)
  assume r: ?r
  have "nat_of_money amt * unat (numerator r) \<le> rate_scaled r amt"
    using minor_per_major_bounds(1) [of "xr_to r"] by (simp add: rate_scaled_def)
  also have "\<dots> < 2 ^ 128" using r unat_eq_less [of v] by simp
  finally have "nat_of_money amt * unat (numerator r) < 2 ^ 128" .
  then have "unat (word_of_nat (nat_of_money amt * unat (numerator r)) :: 128 word) =
      nat_of_money amt * unat (numerator r)"
    by (rule unat_word_of_nat_u128)
  with r show ?l
    by (auto simp: bind_eq_Some_conv u_checked_mul_Some rate_scaled_def
        simp del: of_nat_mult
        intro!: exI [of _ "word_of_nat (nat_of_money amt * unat (numerator r)) :: 128 word"])
qed

text \<open>The quotient the code computes, with the wrap-around of the 128-bit sum.\<close>

lemma rounded_quotient:
  fixes v d :: "128 word"
  assumes "unat d < 2 ^ 71" and "0 < unat d"
  shows "unat ((v + d div 2) div d) =
    (if unat v + unat d div 2 < 2 ^ 128 then (unat v + unat d div 2) div unat d else 0)"
proof -
  have h: "unat (d div 2) = unat d div 2" by (simp add: unat_div)
  have v: "unat v < 2 ^ 128" using unat_eq_less [of v] by simp
  have half: "unat d div 2 < unat d" using assms(2) by simp
  have small: "unat d < 2 ^ 128" using assms(1) by simp
  show ?thesis
  proof (cases "unat v + unat d div 2 < 2 ^ 128")
    case True
    then have "unat (v + d div 2) = unat v + unat d div 2" by (simp add: unat_word_ariths h)
    with True show ?thesis by (simp add: unat_div)
  next
    case False
    have "unat (v + d div 2) = (unat v + unat d div 2) mod 2 ^ 128"
      unfolding unat_word_ariths(1) h by simp
    also have "\<dots> = unat v + unat d div 2 - 2 ^ 128"
    proof -
      have "unat v + unat d div 2 - 2 ^ 128 < 2 ^ 128" using v half small by linarith
      with False show ?thesis by (simp add: le_mod_geq)
    qed
    also have "\<dots> < unat d" using v half by linarith
    finally show ?thesis using False by (simp add: unat_div)
  qed
qed

lemma convert_Inr_iff:
  assumes "rate_ok r"
  shows "convert r amt = Inr m \<longleftrightarrow> currency amt = xr_from r \<and> currency m = xr_to r \<and> money_ok m \<and>
    rate_scaled r amt + rate_divisor r div 2 < 2 ^ 128 \<and>
    nat_of_money m = (rate_scaled r amt + rate_divisor r div 2) div rate_divisor r"
proof -
  let ?d = "ucast (denominator r) * ucast (minor_per_major (xr_from r)) :: 128 word"
  have d: "unat ?d < 2 ^ 71" "0 < unat ?d" using rate_divisor_bounds [of r] assms by (simp_all add: unat_divisor)
  have q: "unat ((v + ?d div 2) div ?d) = (if rate_scaled r amt + rate_divisor r div 2 < 2 ^ 128
      then (rate_scaled r amt + rate_divisor r div 2) div rate_divisor r else 0)"
    if "unat v = rate_scaled r amt" for v
    using rounded_quotient [OF d, of v] that by (simp add: unat_divisor)
  have u: "unat (ucast (w :: 128 word) :: u64) = unat w" if "unat w < 2 ^ 64" for w
    using that by (intro unat_ucast_small) simp
  show ?thesis (is "?l \<longleftrightarrow> ?r")
  proof
    assume ?l
    then obtain v where c: "currency amt = xr_from r" and v: "unat v = rate_scaled r amt"
      and lt: "unat ((v + ?d div 2) div ?d) < 2 ^ 64"
      and m: "ucast ((v + ?d div 2) div ?d) \<noteq> (0::u64)"
        "m = \<lparr>minor = ucast ((v + ?d div 2) div ?d), currency = xr_to r\<rparr>"
      by (auto simp: convert_def Let_def rbind_eq_Inr_iff ok_or_eq_Inr_iff checked_scaled split: if_splits)
    from m u [OF lt] have "nat_of_money m = unat ((v + ?d div 2) div ?d)" "0 < nat_of_money m"
      by (simp_all add: neq_0_nat)
    with c m(2) q [OF v] show ?r by (auto simp: money_ok_nat split: if_splits)
  next
    assume r: ?r
    then have "rate_scaled r amt < 2 ^ 128" by simp
    then have v: "unat (word_of_nat (rate_scaled r amt) :: 128 word) = rate_scaled r amt" (is "unat ?v = _")
      by (rule unat_word_of_nat_u128)
    from r q [OF v] have n: "unat ((?v + ?d div 2) div ?d) = nat_of_money m" by simp
    then have lt: "unat ((?v + ?d div 2) div ?d) < 2 ^ 64" by simp
    have "ucast ((?v + ?d div 2) div ?d) = minor m"
      using u [OF lt] n by (simp add: word_unat_eq_iff)
    moreover have "Option.bind (u_checked_mul (ucast (minor amt) :: 128 word) (ucast (numerator r)))
       (\<lambda>v. u_checked_mul v (ucast (minor_per_major (xr_to r)))) = Some ?v"
      using v by (simp add: checked_scaled)
    ultimately show ?l
      using r lt by (cases m) (simp add: convert_def Let_def money_ok_def)
  qed
qed

text \<open>The negotiation as an object over its table: an event arrives with its instant.\<close>

definition negotiation_call :: "negotiation \<Rightarrow> negotiation_event \<times> timestamp \<Rightarrow> sourcing_error + negotiation" where
  "negotiation_call n c = negotiation_apply n (fst c) (snd c)"

lemma negotiation_apply_InrD:
  assumes "negotiation_apply n ev tm = Inr n'"
  shows "negotiation_transition (n_state n) ev = Some (n_state n') \<and>
    n_rfq_id n' = n_rfq_id n \<and> n_supplier_id n' = n_supplier_id n \<and>
    (\<forall>q. event_quote ev = Some q \<longrightarrow> q_rfq_id q = n_rfq_id n \<and> q_supplier_id q = n_supplier_id n)"
  using assms
  by (auto simp: negotiation_apply_def rbind_eq_Inr_iff ok_or_eq_Inr_iff split: if_splits option.splits)

lemma negotiation_transition_not_terminal:
  "negotiation_transition s ev = Some t \<Longrightarrow> \<not> negotiation_terminal s"
  by (cases ev) (auto simp: negotiation_terminal_def split: if_splits)

interpretation negotiation: object_machine negotiation_transition negotiation_terminal negotiation_call n_state
  "\<lambda>_. True"
proof (unfold_locales, goal_cases)
  case 1
  then show ?case using negotiation_transition_not_terminal by blast
next
  case 3
  then show ?case using negotiation_apply_InrD unfolding negotiation_call_def by blast
qed simp

fun_cases negotiation_acceptedE: "negotiation_transition s (Ev_Accepted q) = Some t"
fun_cases negotiation_quotedE: "negotiation_transition s (QuoteReceived q) = Some t"

definition quote_for :: "negotiation \<Rightarrow> live_quote \<Rightarrow> bool" where
  "quote_for n q \<longleftrightarrow> q_rfq_id (live q) = n_rfq_id n \<and> q_supplier_id (live q) = n_supplier_id n"

text \<open>What a negotiation's state says about the events it has seen.\<close>

fun state_explained :: "negotiation \<Rightarrow> (negotiation_event \<times> timestamp) set \<Rightarrow> negotiation_state \<Rightarrow> bool" where
  "state_explained n evs Accepted =
     ((\<exists>q tm. (QuoteReceived q, tm) \<in> evs \<and> quote_for n q) \<and> (\<exists>q tm. (Ev_Accepted q, tm) \<in> evs \<and> quote_for n q))"
| "state_explained n evs Quoted = (\<exists>q tm. (QuoteReceived q, tm) \<in> evs \<and> quote_for n q)"
| "state_explained n evs Countered = (\<exists>q tm. (QuoteReceived q, tm) \<in> evs \<and> quote_for n q)"
| "state_explained n evs Declined = (\<exists>tm. (DeclinedBySupplier, tm) \<in> evs)"
| "state_explained n evs Withdrawn = (\<exists>tm. (WithdrawnByBuyer, tm) \<in> evs)"
| "state_explained n evs Lapsed = (\<exists>tm. (Ev_Lapsed, tm) \<in> evs)"
| "state_explained n evs Opened = True"

lemma state_explained_mono: "state_explained n evs s \<Longrightarrow> evs \<subseteq> evs' \<Longrightarrow> state_explained n evs' s"
  by (cases s; simp) blast+

lemma state_explained_step:
  assumes "negotiation_transition s ev = Some t" and "state_explained n evs s"
    and "\<And>q. event_quote ev = Some (live q) \<Longrightarrow> quote_for n q"
  shows "state_explained n (insert (ev, tm) evs) t"
proof (cases ev)
  case (Ev_Accepted q)
  with assms show ?thesis by (auto split: if_splits)
qed (use assms in \<open>auto split: if_splits\<close>)

lemma negotiation_run_explained:
  assumes "state_explained n evs (n_state n)"
  shows "state_explained n (evs \<union> set cs) (n_state (run negotiation_call n cs)) \<and>
    n_rfq_id (run negotiation_call n cs) = n_rfq_id n \<and>
    n_supplier_id (run negotiation_call n cs) = n_supplier_id n"
  using assms
proof (induction cs arbitrary: n evs)
  case Nil
  then show ?case by simp
next
  case (Cons c cs)
  obtain ev tm where c: "c = (ev, tm)" by (cases c)
  show ?case
  proof (cases "negotiation_call n c")
    case (Inl e)
    from Cons.IH [OF Cons.prems] Inl show ?thesis by (auto elim: state_explained_mono)
  next
    case (Inr y)
    then have y: "negotiation_transition (n_state n) ev = Some (n_state y)" "n_rfq_id y = n_rfq_id n"
        "n_supplier_id y = n_supplier_id n" "\<And>q. event_quote ev = Some (live q) \<Longrightarrow> quote_for n q"
      using negotiation_apply_InrD [of n ev tm y] by (auto simp: negotiation_call_def c quote_for_def)
    have same: "state_explained y = state_explained n"
    proof (rule ext)+
      fix evs s show "state_explained y evs s = state_explained n evs s"
        using y(2,3) by (cases s) (simp_all add: quote_for_def)
    qed
    from state_explained_step [OF y(1) Cons.prems y(4)]
    have "state_explained y (insert c evs) (n_state y)" by (simp add: same c)
    from Cons.IH [OF this] Inr y show ?thesis by (simp add: same)
  qed
qed

section \<open>Properties\<close>

text \<open>C26. A conversion is the exact quotient rounded half up, on the true product: it is returned
  exactly when the amount is in the rate's currency, the rounded value is positive and fits 64 bits,
  and the 128-bit sum does not wrap; a wrapped sum is refused and never becomes an amount.\<close>

theorem convert_exact:
  assumes "exchange_rate_new f t num den = Inr r"
  shows "(convert r amt = Inr m \<longleftrightarrow> currency amt = f \<and> currency m = t \<and> 0 < nat_of_money m \<and>
      rate_scaled r amt + rate_divisor r div 2 < 2 ^ 128 \<and>
      nat_of_money m = (rate_scaled r amt + rate_divisor r div 2) div rate_divisor r) \<and>
    (convert r amt = Inr m \<longrightarrow>
      2 * nat_of_money m * rate_divisor r \<le> 2 * rate_scaled r amt + rate_divisor r \<and>
      2 * rate_scaled r amt < 2 * nat_of_money m * rate_divisor r + rate_divisor r + 2)"
proof -
  from assms have ok: "rate_ok r" and c: "xr_from r = f" "xr_to r = t" by (simp_all add: exchange_rate_new_Inr_iff)
  let ?d = "rate_divisor r" and ?s = "rate_scaled r amt"
  have d: "0 < ?d" by (rule rate_divisor_bounds(1) [OF ok])
  have "2 * n * ?d \<le> 2 * ?s + ?d \<and> 2 * ?s < 2 * n * ?d + ?d + 2" if n: "n = (?s + ?d div 2) div ?d" for n
  proof -
    have "n * ?d + (?s + ?d div 2) mod ?d = ?s + ?d div 2" unfolding n by (rule div_mult_mod_eq)
    moreover have "(?s + ?d div 2) mod ?d < ?d" using d by simp
    moreover have "2 * n * ?d = 2 * (n * ?d)" by simp
    ultimately show ?thesis by linarith
  qed
  then show ?thesis
    unfolding convert_Inr_iff [OF ok] c money_ok_nat by blast
qed

theorem convert_exact_witness:
  "\<exists>r. exchange_rate_new EUR JPY 16123 100 = Inr r \<and>
     convert r \<lparr>minor = 1050, currency = EUR\<rparr> = Inr \<lparr>minor = 1693, currency = JPY\<rparr>"
proof -
  let ?r = "\<lparr>xr_from = EUR, xr_to = JPY, numerator = 16123, denominator = 100\<rparr>"
  have r: "exchange_rate_new EUR JPY 16123 100 = Inr ?r" by (simp add: exchange_rate_new_def)
  from convert_exact [OF r, of "\<lparr>minor = 1050, currency = EUR\<rparr>" "\<lparr>minor = 1693, currency = JPY\<rparr>"]
  have "convert ?r \<lparr>minor = 1050, currency = EUR\<rparr> = Inr \<lparr>minor = 1693, currency = JPY\<rparr>"
    by (simp add: rate_scaled_def rate_divisor_def minor_per_major_def)
  with r show ?thesis by blast
qed

text \<open>C27. A negotiation follows its table and can account for its state: over any sequence of events
  it stays on the table's paths and keeps its request and supplier; it is accepted only after a quote
  of that supplier for that request was received and accepted; and once terminal nothing moves it.\<close>

theorem negotiation_sound:
  "let n = negotiation_open r s tm; n' = run negotiation_call n evs in
   reaches negotiation_transition Opened (n_state n') \<and> n_rfq_id n' = r \<and> n_supplier_id n' = s \<and>
   state_explained n (set evs) (n_state n') \<and>
   (negotiation_terminal (n_state n') \<longrightarrow> (\<forall>c. \<exists>e. negotiation_call n' c = Inl e))"
proof -
  let ?n = "negotiation_open r s tm"
  let ?n' = "run negotiation_call ?n evs"
  have open_s: "n_state ?n = Opened" "n_rfq_id ?n = r" "n_supplier_id ?n = s"
    by (simp_all add: negotiation_open_def)
  have "\<exists>e. negotiation_call ?n' c = Inl e" if "negotiation_terminal (n_state ?n')" for c
  proof (cases "negotiation_call ?n' c")
    case (Inr y)
    then have "negotiation_apply ?n' (fst c) (snd c) = Inr y" by (simp add: negotiation_call_def)
    from negotiation_apply_InrD [OF this] negotiation_transition_not_terminal that show ?thesis by blast
  qed blast
  with negotiation.run_reaches [of ?n evs] negotiation_run_explained [of ?n "{}" evs] open_s
  show ?thesis by (simp add: Let_def)
qed

theorem negotiation_sound_witness:
  "\<exists>e. negotiation_call (run negotiation_call (negotiation_open (RfqId 1) (SupplierId 2) 0) [(DeclinedBySupplier, 1)])
     (WithdrawnByBuyer, 2) = Inl e"
proof -
  have "negotiation_terminal (n_state (run negotiation_call (negotiation_open (RfqId 1) (SupplierId 2) 0) [(DeclinedBySupplier, 1)]))"
    by (simp add: negotiation_call_def negotiation_apply_def negotiation_open_def negotiation_terminal_def)
  with negotiation_sound [of "RfqId 1" "SupplierId 2" 0 "[(DeclinedBySupplier, 1)]"]
  show ?thesis unfolding Let_def by blast
qed

section \<open>Reputation\<close>

fun is_delivery :: "supplier_evidence \<Rightarrow> bool" where
  "is_delivery (Delivery _ _) = True"
| "is_delivery _ = False"

fun is_on_time :: "supplier_evidence \<Rightarrow> bool" where
  "is_on_time (Delivery quoted actual) = (actual \<le> quoted)"
| "is_on_time _ = False"

fun slip_of :: "supplier_evidence \<Rightarrow> nat" where
  "slip_of (Delivery quoted actual) = unat actual - unat quoted"
| "slip_of _ = 0"

fun is_response :: "channel \<Rightarrow> supplier_evidence \<Rightarrow> bool" where
  "is_response c (Response c' _) = (c = c')"
| "is_response c _ = False"

lemma observed_snoc [simp]: "observed (es @ [e]) = observe (observed es) e"
  by (simp add: observed_def)

lemma unat_plus_1: "unat (w :: u32) + 1 < 2 ^ 32 \<Longrightarrow> unat (w + 1) = unat w + 1"
  by (simp add: unat_word_ariths)

lemma length_filter_lt: "length es < n \<Longrightarrow> length (filter p es) < n"
  by (rule le_less_trans [OF length_filter_le])

lemma observed_counts:
  assumes "length es < 2 ^ 32"
  shows "unat (deliveries (observed es)) = length (filter is_delivery es) \<and>
    unat (on_time (observed es)) = length (filter is_on_time es) \<and>
    unat (disputes (observed es)) = length (filter (\<lambda>e. e = Dispute) es) \<and>
    (\<forall>c. (case responses (observed es) c of None \<Rightarrow> 0 | Some s \<Rightarrow> unat (rst_count s)) =
      length (filter (is_response c) es))"
  using assms
proof (induction es rule: rev_induct)
  case Nil
  show ?case by (simp add: observed_def reputation_default_def)
next
  case (snoc e es)
  then have len: "length es + 1 < 2 ^ 32" and
    IH: "unat (deliveries (observed es)) = length (filter is_delivery es)"
      "unat (on_time (observed es)) = length (filter is_on_time es)"
      "unat (disputes (observed es)) = length (filter (\<lambda>e. e = Dispute) es)"
      "\<And>c. (case responses (observed es) c of None \<Rightarrow> 0 | Some s \<Rightarrow> unat (rst_count s)) =
        length (filter (is_response c) es)"
    by simp_all
  have step: "unat (w + 1) = length (filter p es) + 1" if "unat (w :: u32) = length (filter p es)" for w p
    using that len le_less_trans [OF add_le_mono1 [OF length_filter_le [of p es]], of 1 "2 ^ 32"]
    by (subst unat_plus_1) simp_all
  show ?case
  proof (cases e)
    case (Delivery quoted actual)
    with IH step [OF IH(1)] step [OF IH(2)] show ?thesis by (simp add: Let_def)
  next
    case (Response c latency)
    have "unat ((case responses (observed es) c of None \<Rightarrow> 0 | Some s \<Rightarrow> rst_count s) + 1) =
        length (filter (is_response c) es) + 1"
      using IH(4) [of c] by (intro step) (simp split: option.splits)
    with Response IH show ?thesis by (auto simp: Let_def split: option.splits)
  next
    case Dispute
    with IH step [OF IH(3)] show ?thesis by simp
  qed
qed

text \<open>A reputation counts what was observed, whatever the order of the evidence: with fewer than
  \<open>2^32\<close> observations no counter wraps, deliveries, on-time deliveries, disputes and the responses of
  every channel are the numbers recorded, and the on-time rate is the true quotient, at most 1000.\<close>

theorem reputation_counts:
  assumes "length es < 2 ^ 32"
  shows "unat (deliveries (observed es)) = length (filter is_delivery es) \<and>
    unat (on_time (observed es)) = length (filter is_on_time es) \<and>
    unat (disputes (observed es)) = length (filter (\<lambda>e. e = Dispute) es) \<and>
    (\<forall>c. (case responses (observed es) c of None \<Rightarrow> 0 | Some s \<Rightarrow> unat (rst_count s)) =
      length (filter (is_response c) es)) \<and>
    (case on_time_permille (observed es) of
       None \<Rightarrow> filter is_delivery es = []
     | Some q \<Rightarrow> unat q = length (filter is_on_time es) * 1000 div length (filter is_delivery es) \<and> unat q \<le> 1000)"
proof -
  let ?r = "observed es" and ?t = "length (filter is_on_time es)" and ?d = "length (filter is_delivery es)"
  note counts = observed_counts [OF assms]
  have sub: "is_on_time e \<Longrightarrow> is_delivery e" for e by (cases e) simp_all
  then have td: "?t \<le> ?d" by (induction es) auto
  have t32: "?t < 2 ^ 32" "?d < 2 ^ 32" using assms by (simp_all add: length_filter_lt)
  have up: "unat (ucast w :: u64) = unat w" for w :: u32
    using unat_eq_less [of w] by (intro unat_ucast_small) simp
  have "case on_time_permille ?r of None \<Rightarrow> filter is_delivery es = []
     | Some q \<Rightarrow> unat q = ?t * 1000 div ?d \<and> unat q \<le> 1000"
  proof (cases "?d = 0")
    case True
    with counts have "deliveries ?r = 0" by (simp add: unsigned_eq_0_iff)
    with True show ?thesis by (simp add: on_time_permille_def)
  next
    case False
    with counts have nz: "deliveries ?r \<noteq> 0" by (auto simp: neq_0_nat)
    let ?q = "(ucast (on_time ?r) * 1000 :: u64) div ucast (deliveries ?r)"
    have "unat (ucast (on_time ?r) * 1000 :: u64) = ?t * 1000"
      using counts t32 by (simp add: unat_word_ariths up)
    then have q: "unat ?q = ?t * 1000 div ?d" using counts by (simp add: unat_div up)
    have "?t * 1000 div ?d \<le> ?d * 1000 div ?d" using td by (intro div_le_mono) simp
    with False have le: "?t * 1000 div ?d \<le> 1000" by simp
    with q have "unat ?q < 2 ^ 32" by simp
    moreover from this have "unat (ucast ?q :: u32) = unat ?q" by (intro unat_ucast_small) simp
    ultimately show ?thesis using nz q le by (simp add: on_time_permille_def Let_def)
  qed
  with counts show ?thesis by blast
qed

theorem reputation_counts_witness:
  "unat (deliveries (observed [Delivery 10 9, Dispute, Delivery 10 12])) = 2 \<and>
   unat (on_time (observed [Delivery 10 9, Dispute, Delivery 10 12])) = 1"
  using reputation_counts [of "[Delivery 10 9, Dispute, Delivery 10 12]"] by simp

end
