(* ===== verification/Revenue.thy ===== *)
theory Revenue
  imports Sourcing
begin

text \<open>
  \<open>crates/domain/src/revenue.rs\<close>: accounts and contacts with their opt-out, evidence about a
  prospect's product with its freshness, prospect messages, objections and how they are resolved,
  and the pipeline of an opportunity. The URL parser is a parameter; calendar dates are day
  numbers, time deltas are integers in the unit of the time stamps. The lemmas show that a
  suppressed contact is no outreach target, that evidence is a reproducible finding, and that an
  opportunity follows its table with its objections, value and accepted quote in step.
\<close>

section \<open>Vocabulary\<close>

datatype account_id = AccountId uuid
datatype contact_id = ContactId uuid
datatype opportunity_id = OpportunityId uuid

type_synonym time_delta = int
type_synonym naive_date = int

datatype segment = Airline | Ota | CorporateTravel | Insurer | CruiseLine | Tmc

definition segment_all :: "segment list" where
  "segment_all = [Airline, Ota, CorporateTravel, Insurer, CruiseLine, Tmc]"

fun segment_str :: "segment \<Rightarrow> ustr" where
  "segment_str Airline = lit ''airline''"
| "segment_str Ota = lit ''ota''"
| "segment_str CorporateTravel = lit ''corporate_travel''"
| "segment_str Insurer = lit ''insurer''"
| "segment_str CruiseLine = lit ''cruise_line''"
| "segment_str Tmc = lit ''tmc''"

definition carries_liability :: "segment \<Rightarrow> bool" where
  "carries_liability s \<longleftrightarrow> (case s of Airline \<Rightarrow> True | CruiseLine \<Rightarrow> True | _ \<Rightarrow> False)"

datatype current_solution = Nothing | InHouseTable | Competitor "ustr untrusted"

record account =
  ac_id :: account_id
  ac_tenant_id :: tenant_id
  ac_name :: "ustr untrusted"
  ac_segment :: segment
  home_country :: country_code
  markets :: "country_code fset"
  annual_international_bookings :: u64
  ac_current_solution :: current_solution

definition sells_into :: "account \<Rightarrow> country_code \<Rightarrow> bool" where
  "sells_into a market \<longleftrightarrow> market |\<in>| markets a"

definition account_size :: "account \<Rightarrow> u64 option" where
  "account_size a =
     (if annual_international_bookings a = 0 then None else Some (annual_international_bookings a))"

datatype contact_role =
  GroundOps | Product | Engineering | CustomerExperience | TravelManager | Role_Procurement | Executive

datatype lawful_basis = LegitimateInterest | Consent | ExistingRelationship

definition requires_opt_out_notice :: "lawful_basis \<Rightarrow> bool" where
  "requires_opt_out_notice b \<longleftrightarrow> \<not> (case b of ExistingRelationship \<Rightarrow> True | _ \<Rightarrow> False)"

datatype requirement =
  VisaFree u32 | VisaOnArrival | EVisaRequired | EtaRequired | VisaRequired | Refused

definition boardable_on_passport_alone :: "requirement \<Rightarrow> bool" where
  "boardable_on_passport_alone r \<longleftrightarrow> (case r of VisaFree _ \<Rightarrow> True | VisaOnArrival \<Rightarrow> True | _ \<Rightarrow> False)"

fun requirement_str :: "requirement \<Rightarrow> ustr" where
  "requirement_str (VisaFree _) = lit ''visa_free''"
| "requirement_str VisaOnArrival = lit ''visa_on_arrival''"
| "requirement_str EVisaRequired = lit ''e_visa_required''"
| "requirement_str EtaRequired = lit ''eta_required''"
| "requirement_str VisaRequired = lit ''visa_required''"
| "requirement_str Refused = lit ''refused''"

fun requirement_display :: "requirement \<Rightarrow> ustr" where
  "requirement_display (VisaFree n) = lit ''visa free up to '' @ show_word n @ lit '' days''"
| "requirement_display other = requirement_str other"

datatype shown = Stated requirement | Absent

datatype severity = WouldBoardWithoutDocuments | Misinformation | NothingShown

datatype objection =
  Incumbent | Price | BuildNotBuy | Obj_Procurement | Timing | DataQuality | NoAuthority

definition objection_all :: "objection list" where
  "objection_all = [Incumbent, Price, BuildNotBuy, Obj_Procurement, Timing, DataQuality, NoAuthority]"

fun objection_str :: "objection \<Rightarrow> ustr" where
  "objection_str Incumbent = lit ''incumbent''"
| "objection_str Price = lit ''price''"
| "objection_str BuildNotBuy = lit ''build_not_buy''"
| "objection_str Obj_Procurement = lit ''procurement''"
| "objection_str Timing = lit ''timing''"
| "objection_str DataQuality = lit ''data_quality''"
| "objection_str NoAuthority = lit ''no_authority''"

definition binds_the_tenant :: "objection \<Rightarrow> bool" where
  "binds_the_tenant ob \<longleftrightarrow> (case ob of Price \<Rightarrow> True | Obj_Procurement \<Rightarrow> True | _ \<Rightarrow> False)"

datatype resolution = Evidenced | Answered | Escalated | Conceded

datatype stage =
    Sourced | Qualified | Contacted | Engaged | Evaluating | Negotiating
  | Won | Lost | Disqualified | Stage_Suppressed

definition stage_all :: "stage list" where
  "stage_all = [Sourced, Qualified, Contacted, Engaged, Evaluating, Negotiating,
     Won, Lost, Disqualified, Stage_Suppressed]"

fun stage_str :: "stage \<Rightarrow> ustr" where
  "stage_str Sourced = lit ''sourced''"
| "stage_str Qualified = lit ''qualified''"
| "stage_str Contacted = lit ''contacted''"
| "stage_str Engaged = lit ''engaged''"
| "stage_str Evaluating = lit ''evaluating''"
| "stage_str Negotiating = lit ''negotiating''"
| "stage_str Won = lit ''won''"
| "stage_str Lost = lit ''lost''"
| "stage_str Disqualified = lit ''disqualified''"
| "stage_str Stage_Suppressed = lit ''suppressed''"

definition stage_terminal :: "stage \<Rightarrow> bool" where
  "stage_terminal s \<longleftrightarrow> s = Won \<or> s = Lost \<or> s = Disqualified \<or> s = Stage_Suppressed"

datatype revenue_error =
    Suppressed timestamp
  | ChannelUnreachable channel
  | NoReproductionSteps
  | NotAPage ustr
  | BlankQuotation
  | NotAFinding requirement
  | EvidenceStale timestamp timestamp
  | EvidenceFromTheFuture timestamp timestamp
  | EvidenceMismatch
  | MessageMismatch
  | Revenue_NotInbound direction
  | Revenue_IllegalTransition stage ustr
  | UnresolvedObjection objection
  | ObjectionNotRaised objection
  | BindingAnswer objection
  | NoValueYet
  | QuoteAlreadyAccepted
  | Revenue_Money money_error

section \<open>Contacts\<close>

record contact =
  ct_id :: contact_id
  ct_account_id :: account_id
  ct_tenant_id :: tenant_id
  ct_name :: "ustr untrusted"
  ct_role :: contact_role
  ct_channels :: "channel fset"
  basis :: lawful_basis
  opted_out_at :: "timestamp option"
  first_contacted_at :: "timestamp option"

definition contact_new ::
  "contact_id \<Rightarrow> account_id \<Rightarrow> tenant_id \<Rightarrow> ustr untrusted \<Rightarrow> contact_role \<Rightarrow> lawful_basis \<Rightarrow>
   channel list \<Rightarrow> contact" where
  "contact_new i a t n r b chans = \<lparr>ct_id = i, ct_account_id = a, ct_tenant_id = t, ct_name = n,
     ct_role = r, ct_channels = fset_of_list chans, basis = b, opted_out_at = None,
     first_contacted_at = None\<rparr>"

definition opt_out :: "contact \<Rightarrow> timestamp \<Rightarrow> contact" where
  "opt_out c tm = c\<lparr>opted_out_at := Some (case opted_out_at c of None \<Rightarrow> tm | Some first \<Rightarrow> min first tm)\<rparr>"

definition is_suppressed :: "contact \<Rightarrow> bool" where
  "is_suppressed c \<longleftrightarrow> opted_out_at c \<noteq> None"

definition standing_of :: "contact \<Rightarrow> contact_standing" where
  "standing_of c = (if first_contacted_at c \<noteq> None then Known else New)"

definition record_approached :: "contact \<Rightarrow> timestamp \<Rightarrow> contact" where
  "record_approached c tm =
     c\<lparr>first_contacted_at := Some (case first_contacted_at c of None \<Rightarrow> tm | Some first \<Rightarrow> min first tm)\<rparr>"

definition contact_reachable_on :: "contact \<Rightarrow> channel \<Rightarrow> bool" where
  "contact_reachable_on c ch \<longleftrightarrow> ch |\<in>| ct_channels c"

record outreach_target =
  target_contact :: contact
  target_channel :: channel

definition approach :: "contact \<Rightarrow> channel \<Rightarrow> revenue_error + outreach_target" where
  "approach c ch =
     (case opted_out_at c of
        Some since \<Rightarrow> Inl (Suppressed since)
      | None \<Rightarrow>
          if ch |\<notin>| ct_channels c then Inl (ChannelUnreachable ch)
          else Inr \<lparr>target_contact = c, target_channel = ch\<rparr>)"

definition target_basis :: "outreach_target \<Rightarrow> lawful_basis" where
  "target_basis t = basis (target_contact t)"

definition target_standing :: "outreach_target \<Rightarrow> contact_standing" where
  "target_standing t = standing_of (target_contact t)"

definition target_requires_notice :: "outreach_target \<Rightarrow> bool" where
  "target_requires_notice t \<longleftrightarrow> requires_opt_out_notice (basis (target_contact t))"

section \<open>Evidence\<close>

record visa_query =
  passport :: country_code
  destination :: country_code
  travel_date :: naive_date

record reproduction =
  rp_url :: ustr
  rp_steps :: "ustr list"
  rp_checked_at :: timestamp

definition reproduction_new ::
  "(ustr \<Rightarrow> url option) \<Rightarrow> ustr \<Rightarrow> ustr list \<Rightarrow> timestamp \<Rightarrow> revenue_error + reproduction" where
  "reproduction_new parse_url raw steps tm =
     (case parse_url (trim raw) of
        None \<Rightarrow> Inl (NotAPage raw)
      | Some parsed \<Rightarrow>
          if \<not> (url_scheme parsed = lit ''http'' \<or> url_scheme parsed = lit ''https'') \<or> url_host parsed = None
          then Inl (NotAPage raw)
          else let kept = filter (\<lambda>s. s \<noteq> []) (map trim steps) in
            if kept = [] then Inl NoReproductionSteps
            else Inr \<lparr>rp_url = url_text parsed, rp_steps = kept, rp_checked_at = tm\<rparr>)"

record evidence =
  ev_account_id :: account_id
  ev_query :: visa_query
  ev_shown :: shown
  ev_quoted :: "ustr untrusted"
  ev_correct :: requirement
  ev_reproduction :: reproduction

definition evidence_observed ::
  "account_id \<Rightarrow> visa_query \<Rightarrow> shown \<Rightarrow> ustr untrusted \<Rightarrow> requirement \<Rightarrow> reproduction \<Rightarrow>
   revenue_error + evidence" where
  "evidence_observed a q sh quoted correct rep =
     (if (case sh of Stated stated \<Rightarrow> stated = correct | Absent \<Rightarrow> False) then Inl (NotAFinding correct)
      else if trim (expose_for_parsing quoted) = [] then Inl BlankQuotation
      else Inr \<lparr>ev_account_id = a, ev_query = q, ev_shown = sh, ev_quoted = quoted, ev_correct = correct,
        ev_reproduction = rep\<rparr>)"

definition severity_of :: "evidence \<Rightarrow> severity" where
  "severity_of e =
     (case ev_shown e of
        Absent \<Rightarrow> NothingShown
      | Stated stated \<Rightarrow>
          if boardable_on_passport_alone stated \<and> \<not> boardable_on_passport_alone (ev_correct e)
          then WouldBoardWithoutDocuments else Misinformation)"

datatype citable = Citable (cited: evidence)

definition citable_at :: "evidence \<Rightarrow> timestamp \<Rightarrow> time_delta \<Rightarrow> revenue_error + citable" where
  "citable_at e tm max_age =
     (let checked_at = rp_checked_at (ev_reproduction e) in
      if checked_at > tm then Inl (EvidenceFromTheFuture checked_at tm)
      else if tm - checked_at > max_age then Inl (EvidenceStale checked_at tm)
      else Inr (Citable e))"

record prospect_message =
  pm_contact_id :: contact_id
  pm_opportunity_id :: opportunity_id
  pm_message :: canonical_message

definition prospect_message_inbound ::
  "contact_id \<Rightarrow> opportunity_id \<Rightarrow> canonical_message \<Rightarrow> revenue_error + prospect_message" where
  "prospect_message_inbound c opp m =
     (if cm_direction m \<noteq> Inbound then Inl (Revenue_NotInbound (cm_direction m))
      else Inr \<lparr>pm_contact_id = c, pm_opportunity_id = opp, pm_message = m\<rparr>)"

definition prospect_message_taint :: "prospect_message \<Rightarrow> trust_label" where
  "prospect_message_taint m = Untrusted_label"

record resolved_objection =
  ro_objection :: objection
  ro_resolution :: resolution

definition resolved :: "objection \<Rightarrow> resolution \<Rightarrow> revenue_error + resolved_objection" where
  "resolved ob r =
     (if binds_the_tenant ob \<and> \<not> (r = Escalated \<or> r = Conceded) then Inl (BindingAnswer ob)
      else Inr \<lparr>ro_objection = ob, ro_resolution = r\<rparr>)"

section \<open>The pipeline\<close>

datatype opportunity_event =
    Ev_Qualified
  | EvidenceSent citable
  | ReplyReceived prospect_message
  | ObjectionRaised objection
  | ObjectionResolved resolved_objection
  | TrialStarted
  | TermsProposed money
  | QuoteIssued money
  | QuoteAccepted money
  | QuoteDeclined
  | Ev_Won money
  | Ev_Declined
  | Ev_Disqualified
  | ContactSuppressed

fun opportunity_label :: "opportunity_event \<Rightarrow> ustr" where
  "opportunity_label Ev_Qualified = lit ''qualify''"
| "opportunity_label (EvidenceSent _) = lit ''send evidence''"
| "opportunity_label (ReplyReceived _) = lit ''receive a reply''"
| "opportunity_label (ObjectionRaised _) = lit ''raise an objection''"
| "opportunity_label (ObjectionResolved _) = lit ''resolve an objection''"
| "opportunity_label TrialStarted = lit ''start a trial''"
| "opportunity_label (TermsProposed _) = lit ''propose terms''"
| "opportunity_label (QuoteIssued _) = lit ''issue a quote''"
| "opportunity_label (QuoteAccepted _) = lit ''accept a quote''"
| "opportunity_label QuoteDeclined = lit ''decline a quote''"
| "opportunity_label (Ev_Won _) = lit ''close''"
| "opportunity_label Ev_Declined = lit ''record a decline''"
| "opportunity_label Ev_Disqualified = lit ''disqualify''"
| "opportunity_label ContactSuppressed = lit ''suppress''"

definition is_prospect_activity :: "opportunity_event \<Rightarrow> bool" where
  "is_prospect_activity ev \<longleftrightarrow>
     (case ev of ReplyReceived _ \<Rightarrow> True | ObjectionRaised _ \<Rightarrow> True | TrialStarted \<Rightarrow> True
      | QuoteAccepted _ \<Rightarrow> True | QuoteDeclined \<Rightarrow> True | Ev_Declined \<Rightarrow> True | _ \<Rightarrow> False)"

text \<open>The three groups of live stages the table speaks of: before a conversation, in one, and both.\<close>

definition early_stage :: "stage \<Rightarrow> bool" where
  "early_stage s \<longleftrightarrow> s = Sourced \<or> s = Qualified \<or> s = Contacted"

definition talking_stage :: "stage \<Rightarrow> bool" where
  "talking_stage s \<longleftrightarrow> s = Engaged \<or> s = Evaluating \<or> s = Negotiating"

fun opportunity_transition :: "stage \<Rightarrow> opportunity_event \<Rightarrow> stage option" where
  "opportunity_transition s Ev_Qualified = (if s = Sourced then Some Qualified else None)"
| "opportunity_transition s (EvidenceSent _) =
     (if s = Qualified \<or> s = Contacted then Some Contacted
      else if talking_stage s then Some s else None)"
| "opportunity_transition s (ReplyReceived _) =
     (if s = Qualified \<or> s = Contacted then Some Engaged
      else if talking_stage s then Some s else None)"
| "opportunity_transition s (ObjectionRaised _) = (if talking_stage s then Some s else None)"
| "opportunity_transition s (ObjectionResolved _) = (if talking_stage s then Some s else None)"
| "opportunity_transition s TrialStarted = (if s = Engaged then Some Evaluating else None)"
| "opportunity_transition s (TermsProposed _) = (if talking_stage s then Some Negotiating else None)"
| "opportunity_transition s (QuoteIssued _) = (if talking_stage s then Some Negotiating else None)"
| "opportunity_transition s (QuoteAccepted _) = (if s = Negotiating then Some Negotiating else None)"
| "opportunity_transition s QuoteDeclined = (if s = Negotiating then Some Negotiating else None)"
| "opportunity_transition s (Ev_Won _) = (if s = Negotiating then Some Won else None)"
| "opportunity_transition s Ev_Declined =
     (if early_stage s \<or> talking_stage s then Some Lost else None)"
| "opportunity_transition s Ev_Disqualified = (if early_stage s then Some Disqualified else None)"
| "opportunity_transition s ContactSuppressed =
     (if early_stage s \<or> talking_stage s then Some Stage_Suppressed else None)"

datatype pulse = Progressing timestamp | Cold timestamp | Closed stage

definition is_cold :: "pulse \<Rightarrow> bool" where
  "is_cold p \<longleftrightarrow> (case p of Cold _ \<Rightarrow> True | _ \<Rightarrow> False)"

record opportunity =
  op_id :: opportunity_id
  op_tenant_id :: tenant_id
  op_account_id :: account_id
  op_stage :: stage
  monthly_value :: "money option"
  accepted_quote :: "money option"
  objections :: "objection \<rightharpoonup> resolution option"
  op_opened_at :: timestamp
  op_updated_at :: timestamp
  last_activity :: "timestamp option"

definition opportunity_open ::
  "opportunity_id \<Rightarrow> tenant_id \<Rightarrow> account_id \<Rightarrow> timestamp \<Rightarrow> opportunity" where
  "opportunity_open i t a tm = \<lparr>op_id = i, op_tenant_id = t, op_account_id = a, op_stage = Sourced,
     monthly_value = None, accepted_quote = None, objections = Map.empty,
     op_opened_at = tm, op_updated_at = tm, last_activity = None\<rparr>"

definition annual_value :: "opportunity \<Rightarrow> revenue_error + money" where
  "annual_value opp =
     rbind (ok_or (monthly_value opp) NoValueYet) (\<lambda>monthly.
       map_err Revenue_Money (checked_mul_int monthly 12))"

text \<open>The keys of the map in the order of \<open>Objection\<close>, as a \<open>BTreeMap\<close> iterates.\<close>

definition open_objections :: "opportunity \<Rightarrow> objection list" where
  "open_objections opp = filter (\<lambda>ob. objections opp ob = Some None) objection_all"

definition last_prospect_activity :: "opportunity \<Rightarrow> timestamp" where
  "last_prospect_activity opp = (case last_activity opp of Some tm \<Rightarrow> tm | None \<Rightarrow> op_opened_at opp)"

definition pulse_at :: "opportunity \<Rightarrow> timestamp \<Rightarrow> time_delta \<Rightarrow> pulse" where
  "pulse_at opp tm cold_after =
     (if stage_terminal (op_stage opp) then Closed (op_stage opp)
      else let since = last_prospect_activity opp in
        if tm - since > cold_after then Cold since else Progressing since)"

definition opportunity_check :: "opportunity \<Rightarrow> opportunity_event \<Rightarrow> revenue_error + unit" where
  "opportunity_check opp ev =
     (case ev of
        EvidenceSent c \<Rightarrow> if ev_account_id (cited c) \<noteq> op_account_id opp then Inl EvidenceMismatch else Inr ()
      | ReplyReceived m \<Rightarrow> if pm_opportunity_id m \<noteq> op_id opp then Inl MessageMismatch else Inr ()
      | ObjectionResolved r \<Rightarrow>
          if objections opp (ro_objection r) = None then Inl (ObjectionNotRaised (ro_objection r)) else Inr ()
      | Ev_Won _ \<Rightarrow>
          (case open_objections opp of [] \<Rightarrow> Inr () | ob # _ \<Rightarrow> Inl (UnresolvedObjection ob))
      | QuoteDeclined \<Rightarrow> if accepted_quote opp \<noteq> None then Inl QuoteAlreadyAccepted else Inr ()
      | _ \<Rightarrow> Inr ())"

fun opportunity_effect :: "opportunity_event \<Rightarrow> opportunity \<Rightarrow> opportunity" where
  "opportunity_effect (ObjectionRaised ob) opp = opp\<lparr>objections := (objections opp)(ob \<mapsto> None)\<rparr>"
| "opportunity_effect (ObjectionResolved r) opp =
     opp\<lparr>objections := (objections opp)(ro_objection r \<mapsto> Some (ro_resolution r))\<rparr>"
| "opportunity_effect (TermsProposed v) opp = opp\<lparr>monthly_value := Some v\<rparr>"
| "opportunity_effect (QuoteIssued v) opp = opp\<lparr>monthly_value := Some v\<rparr>"
| "opportunity_effect (Ev_Won v) opp = opp\<lparr>monthly_value := Some v\<rparr>"
| "opportunity_effect (QuoteAccepted v) opp = opp\<lparr>monthly_value := Some v, accepted_quote := Some v\<rparr>"
| "opportunity_effect _ opp = opp"

definition opportunity_apply ::
  "opportunity \<Rightarrow> opportunity_event \<Rightarrow> timestamp \<Rightarrow> revenue_error + opportunity" where
  "opportunity_apply opp ev tm =
     rbind (opportunity_check opp ev) (\<lambda>_.
     rbind (ok_or (opportunity_transition (op_stage opp) ev)
              (Revenue_IllegalTransition (op_stage opp) (opportunity_label ev))) (\<lambda>next_stage.
       let moved = opportunity_effect ev opp;
           active = (if is_prospect_activity ev then moved\<lparr>last_activity := Some tm\<rparr> else moved)
       in Inr (active\<lparr>op_stage := next_stage, op_updated_at := tm\<rparr>)))"

section \<open>Lemmas\<close>

lemmas stage_groups = early_stage_def talking_stage_def stage_terminal_def

text \<open>The opportunity as an object over its table: an event arrives with its instant.\<close>

definition opportunity_call ::
  "opportunity \<Rightarrow> opportunity_event \<times> timestamp \<Rightarrow> revenue_error + opportunity" where
  "opportunity_call opp c = opportunity_apply opp (fst c) (snd c)"

lemma opportunity_transition_live:
  "opportunity_transition s ev = Some t \<Longrightarrow> \<not> stage_terminal s \<and> (early_stage s \<or> talking_stage s)"
  by (cases ev) (auto simp: stage_groups split: if_splits)

fun_cases transition_wonE: "opportunity_transition s (Ev_Won v) = Some t"
fun_cases transition_disqualifiedE: "opportunity_transition s Ev_Disqualified = Some t"

lemma opportunity_effect_keeps [simp]:
  "op_id (opportunity_effect ev opp) = op_id opp"
  "op_account_id (opportunity_effect ev opp) = op_account_id opp"
  "op_opened_at (opportunity_effect ev opp) = op_opened_at opp"
  "last_activity (opportunity_effect ev opp) = last_activity opp"
  by (cases ev; simp)+

text \<open>What an accepted event did, field by field.\<close>

lemma opportunity_apply_InrD:
  assumes "opportunity_apply opp ev tm = Inr opp'"
  shows "opportunity_check opp ev = Inr () \<and>
    opportunity_transition (op_stage opp) ev = Some (op_stage opp') \<and>
    monthly_value opp' = monthly_value (opportunity_effect ev opp) \<and>
    accepted_quote opp' = accepted_quote (opportunity_effect ev opp) \<and>
    objections opp' = objections (opportunity_effect ev opp) \<and>
    op_id opp' = op_id opp \<and> op_account_id opp' = op_account_id opp \<and>
    op_opened_at opp' = op_opened_at opp \<and>
    last_activity opp' = (if is_prospect_activity ev then Some tm else last_activity opp)"
  using assms
  by (auto simp: opportunity_apply_def rbind_eq_Inr_iff ok_or_eq_Inr_iff Let_def)

lemma open_objections_Nil_iff: "open_objections opp = [] \<longleftrightarrow> (\<forall>ob. objections opp ob \<noteq> Some None)"
proof -
  have "set objection_all = UNIV"
    using objection.exhaust by (auto simp: objection_all_def)
  then show ?thesis by (simp add: open_objections_def filter_empty_conv)
qed

lemma opportunity_check_won:
  "opportunity_check opp (Ev_Won v) = Inr () \<longleftrightarrow> (\<forall>ob. objections opp ob \<noteq> Some None)"
  by (simp add: opportunity_check_def open_objections_Nil_iff [symmetric] split: list.splits)

text \<open>A pipeline's books agree with its stage.\<close>

definition opportunity_ok :: "opportunity \<Rightarrow> bool" where
  "opportunity_ok opp \<longleftrightarrow>
     (op_stage opp = Negotiating \<or> op_stage opp = Won \<longrightarrow> monthly_value opp \<noteq> None) \<and>
     (accepted_quote opp \<noteq> None \<longrightarrow>
        op_stage opp = Negotiating \<or> op_stage opp = Won \<or> op_stage opp = Lost \<or>
        op_stage opp = Stage_Suppressed) \<and>
     (op_stage opp = Won \<longrightarrow> (\<forall>ob. objections opp ob \<noteq> Some None)) \<and>
     (early_stage (op_stage opp) \<or> op_stage opp = Disqualified \<longrightarrow>
        objections opp = Map.empty \<and> monthly_value opp = None)"

lemma opportunity_open_ok: "opportunity_ok (opportunity_open i t a tm)"
  by (simp add: opportunity_ok_def opportunity_open_def)

lemma opportunity_apply_ok:
  assumes "opportunity_ok opp" and "opportunity_apply opp ev tm = Inr opp'"
  shows "opportunity_ok opp'"
proof -
  note d = opportunity_apply_InrD [OF assms(2)]
  have won: "\<forall>ob. objections opp ob \<noteq> Some None" if "ev = Ev_Won v" for v
    using d that by (simp add: opportunity_check_won)
  obtain t where t: "opportunity_transition (op_stage opp) ev = Some t" "op_stage opp' = t"
    using d by blast
  note step = d [THEN conjunct2, THEN conjunct2] t assms(1)
  show ?thesis
    using step won unfolding opportunity_ok_def stage_groups
    by (cases ev; cases "op_stage opp"; simp add: stage_groups; blast?)
qed

interpretation pipeline: object_machine opportunity_transition stage_terminal opportunity_call op_stage
  opportunity_ok
proof (unfold_locales, goal_cases)
  case 1
  then show ?case using opportunity_transition_live by blast
next
  case 2
  then show ?case using opportunity_apply_ok unfolding opportunity_call_def by blast
next
  case 3
  then show ?case using opportunity_apply_InrD unfolding opportunity_call_def by blast
qed

text \<open>Events whose resolutions went through \<open>Objection::resolved\<close>.\<close>

fun event_resolved :: "opportunity_event \<Rightarrow> bool" where
  "event_resolved (ObjectionResolved r) \<longleftrightarrow> resolved (ro_objection r) (ro_resolution r) = Inr r"
| "event_resolved _ \<longleftrightarrow> True"

definition resolutions_ok :: "opportunity \<Rightarrow> bool" where
  "resolutions_ok opp \<longleftrightarrow> (\<forall>ob r. objections opp ob = Some (Some r) \<and> binds_the_tenant ob \<longrightarrow>
     r = Escalated \<or> r = Conceded)"

lemma resolved_Inr_iff:
  "resolved ob r = Inr x \<longleftrightarrow> x = \<lparr>ro_objection = ob, ro_resolution = r\<rparr> \<and>
     (binds_the_tenant ob \<longrightarrow> r = Escalated \<or> r = Conceded)"
  by (auto simp: resolved_def)

lemma opportunity_apply_resolutions:
  assumes "resolutions_ok opp" and "event_resolved ev" and "opportunity_apply opp ev tm = Inr opp'"
  shows "resolutions_ok opp'"
  using assms(1,2) opportunity_apply_InrD [OF assms(3)]
  by (cases ev) (auto simp: resolutions_ok_def resolved_Inr_iff split: if_splits)

lemma run_resolutions:
  assumes "resolutions_ok opp" and "list_all (\<lambda>c. event_resolved (fst c)) cs"
  shows "resolutions_ok (run opportunity_call opp cs)"
  using assms(2)
  by (intro run_preserves [where P = resolutions_ok, OF _ assms(1)])
    (auto simp: list_all_iff opportunity_call_def intro: opportunity_apply_resolutions)

text \<open>Contacts: the operations that change one, and the opt-out they keep.\<close>

datatype contact_op = OptOut timestamp | RecordApproached timestamp

fun contact_apply :: "contact \<Rightarrow> contact_op \<Rightarrow> unit + contact" where
  "contact_apply c (OptOut tm) = Inr (opt_out c tm)"
| "contact_apply c (RecordApproached tm) = Inr (record_approached c tm)"

fun op_instant :: "contact_op \<Rightarrow> timestamp" where
  "op_instant (OptOut tm) = tm"
| "op_instant (RecordApproached tm) = tm"

fun is_opt_out :: "contact_op \<Rightarrow> bool" where
  "is_opt_out (OptOut _) \<longleftrightarrow> True"
| "is_opt_out (RecordApproached _) \<longleftrightarrow> False"

lemma contact_run:
  "opted_out_at (run contact_apply c ops) =
     (let seen = (case opted_out_at c of None \<Rightarrow> [] | Some x \<Rightarrow> [x]) @ map op_instant (filter is_opt_out ops)
      in if seen = [] then None else Some (Min (set seen))) \<and>
   ct_channels (run contact_apply c ops) = ct_channels c"
proof (induction ops arbitrary: c)
  case Nil
  then show ?case by (simp split: option.splits)
next
  case (Cons p ops)
  show ?case
  proof (cases p)
    case (OptOut tm)
    have "Min (insert (min x tm) S) = min x (Min (insert tm S))"
      "min x (Min (insert tm S)) = min tm (Min (insert x S))" if "finite S" for x and S :: "int set"
      using that by (cases "S = {}"; simp add: min.assoc min.left_commute min.commute)+
    with Cons.IH [of "opt_out c tm"] OptOut show ?thesis
      by (auto simp: opt_out_def Let_def split: option.splits)
  next
    case (RecordApproached tm)
    with Cons.IH [of "record_approached c tm"] show ?thesis by (simp add: record_approached_def)
  qed
qed

section \<open>Properties\<close>

text \<open>C28. Over any sequence of events the pipeline follows its table and a closed one stays closed;
  a deal being negotiated or won has a value; it is won only with every objection answered; and an
  objection that binds the tenant (price, procurement) is only ever resolved by escalating or
  conceding it.\<close>

theorem pipeline_sound:
  assumes "list_all (\<lambda>c. event_resolved (fst c)) cs" and "opp = run opportunity_call (opportunity_open i t a tm) cs"
  shows "reaches opportunity_transition Sourced (op_stage opp) \<and>
    (stage_terminal (op_stage opp) \<longrightarrow> op_stage (run opportunity_call opp ds) = op_stage opp) \<and>
    (op_stage opp = Negotiating \<or> op_stage opp = Won \<longrightarrow> monthly_value opp \<noteq> None) \<and>
    (op_stage opp = Won \<longrightarrow> open_objections opp = []) \<and>
    (\<forall>ob r. objections opp ob = Some (Some r) \<and> binds_the_tenant ob \<longrightarrow> r = Escalated \<or> r = Conceded)"
proof -
  have ok: "opportunity_ok opp"
    unfolding assms(2) by (rule pipeline.run_inv [OF opportunity_open_ok])
  have "resolutions_ok opp"
    unfolding assms(2) by (rule run_resolutions [OF _ assms(1)]) (simp add: resolutions_ok_def opportunity_open_def)
  then show ?thesis
    using ok pipeline.final_run [OF ok, of ds] pipeline.run_reaches [OF opportunity_open_ok, of i t a tm cs]
    by (simp add: assms(2) [symmetric] opportunity_ok_def resolutions_ok_def open_objections_Nil_iff)
      (simp add: opportunity_open_def)
qed

text \<open>C29. An accepted quote cannot be un-accepted: whatever happens next, short of another
  acceptance, the accepted figure stays, and a decline of a quote is refused on the spot.\<close>

theorem accepted_quote_kept:
  assumes "accepted_quote opp = Some v" and "\<forall>c\<in>set cs. \<forall>w. fst c \<noteq> QuoteAccepted w"
  shows "accepted_quote (run opportunity_call opp cs) = Some v \<and>
    opportunity_apply (run opportunity_call opp cs) QuoteDeclined tm = Inl QuoteAlreadyAccepted"
proof -
  have "accepted_quote (run opportunity_call opp cs) = Some v"
  proof (rule run_preserves [where P = "\<lambda>o'. accepted_quote o' = Some v"])
    fix x c y
    assume "c \<in> set cs" and x: "accepted_quote x = Some v" and y: "opportunity_call x c = Inr y"
    with assms(2) have "fst c \<noteq> QuoteAccepted w" for w by blast
    then show "accepted_quote y = Some v"
      using opportunity_apply_InrD [OF y [unfolded opportunity_call_def]] x by (cases "fst c") auto
  qed (rule assms(1))
  then show ?thesis by (simp add: opportunity_apply_def opportunity_check_def)
qed

text \<open>Only the prospect keeps an opportunity warm: once it is cold, nothing that we do (evidence,
  terms, quotes, resolutions) at any later instant makes it anything but cold since the same moment,
  or closed.\<close>

theorem our_own_events_never_warm:
  assumes "pulse_at opp tm d = Cold since" and "\<forall>c\<in>set cs. \<not> is_prospect_activity (fst c)" and "tm \<le> tm'"
  shows "pulse_at (run opportunity_call opp cs) tm' d = Cold since \<or>
    (\<exists>s. pulse_at (run opportunity_call opp cs) tm' d = Closed s)"
proof -
  let ?P = "\<lambda>o'. last_activity o' = last_activity opp \<and> op_opened_at o' = op_opened_at opp"
  have "?P (run opportunity_call opp cs)"
  proof (rule run_preserves [where P = ?P])
    fix x c y
    assume "c \<in> set cs" and "?P x" and y: "opportunity_call x c = Inr y"
    then show "?P y"
      using assms(2) opportunity_apply_InrD [OF y [unfolded opportunity_call_def]] by auto
  qed simp
  then have "last_prospect_activity (run opportunity_call opp cs) = last_prospect_activity opp"
    by (simp add: last_prospect_activity_def split: option.splits)
  with assms(1,3) show ?thesis
    by (auto simp: pulse_at_def Let_def split: if_splits)
qed

text \<open>C30. A contact that opted out is never an outreach target again: after any further
  operations an approach on any channel is refused, with the earliest opt-out instant; a contact
  that never opted out is a target on exactly the channels it has.\<close>

theorem suppressed_never_approached:
  "let x = run contact_apply (contact_new i a t n r b chans) ops in
   approach x ch =
    (if list_ex is_opt_out ops then Inl (Suppressed (Min (set (map op_instant (filter is_opt_out ops)))))
     else if ch \<in> set chans then Inr \<lparr>target_contact = x, target_channel = ch\<rparr>
     else Inl (ChannelUnreachable ch))"
proof -
  have "(filter is_opt_out ops = []) = (\<not> list_ex is_opt_out ops)"
    by (induction ops) auto
  then show ?thesis
    using contact_run [of "contact_new i a t n r b chans" ops]
    by (simp add: approach_def contact_new_def Let_def fset_of_list_elem)
qed

text \<open>A citable finding is a real and fresh one: the page is an \<open>http\<close> or \<open>https\<close> URL with a
  host, there is at least one reproduction step and none is blank, what was shown differs from the
  correct requirement and is quoted, and the check is neither in the future nor older than the
  bound; and such a finding is indeed citable.\<close>

theorem citable_iff:
  assumes "reproduction_new parse_url raw steps checked = Inr rep"
  shows "((\<exists>e c. evidence_observed a q sh quoted correct rep = Inr e \<and> citable_at e tm age = Inr c) \<longleftrightarrow>
      sh \<noteq> Stated correct \<and> trim (expose_for_parsing quoted) \<noteq> [] \<and> checked \<le> tm \<and> tm - checked \<le> age) \<and>
    (\<exists>u. parse_url (trim raw) = Some u \<and> url_host u \<noteq> None \<and> rp_url rep = url_text u \<and>
      (url_scheme u = lit ''http'' \<or> url_scheme u = lit ''https'')) \<and>
    rp_steps rep \<noteq> [] \<and> (\<forall>s\<in>set (rp_steps rep). s \<noteq> [] \<and> s \<in> trim ` set steps)"
proof -
  obtain u where u: "parse_url (trim raw) = Some u" "url_host u \<noteq> None"
      "url_scheme u = lit ''http'' \<or> url_scheme u = lit ''https''"
    and rep: "rep = \<lparr>rp_url = url_text u, rp_steps = filter (\<lambda>s. s \<noteq> []) (map trim steps), rp_checked_at = checked\<rparr>"
      "filter (\<lambda>s. s \<noteq> []) (map trim steps) \<noteq> []"
    using assms unfolding reproduction_new_def Let_def
    by (auto split: option.splits if_splits simp del: lit_simps)
  have "(\<exists>e c. evidence_observed a q sh quoted correct rep = Inr e \<and> citable_at e tm age = Inr c) \<longleftrightarrow>
      sh \<noteq> Stated correct \<and> trim (expose_for_parsing quoted) \<noteq> [] \<and> checked \<le> tm \<and> tm - checked \<le> age"
    unfolding rep(1)
    by (cases sh) (auto simp: evidence_observed_def citable_at_def Let_def)
  with u rep show ?thesis by auto
qed

section \<open>A concrete deal\<close>

definition sample_value :: money where "sample_value = \<lparr>minor = 50000, currency = EUR\<rparr>"

definition sample_opportunity :: opportunity where
  "sample_opportunity = opportunity_open (OpportunityId 1) (TenantId 1) (AccountId 7) 100"

definition sample_page :: "ustr \<Rightarrow> url option" where
  "sample_page s = Some \<lparr>url_scheme = lit ''https'', url_host = Some (Host_Domain (lit ''acme.com'')), url_text = s\<rparr>"

definition sample_rep :: reproduction where
  "sample_rep = \<lparr>rp_url = lit ''https://acme.com/'', rp_steps = [lit ''open''], rp_checked_at = 100\<rparr>"

lemma sample_reproduction:
  "reproduction_new sample_page (lit ''https://acme.com/'') [lit '' open'', []] 100 = Inr sample_rep"
  by (simp add: reproduction_new_def sample_page_def sample_rep_def trim_def trim_end_when_def is_whitespace_def)

definition sample_reply :: prospect_message where
  "sample_reply = \<lparr>pm_contact_id = ContactId 1, pm_opportunity_id = OpportunityId 1,
     pm_message = \<lparr>cm_tenant_id = TenantId 1, cm_employee_id = EmployeeId 1,
       cm_conversation_id = ConversationId 1, cm_provider_message_id = ProviderRef (lit ''m1''),
       cm_idempotency_key = IdempotencyKey (lit ''employee:k''), cm_channel = Email,
       cm_direction = Inbound, cm_received_at = 102, cm_from = Untrusted (lit ''p''),
       cm_subject = None, cm_body_text = Untrusted (lit ''ok''), cm_attachments = []\<rparr>\<rparr>"

text \<open>A deal closed with its price objection escalated.\<close>

definition sample_deal :: "(opportunity_event \<times> timestamp) list" where
  "sample_deal =
     [(Ev_Qualified, 101), (ReplyReceived sample_reply, 102), (ObjectionRaised Price, 103),
      (TermsProposed sample_value, 104), (Ev_Won sample_value, 105),
      (ObjectionResolved \<lparr>ro_objection = Price, ro_resolution = Escalated\<rparr>, 106),
      (QuoteAccepted sample_value, 107), (Ev_Won sample_value, 108)]"

lemmas opportunity_evaluate = opportunity_call_def opportunity_apply_def opportunity_check_def
  opportunity_open_def sample_opportunity_def sample_reply_def is_prospect_activity_def talking_stage_def
  open_objections_def objection_all_def rbind_def ok_or_def Let_def

lemma sample_deal_won:
  "op_stage (run opportunity_call sample_opportunity sample_deal) = Won \<and>
   accepted_quote (run opportunity_call sample_opportunity sample_deal) = Some sample_value \<and>
   list_all (\<lambda>c. event_resolved (fst c)) sample_deal"
  by (simp add: sample_deal_def opportunity_evaluate resolved_Inr_iff del: lit_simps)

theorem pipeline_sound_witness:
  "op_stage (run opportunity_call sample_opportunity sample_deal) = Won \<and>
   open_objections (run opportunity_call sample_opportunity sample_deal) = []"
  using pipeline_sound [OF sample_deal_won [THEN conjunct2, THEN conjunct2] refl,
      of "OpportunityId 1" "TenantId 1" "AccountId 7" 100 "[]"] sample_deal_won
  by (simp add: sample_opportunity_def)

theorem accepted_quote_kept_witness:
  "accepted_quote (run opportunity_call (run opportunity_call sample_opportunity sample_deal)
     [(TermsProposed sample_value, 110), (QuoteDeclined, 111)]) = Some sample_value"
  using accepted_quote_kept [OF sample_deal_won [THEN conjunct2, THEN conjunct1],
      of "[(TermsProposed sample_value, 110), (QuoteDeclined, 111)]" 112]
  by simp

theorem our_own_events_never_warm_witness:
  "\<not> (\<exists>since. pulse_at (run opportunity_call sample_opportunity [(Ev_Qualified, 300)]) 400 50 = Progressing since)"
proof -
  have "pulse_at sample_opportunity 200 50 = Cold 100"
    by (simp add: pulse_at_def sample_opportunity_def opportunity_open_def stage_terminal_def last_prospect_activity_def)
  from our_own_events_never_warm [OF this, of "[(Ev_Qualified, 300)]" 400]
  show ?thesis by (auto simp: is_prospect_activity_def)
qed

definition sample_query :: visa_query where
  "sample_query = \<lparr>passport = CountryCode 70 82, destination = CountryCode 85 83, travel_date = 20000\<rparr>"

theorem citable_iff_witness:
  "(\<exists>e c. evidence_observed (AccountId 7) sample_query (Stated VisaOnArrival) (Untrusted [120]) VisaRequired sample_rep = Inr e \<and>
     citable_at e 150 50 = Inr c) \<and>
   \<not> (\<exists>e c. evidence_observed (AccountId 7) sample_query (Stated VisaOnArrival) (Untrusted [120]) VisaRequired sample_rep = Inr e \<and>
     citable_at e 151 50 = Inr c)"
proof -
  have "trim [120] \<noteq> []" by (simp add: trim_def trim_end_when_def is_whitespace_def)
  then show ?thesis
    using citable_iff [OF sample_reproduction, of "AccountId 7" sample_query "Stated VisaOnArrival" "Untrusted [120]"
        VisaRequired 150 50]
      citable_iff [OF sample_reproduction, of "AccountId 7" sample_query "Stated VisaOnArrival" "Untrusted [120]"
        VisaRequired 151 50]
    by simp
qed

text \<open>A figure that was only named can be accepted: no quote has to be issued first.\<close>

lemma accepted_without_quote:
  "accepted_quote (run opportunity_call sample_opportunity
     [(Ev_Qualified, 101), (ReplyReceived sample_reply, 102), (TermsProposed sample_value, 104),
      (QuoteAccepted sample_value, 107)]) = Some sample_value"
  by (simp add: opportunity_evaluate del: lit_simps)

text \<open>The freshness of a finding is judged once: a citation made on day one is sent at any later
  instant.\<close>

lemma stale_citation_sent:
  assumes "citable_at e tm age = Inr c" and "ev_account_id e = op_account_id opp" and "op_stage opp = Qualified"
  shows "\<exists>opp'. opportunity_apply opp (EvidenceSent c) later = Inr opp' \<and> op_stage opp' = Contacted"
  using assms by (auto simp: citable_at_def Let_def opportunity_apply_def opportunity_check_def rbind_def
      ok_or_def split: if_splits)

end
