(* ===== verification/Initiative.thy ===== *)
theory Initiative
  imports Employee
begin

text \<open>
  \<open>crates/domain/src/initiative.rs\<close>: the cadence of an employee's own turns, the next deadline,
  and the ruling whether a turn may start. Durations are nanoseconds as naturals. The arithmetic of
  the crate \<open>chrono\<close> is a parameter: the conversion of a standard duration, the checked addition
  to an instant, and the last instant. The lemmas give the deadline as a saturating sum and bound
  how often an employee can wake itself.
\<close>

section \<open>Definitions\<close>

type_synonym duration = nat

definition nanos :: "nat \<Rightarrow> duration" where
  "nanos s = s * 10 ^ 9"

definition min_interval :: duration where "min_interval = nanos 300"

definition max_interval :: duration where "max_interval = nanos (30 * 24 * 3600)"

definition duration_max :: duration where
  "duration_max = nanos (2 ^ 64 - 1) + 999999999"

datatype cadence_error = TooFast | TooSlow

fun cadence_error_code :: "cadence_error \<Rightarrow> ustr" where
  "cadence_error_code TooFast = lit ''cadence_too_fast''"
| "cadence_error_code TooSlow = lit ''cadence_too_slow''"

datatype cadence = Cadence (interval: duration)

definition cadence_every :: "duration \<Rightarrow> cadence_error + cadence" where
  "cadence_every d =
     (if d < min_interval then Inl TooFast
      else if d > max_interval then Inl TooSlow
      else Inr (Cadence d))"

definition longest_step :: int where
  "longest_step = int (nanos ((2 ^ 63 - 1) div 1000))"

definition advance ::
  "(duration \<Rightarrow> int option) \<Rightarrow> (timestamp \<Rightarrow> int \<Rightarrow> timestamp option) \<Rightarrow> timestamp \<Rightarrow>
   cadence \<Rightarrow> timestamp \<Rightarrow> duration \<Rightarrow> timestamp" where
  "advance from_std checked_add_signed max_utc c start offset =
     (let delta = (case from_std (min (interval c + offset) duration_max) of
                    Some d \<Rightarrow> d | None \<Rightarrow> longest_step)
      in case checked_add_signed start delta of Some t \<Rightarrow> t | None \<Rightarrow> max_utc)"

datatype initiative_ruling = Due | NotYet timestamp | Barred lifecycle

fun initiative_code :: "initiative_ruling \<Rightarrow> ustr" where
  "initiative_code Due = lit ''due''"
| "initiative_code (NotYet _) = lit ''not_yet''"
| "initiative_code (Barred _) = lit ''barred''"

definition initiative :: "lifecycle \<Rightarrow> timestamp \<Rightarrow> timestamp \<Rightarrow> initiative_ruling" where
  "initiative l next_at tm =
     (if l \<noteq> Active then Barred l
      else if next_at > tm then NotYet next_at
      else Due)"

section \<open>Lemmas\<close>

text \<open>What \<open>chrono\<close> documents: \<open>from_std\<close> fails beyond \<open>i64::MAX\<close> milliseconds, a checked addition
  fails beyond the last instant, and the whole range of instants fits a \<open>TimeDelta\<close>.\<close>

definition chrono_documented ::
  "(duration \<Rightarrow> int option) \<Rightarrow> (timestamp \<Rightarrow> int \<Rightarrow> timestamp option) \<Rightarrow> timestamp \<Rightarrow> timestamp \<Rightarrow> bool" where
  "chrono_documented from_std checked_add_signed min_utc max_utc \<longleftrightarrow>
     (\<forall>d. from_std d = (if d \<le> (2 ^ 63 - 1) * 10 ^ 6 then Some (int d) else None)) \<and>
     (\<forall>t\<ge>min_utc. \<forall>d\<ge>0. checked_add_signed t d = (if t + d \<le> max_utc then Some (t + d) else None)) \<and>
     max_utc - min_utc < longest_step"

definition cadence_ok :: "cadence \<Rightarrow> bool" where
  "cadence_ok c \<longleftrightarrow> min_interval \<le> interval c \<and> interval c \<le> max_interval"

lemma cadence_every_Inr_iff: "cadence_every d = Inr c \<longleftrightarrow> c = Cadence d \<and> cadence_ok c"
  by (auto simp: cadence_every_def cadence_ok_def)

lemma advance_saturates:
  assumes "chrono_documented from_std checked_add_signed min_utc max_utc" and "min_utc \<le> start" and "start \<le> max_utc"
  shows "advance from_std checked_add_signed max_utc c start offset =
    min max_utc (start + int (interval c + offset))"
proof -
  let ?d = "min (interval c + offset) duration_max"
  have range: "max_utc - start < longest_step"
    using assms by (auto simp: chrono_documented_def)
  have add: "checked_add_signed start d = (if start + d \<le> max_utc then Some (start + d) else None)" if "0 \<le> d" for d
    using assms that by (auto simp: chrono_documented_def)
  have std: "from_std d = (if d \<le> (2 ^ 63 - 1) * 10 ^ 6 then Some (int d) else None)" for d
    using assms by (auto simp: chrono_documented_def)
  show ?thesis
  proof (cases "?d \<le> (2 ^ 63 - 1) * 10 ^ 6")
    case True
    then have "?d = interval c + offset"
      by (simp add: duration_max_def nanos_def min_def split: if_splits)
    then show ?thesis
      using True by (simp add: advance_def Let_def std add)
  next
    case False
    then have "longest_step \<le> int (interval c + offset)"
      by (simp add: longest_step_def nanos_def duration_max_def min_def split: if_splits)
    then show ?thesis
      using range False by (simp add: advance_def Let_def std add longest_step_def nanos_def)
  qed
qed

text \<open>The instants at which a poller takes a turn up: it asks \<open>initiative\<close> at each instant and,
  when due, stores the next deadline measured from that instant.\<close>

fun taken_up ::
  "(timestamp \<Rightarrow> duration \<Rightarrow> timestamp) \<Rightarrow> lifecycle \<Rightarrow> timestamp \<Rightarrow> (timestamp \<times> duration) list \<Rightarrow>
   timestamp list" where
  "taken_up next_deadline l next_at [] = []"
| "taken_up next_deadline l next_at ((tm, offset) # polls) =
     (if initiative l next_at tm = Due then tm # taken_up next_deadline l (next_deadline tm offset) polls
      else taken_up next_deadline l next_at polls)"

lemma taken_up_after: "tm \<in> set (taken_up nd l next_at polls) \<Longrightarrow>
    (\<And>tm off. (tm, off) \<in> set polls \<Longrightarrow> tm \<le> nd tm off) \<Longrightarrow> next_at \<le> tm"
proof (induction polls arbitrary: next_at)
  case (Cons p polls)
  obtain t off where p: "p = (t, off)" by (cases p)
  show ?case
  proof (cases "initiative l next_at t = Due")
    case True
    then have "next_at \<le> t" by (auto simp: initiative_def split: if_splits)
    moreover have "tm = t \<or> nd t off \<le> tm"
      using Cons.IH [of "nd t off"] Cons.prems True p by auto
    moreover have "t \<le> nd t off"
      using Cons.prems(2) [of t off] p by simp
    ultimately show ?thesis by auto
  next
    case False
    then show ?thesis using Cons p by auto
  qed
qed simp

lemma taken_up_spaced:
  assumes "\<And>tm off. (tm, off) \<in> set polls \<Longrightarrow> tm + gap \<le> nd tm off" and "0 \<le> gap"
  shows "sorted_wrt (\<lambda>a b. a + gap \<le> b) (taken_up nd l next_at polls)"
  using assms(1)
proof (induction polls arbitrary: next_at)
  case (Cons p polls)
  obtain t off where p: "p = (t, off)" by (cases p)
  have le: "x \<le> nd x y" if "(x, y) \<in> set polls" for x y
    using Cons.prems [of x y] that assms(2) by force
  have "t + gap \<le> b" if "b \<in> set (taken_up nd l (nd t off) polls)" for b
    using taken_up_after [OF that le] Cons.prems [of t off] p by force
  with Cons p show ?case by auto
qed simp

lemma taken_up_polled: "set (taken_up nd l next_at polls) \<subseteq> fst ` set polls"
proof (induction polls arbitrary: next_at)
  case (Cons p polls)
  then show ?case by (cases p) (simp add: subset_insertI2)
qed simp

lemma spaced_length:
  assumes "sorted_wrt (\<lambda>a b. a + gap \<le> b) (t # ts)"
  shows "t + int (length ts) * gap \<le> last (t # ts)"
  using assms
proof (induction ts arbitrary: t)
  case (Cons u us)
  from Cons.prems have "t + gap \<le> u" by simp
  moreover from Cons.prems have "u + int (length us) * gap \<le> last (u # us)" by (intro Cons.IH) simp
  ultimately show ?case by (simp add: distrib_right)
qed simp

section \<open>Properties\<close>

text \<open>C31. An employee cannot wake itself more often than its cadence: whatever instants the poller
  asks at and whatever offsets it draws, two turns of its own are at least one interval (hence five
  minutes) apart, so a window holds at most one more than its length divided by the interval, and an
  employee that is not active takes none.\<close>

theorem own_turns_rate_limited:
  assumes "chrono_documented from_std checked_add_signed min_utc max_utc" and "cadence_every d = Inr c"
    and "\<forall>p\<in>set polls. min_utc \<le> fst p \<and> a \<le> fst p \<and> fst p \<le> b" and "b + int d \<le> max_utc"
  shows "sorted_wrt (\<lambda>x y. x + int d \<le> y)
      (taken_up (advance from_std checked_add_signed max_utc c) l next_at polls) \<and>
    int (length (taken_up (advance from_std checked_add_signed max_utc c) l next_at polls)) \<le>
      (if l = Active then 1 + max 0 ((b - a) div int d) else 0) \<and>
    300 * 10 ^ 9 \<le> d"
proof -
  let ?ts = "taken_up (advance from_std checked_add_signed max_utc c) l next_at polls"
  have c: "interval c = d" "min_interval \<le> d"
    using assms(2) by (auto simp: cadence_every_Inr_iff cadence_ok_def)
  then have d: "300 * 10 ^ 9 \<le> d" by (simp add: min_interval_def nanos_def)
  have "tm + int d \<le> advance from_std checked_add_signed max_utc c tm off" if "(tm, off) \<in> set polls" for tm off
    using assms(3,4) that c by (subst advance_saturates [OF assms(1)]) force+
  from taken_up_spaced [OF this] have spaced: "sorted_wrt (\<lambda>x y. x + int d \<le> y) ?ts" by simp
  have polled: "set ?ts \<subseteq> fst ` set polls" by (rule taken_up_polled)
  have barred: "?ts = []" if "l \<noteq> Active"
    using that by (induction polls) (auto simp: initiative_def)
  have "int (length ?ts) \<le> 1 + max 0 ((b - a) div int d)" if ts: "?ts = x # xs" for x xs
  proof -
    have "a \<le> x" "last (x # xs) \<le> b"
      using set_mp [OF polled] ts assms(3) last_in_set [of "x # xs"] by fastforce+
    with spaced_length [OF spaced [unfolded ts]] have "int (length xs) * int d \<le> b - a" by simp
    then have "int (length xs) \<le> (b - a) div int d"
      using d zdiv_mono1 [of "int (length xs) * int d" "b - a" "int d"] by simp
    then show ?thesis by (simp add: ts)
  qed
  with spaced barred d show ?thesis by (cases ?ts) auto
qed

text \<open>Taking a turn up makes it not due, and it comes due again: the next deadline is the
  instant plus interval and offset, cut off at the last instant of the calendar; before it the ruling
  is to wait until exactly then, from it on the turn is due, and a lifecycle other than active is
  barred whatever the clock says.\<close>

theorem deadline_is_a_promise:
  assumes "chrono_documented from_std checked_add_signed min_utc max_utc"
    and "min_utc \<le> start" and "start \<le> max_utc"
  shows "advance from_std checked_add_signed max_utc c start offset =
      min max_utc (start + int (interval c + offset)) \<and>
    initiative l (advance from_std checked_add_signed max_utc c start offset) tm =
      (if l \<noteq> Active then Barred l
       else if max_utc \<le> tm \<or> start + int (interval c + offset) \<le> tm then Due
       else NotYet (min max_utc (start + int (interval c + offset))))"
  unfolding advance_saturates [OF assms] by (auto simp: initiative_def)

section \<open>A concrete clock\<close>

definition sample_from_std :: "duration \<Rightarrow> int option" where
  "sample_from_std d = (if d \<le> (2 ^ 63 - 1) * 10 ^ 6 then Some (int d) else None)"

definition sample_checked_add :: "timestamp \<Rightarrow> int \<Rightarrow> timestamp option" where
  "sample_checked_add t d = (if t + d \<le> 8210266876799999999999 then Some (t + d) else None)"

lemma sample_chrono: "chrono_documented sample_from_std sample_checked_add (- 8334601228800000000000)
    8210266876799999999999"
  by (simp add: chrono_documented_def sample_from_std_def sample_checked_add_def longest_step_def nanos_def)

definition hourly :: cadence where "hourly = Cadence (nanos 3600)"

lemma hourly_every: "cadence_every (nanos 3600) = Inr hourly"
  by (simp add: cadence_every_def hourly_def min_interval_def max_interval_def nanos_def)

theorem own_turns_rate_limited_witness:
  "int (length (taken_up (advance sample_from_std sample_checked_add 8210266876799999999999 hourly) Active 0
     [(0, 5), (60000000000, 0), (3600000000005, 0)])) \<le> 2"
  using own_turns_rate_limited [OF sample_chrono hourly_every,
      of "[(0, 5), (60000000000, 0), (3600000000005, 0)]" 0 3600000000005 Active 0]
  by (simp add: nanos_def)

theorem deadline_is_a_promise_witness:
  "initiative Active (advance sample_from_std sample_checked_add 8210266876799999999999 hourly 0 7) 3600000000006 =
     NotYet 3600000000007"
  using deadline_is_a_promise [OF sample_chrono, of 0 hourly 7 Active 3600000000006, THEN conjunct2]
  by (simp add: hourly_def nanos_def)

end
