(* ===== verification/ModelChoice.thy ===== *)
theory ModelChoice
  imports Policy
begin

text \<open>
  Which model an employee thinks with. \<open>crates/domain/src/model_access.rs\<close>: the paths to a
  provider and the verdict on a key. \<open>crates/app/src/model_choice.rs\<close>: the model one turn asks for,
  from its wake-up, role and trust, and the most capable permitted model that does not exceed it.
  The lemmas compare that choice with \<open>model_for\<close> of the policy.
\<close>

section \<open>Access\<close>

datatype model_path = ApiKey | Cli

definition model_path_all :: "model_path list" where "model_path_all = [ApiKey, Cli]"

fun model_path_str :: "model_path \<Rightarrow> ustr" where
  "model_path_str ApiKey = lit ''api_key''"
| "model_path_str Cli = lit ''cli''"

definition model_path_parse :: "ustr \<Rightarrow> model_path option" where
  "model_path_parse raw = find (\<lambda>p. model_path_str p = raw) model_path_all"

definition is_host :: "model_path \<Rightarrow> bool" where
  "is_host p \<longleftrightarrow> (case p of Cli \<Rightarrow> True | _ \<Rightarrow> False)"

definition needs_secret :: "model_path \<Rightarrow> bool" where
  "needs_secret p \<longleftrightarrow> (case p of ApiKey \<Rightarrow> True | _ \<Rightarrow> False)"

record model_access =
  ma_path :: model_path
  ma_model :: model_id
  verified_at :: timestamp

datatype verdict = Connected | KeyRefused | ModelNotAccessible | Unusable | Unreachable

definition from_provider_code :: "ustr \<Rightarrow> verdict" where
  "from_provider_code c =
     (if c = lit ''unauthorized'' \<or> c = lit ''forbidden'' \<or> c = lit ''cli_not_logged_in'' then KeyRefused
      else if c = lit ''not_found'' then ModelNotAccessible
      else if c = lit ''retryable'' \<or> c = lit ''rate_limited'' then Unreachable
      else Unusable)"

definition is_connected :: "verdict \<Rightarrow> bool" where
  "is_connected v \<longleftrightarrow> (case v of Connected \<Rightarrow> True | _ \<Rightarrow> False)"

fun verdict_code :: "verdict \<Rightarrow> ustr" where
  "verdict_code Connected = lit ''connected''"
| "verdict_code KeyRefused = lit ''key_refused''"
| "verdict_code ModelNotAccessible = lit ''model_not_accessible''"
| "verdict_code Unusable = lit ''unusable''"
| "verdict_code Unreachable = lit ''unreachable''"

section \<open>The model of a turn\<close>

datatype wake = Rhythm | FollowUp | Sequence | Counterparty | Wake_Internal

definition self_started :: "wake \<Rightarrow> bool" where
  "self_started w \<longleftrightarrow> (case w of Rhythm \<Rightarrow> True | FollowUp \<Rightarrow> True | Sequence \<Rightarrow> True | _ \<Rightarrow> False)"

definition quiet_runs_floor :: u32 where "quiet_runs_floor = 2"

record turn_shape =
  ts_wake :: wake
  ts_role :: "ustr option"
  ts_untrusted :: bool
  thread_messages :: u32
  quiet_runs :: u32

definition engages_the_company :: "ustr \<Rightarrow> bool" where
  "engages_the_company role \<longleftrightarrow>
     role = lit ''managing'' \<or> role = lit ''finance'' \<or> role = lit ''international-buyer''"

definition wanted :: "turn_shape \<Rightarrow> model_id" where
  "wanted shape =
     (case ts_role shape of
        None \<Rightarrow> uncharted_model
      | Some role \<Rightarrow>
          if engages_the_company role then Opus5
          else if ts_untrusted shape \<and> self_started (ts_wake shape) then Opus5
          else if ts_wake shape = Rhythm \<and> \<not> ts_untrusted shape \<and> thread_messages shape \<le> 1 \<and>
            quiet_runs shape \<ge> quiet_runs_floor then Haiku45
          else Sonnet5)"

text \<open>\<open>range(..=wanted).next_back()\<close> is the last element of the ordered prefix.\<close>

definition permitted :: "model_id \<Rightarrow> model_id fset \<Rightarrow> model_id option" where
  "permitted w allowed =
     (let xs = sorted_list_of_fset allowed; upto_w = filter (\<lambda>m. m \<le> w) xs in
      if upto_w \<noteq> [] then Some (last upto_w)
      else case xs of [] \<Rightarrow> None | m # _ \<Rightarrow> Some m)"

definition choose_model :: "turn_shape \<Rightarrow> effective_policy option \<Rightarrow> model_id option" where
  "choose_model shape policy =
     (let w = wanted shape in
      case policy of None \<Rightarrow> Some w | Some p \<Rightarrow> permitted w (allowed_models (limits p)))"

section \<open>Lemmas\<close>

lemma model_path_parse_str [simp]: "model_path_parse (model_path_str p) = Some p"
  by (cases p) (simp_all add: model_path_parse_def model_path_all_def)

lemma provider_error_never_connects: "\<not> is_connected (from_provider_code c)"
  by (auto simp: from_provider_code_def is_connected_def)

lemma verdict_code_inj: "verdict_code v = verdict_code w \<longleftrightarrow> v = w"
  by (cases v; cases w) simp_all

lemma set_sorted_fset [simp]: "set (sorted_list_of_fset s) = fset s"
  using sorted_list_of_fset_simps(1) [of s] by simp

lemma sorted_sorted_fset [simp]: "sorted (sorted_list_of_fset s)"
  by (simp add: sorted_list_of_fset.rep_eq)

lemma sorted_fset_Nil_iff: "sorted_list_of_fset s = [] \<longleftrightarrow> s = {||}"
  using set_sorted_fset [of s] by (metis bot_fset.rep_eq fset_inject set_empty)

lemma permitted_None_iff: "permitted w s = None \<longleftrightarrow> s = {||}"
  by (simp add: permitted_def Let_def filter_empty_conv sorted_fset_Nil_iff split: list.splits)
    (auto simp: sorted_fset_Nil_iff [symmetric])

lemma sorted_last_ge: "sorted xs \<Longrightarrow> x \<in> set xs \<Longrightarrow> x \<le> last xs"
  by (induction xs) auto

lemma permitted_SomeD:
  assumes "permitted w s = Some m"
  shows "m |\<in>| s \<and> (\<forall>x. x |\<in>| s \<longrightarrow> (x \<le> w \<longrightarrow> x \<le> m \<and> m \<le> w) \<and> (w < m \<longrightarrow> m \<le> x))"
proof (cases "filter (\<lambda>m. m \<le> w) (sorted_list_of_fset s) = []")
  case True
  then obtain ms where ms: "sorted_list_of_fset s = m # ms"
    using assms by (auto simp: permitted_def Let_def split: list.splits)
  have none: "\<not> x \<le> w" if "x |\<in>| s" for x
    using True that by (simp add: filter_empty_conv)
  have "x |\<in>| s \<longleftrightarrow> x \<in> set (m # ms)" for x
    by (simp flip: ms)
  moreover have "sorted (m # ms)" by (simp flip: ms)
  ultimately show ?thesis using none by auto
next
  case False
  let ?f = "filter (\<lambda>m. m \<le> w) (sorted_list_of_fset s)"
  from False assms have m: "m = last ?f" by (simp add: permitted_def)
  with last_in_set [OF False] have "m |\<in>| s" "m \<le> w" by auto
  moreover have "x \<le> m" if "x |\<in>| s" "x \<le> w" for x
    unfolding m using that by (intro sorted_last_ge) (auto simp: sorted_wrt_filter)
  ultimately show ?thesis by auto
qed

section \<open>Properties\<close>

text \<open>C32. The model of a turn is a permitted one, the most capable that does not exceed what the
  turn asked for; only when every permitted model is dearer is it the cheapest of them. It is refused
  exactly when nothing is permitted, as \<open>model_for\<close> is, it is never less capable than what
  \<open>model_for\<close> gives for the same wish, and both give the wish itself where it is permitted.\<close>

theorem turn_model_correct:
  "case choose_model shape (Some p) of
     None \<Rightarrow> allowed_models (limits p) = {||} \<and> model_for (Some p) (wanted shape) = None
   | Some m \<Rightarrow> m |\<in>| allowed_models (limits p) \<and>
       (\<forall>x|\<in>|allowed_models (limits p).
          (x \<le> wanted shape \<longrightarrow> x \<le> m \<and> m \<le> wanted shape) \<and> (wanted shape < m \<longrightarrow> m \<le> x)) \<and>
       (\<exists>m'. model_for (Some p) (wanted shape) = Some m' \<and>
          (if wanted shape |\<in>| allowed_models (limits p) then m = wanted shape \<and> m' = m else m' \<le> m))"
proof (cases "choose_model shape (Some p)")
  case None
  then have "allowed_models (limits p) = {||}" by (simp add: choose_model_def permitted_None_iff)
  with None show ?thesis by (simp add: model_for_def sorted_fset_Nil_iff [THEN iffD2, OF refl])
next
  case (Some m)
  let ?s = "allowed_models (limits p)"
  from Some have d: "permitted (wanted shape) ?s = Some m" by (simp add: choose_model_def)
  note m = permitted_SomeD [OF d]
  have "\<exists>m'. model_for (Some p) (wanted shape) = Some m' \<and>
      (if wanted shape |\<in>| ?s then m = wanted shape \<and> m' = m else m' \<le> m)"
  proof (cases "wanted shape |\<in>| ?s")
    case True
    then have "m = wanted shape" using m by (metis order.refl order.antisym)
    with True show ?thesis by (simp add: model_for_def)
  next
    case False
    obtain x xs where xs: "sorted_list_of_fset ?s = x # xs"
      using m by (cases "sorted_list_of_fset ?s") (auto simp: sorted_fset_Nil_iff)
    have "m \<in> set (x # xs)" "sorted (x # xs)" using m by (simp_all flip: xs)
    then show ?thesis using False xs by (auto simp: model_for_def)
  qed
  with Some m show ?thesis by auto
qed

theorem turn_model_correct_witness:
  "case choose_model \<lparr>ts_wake = Counterparty, ts_role = None, ts_untrusted = True, thread_messages = 3,
       quiet_runs = 0\<rparr> (Some (EffectivePolicy sample_platform)) of
     None \<Rightarrow> False | Some m \<Rightarrow> m |\<in>| allowed_models sample_platform"
  using turn_model_correct [where p = "EffectivePolicy sample_platform" and
      shape = "\<lparr>ts_wake = Counterparty, ts_role = None, ts_untrusted = True, thread_messages = 3,
        quiet_runs = 0\<rparr>"]
  by (auto simp: sample_platform_def split: option.splits)

end
