(* ===== verification/X402.thy ===== *)
theory X402
  imports Gate
begin

text \<open>
  \<open>crates/app/src/x402.rs\<close>: reading a payment demand out of the body of a 402 response. The JSON
  decoder of \<open>serde_json\<close> with the derived wire type is the parameter \<open>parse_challenge\<close>. The lemmas
  show that an amount is converted without any rounding, that the first priced term is taken, and
  that what comes out cannot be paid: the price table of the build is empty, and the action of a
  demand read from outside is denied by the gate under every policy.
\<close>

section \<open>Definitions\<close>

definition max_challenge_bytes :: nat where "max_challenge_bytes = 64 * 1024"

definition max_field_chars :: nat where "max_field_chars = 200"

record asset =
  as_network :: ustr
  as_address :: ustr
  as_currency :: currency
  as_decimals :: u32

definition priced_assets :: "asset list" where "priced_assets = []"

record demand =
  de_amount :: money
  de_payee :: ustr
  de_memo :: ustr

definition demand_action :: "demand \<Rightarrow> action" where
  "demand_action d = PaymentCreate (de_amount d) (de_payee d)"

datatype challenge_error =
    Unreadable
  | UnsupportedVersion u64
  | NoTerms
  | UnknownAsset
  | Unrepresentable ustr
  | FieldTooLong

fun challenge_error_code :: "challenge_error \<Rightarrow> ustr" where
  "challenge_error_code Unreadable = lit ''unreadable''"
| "challenge_error_code (UnsupportedVersion _) = lit ''unsupported_version''"
| "challenge_error_code NoTerms = lit ''no_terms''"
| "challenge_error_code UnknownAsset = lit ''unknown_asset''"
| "challenge_error_code (Unrepresentable _) = lit ''unrepresentable''"
| "challenge_error_code FieldTooLong = lit ''field_too_long''"

definition x402_version :: u64 where "x402_version = 1"

record terms_wire =
  te_network :: ustr
  te_asset :: ustr
  max_amount_required :: ustr
  pay_to :: ustr
  te_resource :: ustr
  te_description :: ustr

record challenge_wire =
  cw_x402_version :: u64
  accepts :: "terms_wire list"

text \<open>\<open>u128::checked_pow\<close>.\<close>

definition u_checked_pow :: "'a::len word \<Rightarrow> nat \<Rightarrow> 'a word option" where
  "u_checked_pow b n = (if unat b ^ n < 2 ^ LENGTH('a) then Some (b ^ n) else None)"

text \<open>Base units to minor units, still at 128 bits.\<close>

definition wide_minor :: "128 word \<Rightarrow> asset \<Rightarrow> challenge_error + 128 word" where
  "wide_minor units a =
     (let exp = exponent (as_currency a) in
      if exp \<le> as_decimals a then
        rbind (ok_or (u_checked_pow 10 (unat (as_decimals a - exp)))
                 (Unrepresentable (lit ''this asset's precision'')))
          (\<lambda>divisor. if units mod divisor \<noteq> 0
             then Inl (Unrepresentable (lit ''a whole minor unit of this currency''))
             else Inr (units div divisor))
      else
        rbind (ok_or (u_checked_pow 10 (unat (exp - as_decimals a)))
                 (Unrepresentable (lit ''this asset's precision'')))
          (\<lambda>factor. ok_or (u_checked_mul units factor)
             (Unrepresentable (lit ''an amount this size''))))"

definition to_money :: "ustr \<Rightarrow> asset \<Rightarrow> challenge_error + money" where
  "to_money base_units a =
     (let raw = trim base_units in
      if raw = [] \<or> \<not> list_all is_ascii_digit raw then Inl (Unrepresentable (lit ''a whole number of units''))
      else rbind (ok_or (parse_uint raw) (Unrepresentable (lit ''a whole number of units''))) (\<lambda>units.
        rbind (wide_minor units a) (\<lambda>wide.
        if unat wide < 2 ^ 64
        then map_err (\<lambda>err. case err of Zero \<Rightarrow> Unrepresentable (lit ''a payable amount'')
                       | _ \<Rightarrow> Unrepresentable (lit ''an amount this size''))
               (money_new (ucast wide) (as_currency a))
        else Inl (Unrepresentable (lit ''an amount this size'')))))"

definition memo_of :: "terms_wire \<Rightarrow> ustr" where
  "memo_of te =
     (let d = trim (te_description te) in if d = [] then trim (te_resource te) else d)"

definition eq_ignore_ascii_case :: "ustr \<Rightarrow> ustr \<Rightarrow> bool" where
  "eq_ignore_ascii_case a b \<longleftrightarrow> to_ascii_lowercase a = to_ascii_lowercase b"

definition read_terms :: "terms_wire \<Rightarrow> asset list \<Rightarrow> challenge_error + demand" where
  "read_terms te assets =
     rbind (ok_or (find (\<lambda>a. eq_ignore_ascii_case (as_network a) (trim (te_network te)) \<and>
              eq_ignore_ascii_case (as_address a) (trim (te_asset te))) assets) UnknownAsset) (\<lambda>a.
     rbind (to_money (max_amount_required te) a) (\<lambda>amt.
       let payee = trim (pay_to te); memo = memo_of te in
       if payee = [] \<or> memo = [] then Inl Unreadable
       else if length payee > max_field_chars \<or> length memo > max_field_chars then Inl FieldTooLong
       else Inr \<lparr>de_amount = amt, de_payee = payee, de_memo = memo\<rparr>))"

text \<open>The loop over \<open>accepts\<close>, with the refusal it has so far.\<close>

fun first_terms :: "terms_wire list \<Rightarrow> asset list \<Rightarrow> challenge_error \<Rightarrow> challenge_error + demand untrusted" where
  "first_terms [] assets refusal = Inl refusal"
| "first_terms (te # rest) assets refusal =
     (case read_terms te assets of
        Inr d \<Rightarrow> Inr (Untrusted d)
      | Inl why \<Rightarrow> first_terms rest assets why)"

definition read_demand ::
  "(u8 list \<Rightarrow> challenge_wire option) \<Rightarrow> u8 list untrusted \<Rightarrow> asset list \<Rightarrow>
   challenge_error + demand untrusted" where
  "read_demand parse_challenge body assets =
     (let bytes = expose_for_parsing body in
      if length bytes > max_challenge_bytes then Inl Unreadable
      else rbind (ok_or (parse_challenge bytes) Unreadable) (\<lambda>wire.
        if cw_x402_version wire \<noteq> x402_version then Inl (UnsupportedVersion (cw_x402_version wire))
        else if accepts wire = [] then Inl NoTerms
        else first_terms (accepts wire) assets NoTerms))"

section \<open>Lemmas\<close>

lemma unat_power:
  assumes "unat b ^ n < 2 ^ LENGTH('a)"
  shows "unat (b ^ n) = unat (b :: 'a::len word) ^ n"
proof -
  have "b ^ n = word_of_nat (unat b ^ n)" by simp
  with assms show ?thesis by (simp only: unat_of_nat mod_less)
qed

lemma u_checked_pow_Some [word_nat]:
  fixes b c :: "'a::len word"
  shows "u_checked_pow b n = Some c \<longleftrightarrow> unat c = unat b ^ n"
proof
  assume "u_checked_pow b n = Some c"
  then show "unat c = unat b ^ n" by (auto simp: u_checked_pow_def unat_power split: if_splits)
next
  assume c: "unat c = unat b ^ n"
  have "unat b ^ n < 2 ^ LENGTH('a)" using unat_eq_less [OF c] .
  with c show "u_checked_pow b n = Some c" by (simp add: u_checked_pow_def unat_power word_unat_eq_iff)
qed

lemma unat_exponent: "unat (exponent c) \<le> 2"
  by (cases c) simp_all

text \<open>The converted amount, on naturals.\<close>

lemma scale_down_iff:
  fixes u m D E :: nat
  assumes "E \<le> D"
  shows "m * 10 ^ D = u * 10 ^ E \<longleftrightarrow> u mod 10 ^ (D - E) = 0 \<and> m = u div 10 ^ (D - E)"
proof -
  have p: "(10::nat) ^ D = 10 ^ (D - E) * 10 ^ E"
    using assms by (simp flip: power_add)
  have "m * 10 ^ D = u * 10 ^ E \<longleftrightarrow> m * 10 ^ (D - E) = u" unfolding p by simp
  then show ?thesis by auto
qed

lemma scale_up_iff:
  fixes u m D E :: nat
  assumes "D \<le> E"
  shows "m * 10 ^ D = u * 10 ^ E \<longleftrightarrow> m = u * 10 ^ (E - D)"
proof -
  have p: "(10::nat) ^ E = 10 ^ (E - D) * 10 ^ D"
    using assms by (simp flip: power_add)
  show ?thesis unfolding p by simp
qed

lemma wide_minor_iff:
  assumes "0 < unat w"
  shows "wide_minor units a = Inr w \<longleftrightarrow>
    unat w * 10 ^ unat (as_decimals a) = unat units * 10 ^ unat (exponent (as_currency a))"
proof (cases "exponent (as_currency a) \<le> as_decimals a")
  case True
  let ?k = "unat (as_decimals a) - unat (exponent (as_currency a))"
  have k: "unat (as_decimals a - exponent (as_currency a)) = ?k"
    using True by (simp add: unat_sub)
  have le: "unat (exponent (as_currency a)) \<le> unat (as_decimals a)"
    using True by (simp add: word_le_nat_alt)
  show ?thesis
  proof (cases "u_checked_pow (10 :: 128 word) ?k")
    case None
    then have big: "(2::nat) ^ 128 \<le> 10 ^ ?k" by (simp add: u_checked_pow_def split: if_splits)
    have "unat units < 2 ^ 128" using unsigned_less [of units] by simp
    then have "unat units div 10 ^ ?k = 0" using big by simp
    then show ?thesis
      using None assms True by (simp add: wide_minor_def Let_def k scale_down_iff [OF le])
  next
    case (Some dv)
    then have dv: "unat dv = 10 ^ ?k" by (simp add: u_checked_pow_Some)
    show ?thesis
      using True Some
      by (auto simp: wide_minor_def Let_def k scale_down_iff [OF le] word_unat_eq_iff unat_mod unat_div dv)
  qed
next
  case False
  let ?k = "unat (exponent (as_currency a)) - unat (as_decimals a)"
  have le: "as_decimals a \<le> exponent (as_currency a)" using False by simp
  then have k: "unat (exponent (as_currency a) - as_decimals a) = ?k" by (simp add: unat_sub)
  from le have le': "unat (as_decimals a) \<le> unat (exponent (as_currency a))" by (simp add: word_le_nat_alt)
  have "?k \<le> 2" using unat_exponent [of "as_currency a"] by simp
  then have "(10::nat) ^ ?k \<le> 10 ^ 2" by (intro power_increasing) auto
  then have "(10::nat) ^ ?k < 2 ^ 128" by simp
  then have f: "u_checked_pow (10 :: 128 word) ?k = Some (10 ^ ?k)"
    by (simp add: u_checked_pow_def)
  note f = f f [unfolded u_checked_pow_Some]
  show ?thesis
    using False f
    by (simp add: wide_minor_def Let_def k scale_up_iff [OF le'] ok_or_eq_Inr_iff u_checked_mul_Some)
qed

lemma to_money_iff:
  "to_money s a = Inr m \<longleftrightarrow>
     trim s \<noteq> [] \<and> list_all is_ascii_digit (trim s) \<and> dec_val (trim s) < 2 ^ 128 \<and>
     currency m = as_currency a \<and> 0 < nat_of_money m \<and>
     nat_of_money m * 10 ^ unat (as_decimals a) = dec_val (trim s) * 10 ^ unat (exponent (as_currency a))"
    (is "?l \<longleftrightarrow> ?r")
proof (cases "trim s \<noteq> [] \<and> list_all is_ascii_digit (trim s) \<and> dec_val (trim s) < 2 ^ 128")
  case False
  then show ?thesis by (auto simp: to_money_def Let_def parse_uint_digits)
next
  case True
  define units :: "128 word" where "units = word_of_nat (dec_val (trim s))"
  have u: "unat units = dec_val (trim s)" using True by (simp only: units_def unat_word_of_nat_u128)
  have parse: "(parse_uint (trim s) :: 128 word option) = Some units"
    using True by (simp add: parse_uint_digits units_def)
  have "?l \<longleftrightarrow> (\<exists>w. wide_minor units a = Inr w \<and> unat w < 2 ^ 64 \<and> money_new (ucast w) (as_currency a) = Inr m)"
    using True by (auto simp: to_money_def Let_def parse rbind_eq_Inr_iff split: if_splits)
  also have "\<dots> \<longleftrightarrow> (\<exists>w. wide_minor units a = Inr w \<and> 0 < unat w \<and> unat w = nat_of_money m \<and> currency m = as_currency a)"
  proof -
    have "unat w < 2 ^ 64 \<and> money_new (ucast w) (as_currency a) = Inr m \<longleftrightarrow>
        0 < unat w \<and> unat w = nat_of_money m \<and> currency m = as_currency a" for w :: "128 word"
    proof (cases "unat w < 2 ^ 64")
      case True
      then have "unat (ucast w :: u64) = unat w" by (intro unat_ucast_small) simp
      with True show ?thesis
        by (cases m) (auto simp: money_new_def word_unat_eq_iff)
    next
      case False
      then show ?thesis using unat_u64_less [of "minor m"] by (auto simp del: unat_u64_less)
    qed
    then show ?thesis by blast
  qed
  also have "\<dots> \<longleftrightarrow> ?r"
  proof
    assume "\<exists>w. wide_minor units a = Inr w \<and> 0 < unat w \<and> unat w = nat_of_money m \<and> currency m = as_currency a"
    then show ?r using True by (auto simp: wide_minor_iff u)
  next
    assume r: ?r
    define w :: "128 word" where "w = word_of_nat (nat_of_money m)"
    have "nat_of_money m < 2 ^ 128" by (rule less_trans [OF unat_u64_less]) simp
    then have w: "unat w = nat_of_money m" by (simp only: w_def unat_word_of_nat_u128)
    with r have "wide_minor units a = Inr w" by (subst wide_minor_iff) (simp_all add: u)
    with w r show "\<exists>w. wide_minor units a = Inr w \<and> 0 < unat w \<and> unat w = nat_of_money m \<and> currency m = as_currency a"
      by auto
  qed
  finally show ?thesis .
qed

lemma first_terms_cases:
  "first_terms tes assets why =
    (case dropWhile (\<lambda>te. \<not> is_ok (read_terms te assets)) tes of
       [] \<Rightarrow> (if tes = [] then Inl why else rbind (read_terms (last tes) assets) (\<lambda>d. Inr (Untrusted d)))
     | te # _ \<Rightarrow> rbind (read_terms te assets) (\<lambda>d. Inr (Untrusted d)))"
proof (induction tes arbitrary: why)
  case (Cons te tes)
  then show ?case by (cases "read_terms te assets") (auto split: list.splits simp del: dropWhile_eq_Nil_conv)
qed simp

lemma first_terms_Inr:
  "first_terms tes assets why = Inr d \<Longrightarrow> \<exists>te\<in>set tes. read_terms te assets = Inr (expose_for_parsing d)"
  by (induction tes arbitrary: why) (auto split: sum.splits)

lemma read_terms_InrD:
  assumes "read_terms te assets = Inr d"
  shows "(\<exists>a\<in>set assets. to_money (max_amount_required te) a = Inr (de_amount d)) \<and>
    de_payee d = trim (pay_to te) \<and> length (de_payee d) \<in> {1..200} \<and> length (de_memo d) \<in> {1..200}"
proof -
  have len: "length xs \<in> {1..200} \<longleftrightarrow> xs \<noteq> [] \<and> length xs \<le> 200" for xs :: ustr
    by (cases xs) auto
  obtain a amt where a: "a \<in> set assets" "to_money (max_amount_required te) a = Inr amt"
      "d = \<lparr>de_amount = amt, de_payee = trim (pay_to te), de_memo = memo_of te\<rparr>"
      "trim (pay_to te) \<noteq> []" "memo_of te \<noteq> []" "length (trim (pay_to te)) \<le> 200" "length (memo_of te) \<le> 200"
    using assms
    by (auto simp: read_terms_def rbind_eq_Inr_iff ok_or_eq_Inr_iff Let_def max_field_chars_def
        dest!: find_SomeD split: if_splits)
  then show ?thesis unfolding len by auto
qed

lemma untrusted_payment_denied: "is_deny (evaluate p (PaymentCreate amt payee) (ctx\<lparr>trust := Untrusted_label\<rparr>))"
  by (simp add: evaluate_def Let_def)

section \<open>Properties\<close>

text \<open>An amount in base units is converted exactly or not at all: the result is the unique
  positive 64-bit amount of the asset's currency equal to the quoted one as a number, and every
  spelling of digits that has such an amount and fits 128 bits is converted.\<close>

theorem x402_amount_exact:
  "to_money s a = Inr m \<longleftrightarrow>
     trim s \<noteq> [] \<and> list_all is_ascii_digit (trim s) \<and> dec_val (trim s) < 2 ^ 128 \<and>
     currency m = as_currency a \<and> 0 < nat_of_money m \<and>
     nat_of_money m * 10 ^ unat (as_decimals a) = dec_val (trim s) * 10 ^ unat (exponent (as_currency a))"
  by (rule to_money_iff)

text \<open>C33. A demand read from a 402 never pays itself: it states one of the offered terms, in an asset
  of the price table and with payee and memo of 1 to 200 characters, and its payment is denied by the
  gate under every policy in the trust it carries; with the price table of the build, which is
  empty, no body yields a demand at all.\<close>

theorem demand_never_pays:
  assumes "read_demand parse_challenge body assets = Inr d"
  shows "(\<exists>wire te a. parse_challenge (expose_for_parsing body) = Some wire \<and> te \<in> set (accepts wire) \<and>
      a \<in> set assets \<and> to_money (max_amount_required te) a = Inr (de_amount (expose_for_parsing d)) \<and>
      de_payee (expose_for_parsing d) = trim (pay_to te)) \<and>
    length (de_payee (expose_for_parsing d)) \<in> {1..200} \<and> length (de_memo (expose_for_parsing d)) \<in> {1..200} \<and>
    is_deny (evaluate p (demand_action (expose_for_parsing d)) (ctx\<lparr>trust := untrusted_taint d\<rparr>)) \<and>
    assets \<noteq> priced_assets"
proof -
  obtain wire where wire: "parse_challenge (expose_for_parsing body) = Some wire"
    and first: "first_terms (accepts wire) assets NoTerms = Inr d"
    using assms by (auto simp: read_demand_def Let_def rbind_eq_Inr_iff ok_or_eq_Inr_iff split: if_splits)
  from first_terms_Inr [OF first] obtain te where te: "te \<in> set (accepts wire)"
      "read_terms te assets = Inr (expose_for_parsing d)" by blast
  note d = read_terms_InrD [OF te(2)]
  then have "assets \<noteq> priced_assets" by (auto simp: priced_assets_def)
  then show ?thesis
    using wire te(1) d by (auto simp: demand_action_def untrusted_taint_def untrusted_payment_denied)
qed

text \<open>The first term that can be priced wins and the last refusal is reported: a readable
  challenge yields the demand of the first acceptable term of its list, and if there is none, the
  reason of its last term.\<close>

theorem first_acceptable_term_wins:
  assumes "parse_challenge (expose_for_parsing body) = Some wire" and "cw_x402_version wire = x402_version"
    and "length (expose_for_parsing body) \<le> 65536" and "accepts wire \<noteq> []"
  shows "read_demand parse_challenge body assets =
    (case dropWhile (\<lambda>te. \<not> is_ok (read_terms te assets)) (accepts wire) of
       [] \<Rightarrow> rbind (read_terms (last (accepts wire)) assets) (\<lambda>d. Inr (Untrusted d))
     | te # _ \<Rightarrow> rbind (read_terms te assets) (\<lambda>d. Inr (Untrusted d)))"
  using assms by (simp add: read_demand_def max_challenge_bytes_def first_terms_cases)

section \<open>A concrete challenge\<close>

definition usdc :: asset where
  "usdc = \<lparr>as_network = lit ''base'', as_address = lit ''0xab'', as_currency = USD, as_decimals = 6\<rparr>"

definition sample_terms :: "ustr \<Rightarrow> terms_wire" where
  "sample_terms amt = \<lparr>te_network = lit ''Base'', te_asset = lit ''0xAB'', max_amount_required = amt,
     pay_to = lit ''acme'', te_resource = lit ''r'', te_description = []\<rparr>"

definition sample_challenge :: "u8 list \<Rightarrow> challenge_wire option" where
  "sample_challenge bytes = Some \<lparr>cw_x402_version = 1,
     accepts = [sample_terms (lit ''1''), sample_terms (lit ''50000'')]\<rparr>"

definition sample_demand :: "demand untrusted" where
  "sample_demand = Untrusted \<lparr>de_amount = \<lparr>minor = 5, currency = USD\<rparr>, de_payee = lit ''acme'', de_memo = lit ''r''\<rparr>"

lemma usdc_to_money:
  "to_money (lit ''50000'') usdc = Inr \<lparr>minor = 5, currency = USD\<rparr>"
  by (simp add: to_money_iff usdc_def trim_def trim_end_when_def is_whitespace_def is_ascii_digit_def dec_val_def)

text \<open>One unit of a six-decimal asset is no whole cent.\<close>

lemma usdc_dust: "to_money (lit ''1'') usdc \<noteq> Inr m"
  unfolding to_money_iff
  by (simp add: usdc_def trim_def trim_end_when_def is_whitespace_def dec_val_def)

lemmas sample_read_simps = read_terms_def sample_terms_def usdc_def [THEN arg_cong, of as_network]
  usdc_def [THEN arg_cong, of as_address] eq_ignore_ascii_case_def to_ascii_lowercase_def ascii_lower_char_def
  is_ascii_upper_def memo_of_def trim_def trim_end_when_def is_whitespace_def max_field_chars_def

lemma sample_read_terms:
  "read_terms (sample_terms (lit ''50000'')) [usdc] = Inr (expose_for_parsing sample_demand)"
  "\<not> is_ok (read_terms (sample_terms (lit ''1'')) [usdc])"
  using usdc_to_money usdc_dust
  by (auto simp: sample_read_simps sample_demand_def is_ok_iff rbind_eq_Inr_iff)

lemma sample_read: "read_demand sample_challenge (Untrusted []) [usdc] = Inr sample_demand"
proof -
  obtain e where "read_terms (sample_terms (lit ''1'')) [usdc] = Inl e"
    using sample_read_terms(2) by (cases "read_terms (sample_terms (lit ''1'')) [usdc]") auto
  then show ?thesis
    using sample_read_terms(1)
    by (cases sample_demand) (simp add: read_demand_def sample_challenge_def max_challenge_bytes_def
        x402_version_def del: lit_simps)
qed

theorem demand_never_pays_witness:
  "is_deny (evaluate (EffectivePolicy sample_platform) (demand_action (expose_for_parsing sample_demand))
     (sample_ctx\<lparr>trust := untrusted_taint sample_demand\<rparr>))"
  using demand_never_pays [OF sample_read, of "EffectivePolicy sample_platform" sample_ctx] by blast

theorem first_acceptable_term_wins_witness:
  "read_demand sample_challenge (Untrusted []) [usdc] =
   rbind (read_terms (sample_terms (lit ''50000'')) [usdc]) (\<lambda>d. Inr (Untrusted d))"
  using first_acceptable_term_wins [of sample_challenge "Untrusted []"
      "\<lparr>cw_x402_version = 1, accepts = [sample_terms (lit ''1''), sample_terms (lit ''50000'')]\<rparr>" "[usdc]"]
    sample_read_terms
  by (simp add: sample_challenge_def x402_version_def del: lit_simps)

end
