(* ===== verification/Beliefs.thy ===== *)
theory Beliefs
  imports Message Contracts "HOL-Library.List_Lexorder" "HOL-Library.Product_Lexorder"
begin

text \<open>
  \<open>crates/domain/src/psyche/beliefs.rs\<close>: the journal of episodes and the beliefs consolidated out of
  it, in fixed-point hundredths. Unicode lowercasing is a parameter; strings are ordered by code
  point, as their UTF-8 bytes are. The lemmas show that a belief always carries the episodes it
  rests on, that strengths stay clamped, and that the sleep pass is idempotent.
\<close>

section \<open>Definitions\<close>

definition n_consolidation :: nat where "n_consolidation = 3"

definition max_subjects :: nat where "max_subjects = 8"

definition max_sources :: nat where "max_sources = 8"

definition weight_cap_hundredths :: u32 where "weight_cap_hundredths = 200"

datatype subject = Subject (subject_str: ustr)

definition subject_new :: "(ustr \<Rightarrow> ustr) \<Rightarrow> ustr \<Rightarrow> subject" where
  "subject_new lowercase raw = Subject (lowercase (trim raw))"

instantiation subject :: linorder
begin
definition less_eq_subject :: "subject \<Rightarrow> subject \<Rightarrow> bool" where
  "a \<le> b \<longleftrightarrow> subject_str a \<le> subject_str b"
definition less_subject :: "subject \<Rightarrow> subject \<Rightarrow> bool" where
  "a < b \<longleftrightarrow> subject_str a < subject_str b"
instance by standard (auto simp: less_eq_subject_def less_subject_def subject.expand)
end

datatype polarity = Negative | Neutral | Positive

fun polarity_rank :: "polarity \<Rightarrow> nat" where
  "polarity_rank Negative = 0"
| "polarity_rank Neutral = 1"
| "polarity_rank Positive = 2"

lemma polarity_rank_inj [simp]: "polarity_rank a = polarity_rank b \<longleftrightarrow> a = b"
  by (cases a; cases b) simp_all

instantiation polarity :: linorder
begin
definition less_eq_polarity :: "polarity \<Rightarrow> polarity \<Rightarrow> bool" where
  "a \<le> b \<longleftrightarrow> polarity_rank a \<le> polarity_rank b"
definition less_polarity :: "polarity \<Rightarrow> polarity \<Rightarrow> bool" where
  "a < b \<longleftrightarrow> polarity_rank a < polarity_rank b"
instance by standard (auto simp: less_eq_polarity_def less_polarity_def dest: order.antisym)
end

fun opposite :: "polarity \<Rightarrow> polarity" where
  "opposite Negative = Positive"
| "opposite Neutral = Neutral"
| "opposite Positive = Negative"

definition is_neutral :: "polarity \<Rightarrow> bool" where
  "is_neutral p \<longleftrightarrow> (case p of Neutral \<Rightarrow> True | _ \<Rightarrow> False)"

datatype weight = Weight (weight_hundredths: u16)

definition weight_from_hundredths :: "u16 \<Rightarrow> weight" where
  "weight_from_hundredths h = Weight (if h > 1000 then 1000 else h)"

datatype strength = Strength (strength_hundredths: u8)

definition strength_from_hundredths :: "u8 \<Rightarrow> strength" where
  "strength_from_hundredths h = Strength (if h > 100 then 100 else h)"

definition strength_add :: "strength \<Rightarrow> strength \<Rightarrow> strength" where
  "strength_add a b =
     strength_from_hundredths (u_saturating_add (strength_hundredths a) (strength_hundredths b))"

definition strength_sub :: "strength \<Rightarrow> strength \<Rightarrow> strength" where
  "strength_sub a b = Strength (u_saturating_sub (strength_hundredths a) (strength_hundredths b))"

datatype episode_id = EpisodeId u64

record new_episode =
  ne_subjects :: "subject list"
  ne_polarity :: polarity
  ne_weight :: weight
  ne_reported_by :: "subject option"
  ne_summary :: "ustr untrusted"

record episode =
  ep_id :: episode_id
  ep_at :: timestamp
  ep_subjects :: "subject list"
  ep_polarity :: polarity
  ep_weight :: weight
  ep_reported_by :: "subject option"
  ep_summary :: "ustr untrusted"

definition is_first_hand :: "episode \<Rightarrow> bool" where
  "is_first_hand e \<longleftrightarrow> ep_reported_by e = None"

record belief =
  b_subject :: subject
  b_polarity :: polarity
  b_strength :: strength
  episode_count :: u32
  formed_at :: timestamp
  last_reinforced_at :: timestamp
  sources :: "episode_id list"
  first_hand :: bool

record finding =
  f_belief :: belief
  founding :: "episode list"

record provenance =
  pv_subject :: subject
  findings :: "finding list"

record belief_journal =
  episodes :: "episode list"
  consolidated :: "episode_id fset"
  resolved_episodes :: "episode_id fset"
  beliefs :: "belief list"
  next_id :: u64

definition journal_new :: belief_journal where
  "journal_new = \<lparr>episodes = [], consolidated = {||}, resolved_episodes = {||}, beliefs = [], next_id = 0\<rparr>"

definition record_episode :: "belief_journal \<Rightarrow> new_episode \<Rightarrow> timestamp \<Rightarrow> belief_journal \<times> episode_id" where
  "record_episode j new tm =
     (let subjects = take max_subjects (remdups_adj (sort (ne_subjects new)));
          polarity = (if weight_hundredths (ne_weight new) = 0 then Neutral else ne_polarity new);
          i = EpisodeId (next_id j)
      in (j\<lparr>next_id := next_id j + 1, episodes := episodes j @
            [\<lparr>ep_id = i, ep_at = tm, ep_subjects = subjects, ep_polarity = polarity,
              ep_weight = ne_weight new, ep_reported_by = ne_reported_by new, ep_summary = ne_summary new\<rparr>]\<rparr>, i))"

text \<open>The binary search finds the episode because the ids are handed out in order; see
  \<open>journal_ids\<close> below.\<close>

definition episode_of :: "belief_journal \<Rightarrow> episode_id \<Rightarrow> episode option" where
  "episode_of j i = find (\<lambda>e. ep_id e = i) (episodes j)"

definition resolve_episode :: "belief_journal \<Rightarrow> episode_id \<Rightarrow> belief_journal" where
  "resolve_episode j i =
     (if episode_of j i \<noteq> None then j\<lparr>resolved_episodes := finsert i (resolved_episodes j)\<rparr> else j)"

definition truncate_front :: "'a list \<Rightarrow> nat \<Rightarrow> 'a list" where
  "truncate_front items keep = (if length items > keep then drop (length items - keep) items else items)"

text \<open>The episodes still open, filed under each subject, and the groups in the order of the map.\<close>

definition open_episodes :: "belief_journal \<Rightarrow> episode list" where
  "open_episodes j = filter (\<lambda>e. \<not> (is_neutral (ep_polarity e) \<or> ep_id e |\<in>| consolidated j \<or>
     ep_id e |\<in>| resolved_episodes j)) (episodes j)"

definition filed :: "belief_journal \<Rightarrow> ((subject \<times> polarity) \<times> episode) list" where
  "filed j = concat (map (\<lambda>e. map (\<lambda>s. ((s, ep_polarity e), e)) (ep_subjects e)) (open_episodes j))"

definition groups :: "belief_journal \<Rightarrow> ((subject \<times> polarity) \<times> episode list) list" where
  "groups j = map (\<lambda>k. (k, map snd (filter (\<lambda>p. fst p = k) (filed j)))) (sort (remdups (map fst (filed j))))"

definition weight_sum :: "episode list \<Rightarrow> u32" where
  "weight_sum es = foldl (\<lambda>a e. a + min (ucast (weight_hundredths (ep_weight e))) weight_cap_hundredths) 0 es"

definition group_gain :: "episode list \<Rightarrow> strength" where
  "group_gain es = strength_from_hundredths (ucast (min (weight_sum es div 4) 100))"

definition belief_key :: "belief \<Rightarrow> subject \<times> polarity" where
  "belief_key b = (b_subject b, b_polarity b)"

definition strengthen :: "episode list \<Rightarrow> timestamp \<Rightarrow> belief \<Rightarrow> belief" where
  "strengthen es tm b = b\<lparr>
     b_strength := strength_add (b_strength b) (group_gain es),
     episode_count := episode_count b + word_of_nat (length es),
     sources := truncate_front (sources b @ map ep_id es) max_sources,
     last_reinforced_at := tm,
     first_hand := (first_hand b \<or> list_ex is_first_hand es)\<rparr>"

definition form_belief :: "subject \<times> polarity \<Rightarrow> episode list \<Rightarrow> timestamp \<Rightarrow> belief" where
  "form_belief k es tm = \<lparr>b_subject = fst k, b_polarity = snd k, b_strength = group_gain es,
     episode_count = word_of_nat (length es), formed_at = tm, last_reinforced_at = tm,
     sources = truncate_front (map ep_id es) max_sources, first_hand = list_ex is_first_hand es\<rparr>"

text \<open>The belief of the key is reinforced where it stands, or a new one pushed at the end.\<close>

fun reinforce :: "subject \<times> polarity \<Rightarrow> episode list \<Rightarrow> timestamp \<Rightarrow> belief list \<Rightarrow> belief list" where
  "reinforce k es tm [] = [form_belief k es tm]"
| "reinforce k es tm (b # bs) =
     (if belief_key b = k then strengthen es tm b # bs else b # reinforce k es tm bs)"

text \<open>The first opposing belief loses the gain and is removed at zero.\<close>

fun erode :: "subject \<times> polarity \<Rightarrow> strength \<Rightarrow> belief list \<Rightarrow> belief list" where
  "erode k gain [] = []"
| "erode k gain (b # bs) =
     (if belief_key b = k then
        (let s = strength_sub (b_strength b) gain in
         if strength_hundredths s = 0 then bs else b\<lparr>b_strength := s\<rparr> # bs)
      else b # erode k gain bs)"

fun consolidate_group ::
  "timestamp \<Rightarrow> (subject \<times> polarity) \<times> episode list \<Rightarrow> belief_journal \<Rightarrow> belief_journal" where
  "consolidate_group tm (k, es) j =
     (if length es < n_consolidation then j
      else j\<lparr>beliefs := erode (fst k, opposite (snd k)) (group_gain es) (reinforce k es tm (beliefs j)),
        consolidated := consolidated j |\<union>| fset_of_list (map ep_id es)\<rparr>)"

definition consolidate :: "belief_journal \<Rightarrow> timestamp \<Rightarrow> belief_journal" where
  "consolidate j tm =
     (let done_j = fold (consolidate_group tm) (groups j) j
      in done_j\<lparr>beliefs := sort_key belief_key (beliefs done_j)\<rparr>)"

definition why :: "belief_journal \<Rightarrow> subject \<Rightarrow> provenance" where
  "why j s = \<lparr>pv_subject = s, findings = map (\<lambda>b. \<lparr>f_belief = b,
     founding = List.map_filter (episode_of j) (sources b)\<rparr>) (filter (\<lambda>b. b_subject b = s) (beliefs j))\<rparr>"

definition belief_about :: "belief_journal \<Rightarrow> subject \<Rightarrow> polarity \<Rightarrow> belief option" where
  "belief_about j s p = find (\<lambda>b. b_subject b = s \<and> b_polarity b = p) (beliefs j)"

section \<open>Lemmas\<close>

text \<open>The journal as an object with three operations, none of which can fail.\<close>

datatype journal_op = Record new_episode timestamp | Resolve episode_id | Consolidate timestamp

fun journal_apply :: "belief_journal \<Rightarrow> journal_op \<Rightarrow> unit + belief_journal" where
  "journal_apply j (Record new tm) = Inr (fst (record_episode j new tm))"
| "journal_apply j (Resolve i) = Inr (resolve_episode j i)"
| "journal_apply j (Consolidate tm) = Inr (consolidate j tm)"

definition journal_ids :: "belief_journal \<Rightarrow> bool" where
  "journal_ids j \<longleftrightarrow>
     map ep_id (episodes j) = map (\<lambda>i. EpisodeId (word_of_nat i)) [0..<length (episodes j)] \<and>
     next_id j = word_of_nat (length (episodes j))"

text \<open>An episode a belief may rest on.\<close>

definition founds :: "episode \<Rightarrow> subject \<times> polarity \<Rightarrow> bool" where
  "founds e k \<longleftrightarrow> fst k \<in> set (ep_subjects e) \<and> ep_polarity e = snd k \<and> snd k \<noteq> Neutral"

definition belief_ok :: "episode list \<Rightarrow> belief \<Rightarrow> bool" where
  "belief_ok eps b \<longleftrightarrow> unat (strength_hundredths (b_strength b)) \<le> 100 \<and>
     sources b \<noteq> [] \<and> length (sources b) \<le> 8 \<and>
     (\<forall>i\<in>set (sources b). \<exists>e\<in>set eps. ep_id e = i \<and> founds e (belief_key b) \<and>
        (is_first_hand e \<longrightarrow> first_hand b))"

definition beliefs_ok :: "episode list \<Rightarrow> belief list \<Rightarrow> bool" where
  "beliefs_ok eps bs \<longleftrightarrow> (\<forall>b\<in>set bs. belief_ok eps b) \<and> distinct (map belief_key bs)"

definition journal_ok :: "belief_journal \<Rightarrow> bool" where
  "journal_ok j \<longleftrightarrow> journal_ids j \<and> beliefs_ok (episodes j) (beliefs j) \<and> sorted (map belief_key (beliefs j))"

lemma truncate_front_set: "set (truncate_front xs n) \<subseteq> set xs"
  by (simp add: truncate_front_def set_drop_subset)

lemma truncate_front_length [simp]: "length (truncate_front xs n) = min (length xs) n"
  by (simp add: truncate_front_def)

lemma strength_clamped: "unat (strength_hundredths (strength_from_hundredths h)) \<le> 100"
  by (simp add: strength_from_hundredths_def word_le_nat_alt not_less)

lemma strength_sub_le: "unat (strength_hundredths (strength_sub a b)) \<le> unat (strength_hundredths a)"
  by (simp add: strength_sub_def unat_u_saturating_sub)

lemma length_pos_ne: "n_consolidation \<le> length xs \<Longrightarrow> xs \<noteq> []"
  by (auto simp: n_consolidation_def)

lemma form_belief_ok:
  assumes "es \<noteq> []" and "\<forall>e\<in>set es. e \<in> set eps \<and> founds e k"
  shows "belief_ok eps (form_belief k es tm)"
proof -
  have "truncate_front (map ep_id es) max_sources \<noteq> []"
    using assms(1) by (metis length_greater_0_conv length_map max_sources_def min_less_iff_conj
        truncate_front_length zero_less_numeral)
  then show ?thesis
    using assms(2) truncate_front_set [of "map ep_id es" max_sources]
    by (fastforce simp: belief_ok_def form_belief_def group_gain_def strength_clamped belief_key_def
        max_sources_def list_ex_iff)
qed

lemma strengthen_ok:
  assumes "belief_ok eps b" and "\<forall>e\<in>set es. e \<in> set eps \<and> founds e (belief_key b)"
  shows "belief_ok eps (strengthen es tm b)"
proof -
  let ?s = "truncate_front (sources b @ map ep_id es) max_sources"
  have "?s \<noteq> []"
    using assms(1) by (metis append_is_Nil_conv belief_ok_def length_greater_0_conv max_sources_def
        min_less_iff_conj truncate_front_length zero_less_numeral)
  moreover have "\<exists>e\<in>set eps. ep_id e = i \<and> founds e (belief_key b) \<and>
      (is_first_hand e \<longrightarrow> first_hand b \<or> list_ex is_first_hand es)" if "i \<in> set ?s" for i
  proof -
    from that truncate_front_set have "i \<in> set (sources b) \<or> i \<in> ep_id ` set es" by fastforce
    then show ?thesis using assms by (fastforce simp: belief_ok_def list_ex_iff)
  qed
  ultimately show ?thesis
    by (simp add: belief_ok_def strengthen_def belief_key_def strength_add_def strength_clamped max_sources_def)
qed

lemma belief_key_simps [simp]:
  "belief_key (strengthen es tm b) = belief_key b"
  "belief_key (form_belief k es tm) = k"
  "belief_key (b\<lparr>b_strength := s\<rparr>) = belief_key b"
  by (simp_all add: belief_key_def strengthen_def form_belief_def)

lemma reinforce_keys: "belief_key ` set (reinforce k es tm bs) = insert k (belief_key ` set bs)"
  by (induction bs) auto

lemma reinforce_ok:
  assumes "beliefs_ok eps bs" and "es \<noteq> []" and "\<forall>e\<in>set es. e \<in> set eps \<and> founds e k"
  shows "beliefs_ok eps (reinforce k es tm bs)"
  using assms(1)
proof (induction bs)
  case Nil
  then show ?case using form_belief_ok [OF assms(2,3)] by (simp add: beliefs_ok_def)
next
  case (Cons b bs)
  then show ?case
    using reinforce_keys [of k es tm bs] strengthen_ok [of eps b es tm] assms(3)
    by (auto simp: beliefs_ok_def)
qed

lemma erode_subset: "b \<in> set (erode k g bs) \<Longrightarrow> \<exists>a\<in>set bs. b = a \<or> b = a\<lparr>b_strength := strength_sub (b_strength a) g\<rparr>"
  by (induction bs) (auto simp: Let_def split: if_splits)

lemma erode_distinct: "distinct (map belief_key bs) \<Longrightarrow> distinct (map belief_key (erode k g bs))"
proof (induction bs)
  case (Cons b bs)
  have "belief_key ` set (erode k g bs) \<subseteq> belief_key ` set bs"
    by (auto dest!: erode_subset)
  with Cons show ?case by (auto simp: Let_def)
qed simp

lemma erode_ok:
  assumes "beliefs_ok eps bs"
  shows "beliefs_ok eps (erode k g bs)"
proof -
  have "belief_ok eps b" if b: "b \<in> set (erode k g bs)" for b
  proof -
    obtain a where a: "a \<in> set bs" "b = a \<or> b = a\<lparr>b_strength := strength_sub (b_strength a) g\<rparr>"
      using erode_subset [OF b] by blast
    from assms a(1) have "belief_ok eps a" by (simp add: beliefs_ok_def)
    with a(2) strength_sub_le [of "b_strength a" g] show ?thesis
      by (auto simp: belief_ok_def belief_key_def)
  qed
  with assms show ?thesis by (simp add: beliefs_ok_def erode_distinct)
qed

text \<open>The groups: every member is an open episode filed under the key.\<close>

lemma filed_iff: "(k, e) \<in> set (filed j) \<longleftrightarrow> e \<in> set (open_episodes j) \<and> fst k \<in> set (ep_subjects e) \<and> snd k = ep_polarity e"
  by (cases k) (auto simp: filed_def)

lemma open_episodes_iff: "e \<in> set (open_episodes j) \<longleftrightarrow> e \<in> set (episodes j) \<and> ep_polarity e \<noteq> Neutral \<and>
    ep_id e |\<notin>| consolidated j \<and> ep_id e |\<notin>| resolved_episodes j"
  by (auto simp: open_episodes_def is_neutral_def split: polarity.splits)

lemma groups_iff: "(k, es) \<in> set (groups j) \<longleftrightarrow>
    es = map snd (filter (\<lambda>p. fst p = k) (filed j)) \<and> es \<noteq> []"
proof -
  have "map snd (filter (\<lambda>p. fst p = k) (filed j)) \<noteq> [] \<longleftrightarrow> k \<in> fst ` set (filed j)"
    by (force simp: filter_empty_conv)
  then show ?thesis by (auto simp: groups_def)
qed

lemma groups_member:
  "(k, es) \<in> set (groups j) \<Longrightarrow> e \<in> set es \<longleftrightarrow> (k, e) \<in> set (filed j)"
  by (force simp: groups_iff)

lemma groups_found: "(k, es) \<in> set (groups j) \<Longrightarrow> \<forall>e\<in>set es. e \<in> set (episodes j) \<and> founds e k"
  by (auto simp: groups_member filed_iff open_episodes_iff founds_def)

lemma consolidate_group_fields [simp]:
  "episodes (consolidate_group tm g j) = episodes j"
  "resolved_episodes (consolidate_group tm g j) = resolved_episodes j"
  "next_id (consolidate_group tm g j) = next_id j"
  by (cases g; simp)+

lemma fold_fields [simp]:
  "episodes (fold (consolidate_group tm) gs j) = episodes j"
  "resolved_episodes (fold (consolidate_group tm) gs j) = resolved_episodes j"
  "next_id (fold (consolidate_group tm) gs j) = next_id j"
  by (induction gs arbitrary: j) simp_all

lemma fold_consolidated:
  "i |\<in>| consolidated (fold (consolidate_group tm) gs j) \<longleftrightarrow>
     i |\<in>| consolidated j \<or> (\<exists>(k, es)\<in>set gs. n_consolidation \<le> length es \<and> i \<in> ep_id ` set es)"
proof (induction gs arbitrary: j)
  case (Cons g gs)
  then show ?case by (cases g) (auto simp: fset_of_list_elem)
qed simp

lemma fold_beliefs_ok:
  assumes "beliefs_ok (episodes j) (beliefs j)"
    and "\<forall>(k, es)\<in>set gs. \<forall>e\<in>set es. e \<in> set (episodes j) \<and> founds e k"
  shows "beliefs_ok (episodes j) (beliefs (fold (consolidate_group tm) gs j))"
  using assms
proof (induction gs arbitrary: j)
  case (Cons g gs)
  obtain k es where g: "g = (k, es)" by (cases g)
  have "beliefs_ok (episodes j) (beliefs (consolidate_group tm g j))"
  proof (cases "length es < n_consolidation")
    case False
    then have "es \<noteq> []" by (intro length_pos_ne) simp
    with Cons.prems g False show ?thesis by (auto intro!: erode_ok reinforce_ok)
  qed (use Cons.prems g in simp)
  with Cons.IH [of "consolidate_group tm g j"] Cons.prems(2) show ?case by simp
qed simp

lemma sort_key_beliefs_ok: "beliefs_ok eps (sort_key f bs) \<longleftrightarrow> beliefs_ok eps bs"
proof -
  have "distinct (map belief_key (sort_key f bs)) \<longleftrightarrow> distinct (map belief_key bs)"
    by (simp add: distinct_map)
  then show ?thesis by (simp add: beliefs_ok_def)
qed

lemma consolidate_fields [simp]:
  "episodes (consolidate j tm) = episodes j"
  "resolved_episodes (consolidate j tm) = resolved_episodes j"
  "next_id (consolidate j tm) = next_id j"
  "consolidated (consolidate j tm) = consolidated (fold (consolidate_group tm) (groups j) j)"
  by (simp_all add: consolidate_def Let_def)

lemma consolidate_ok: "journal_ok j \<Longrightarrow> journal_ok (consolidate j tm)"
  using fold_beliefs_ok [of j "groups j" tm] groups_found [of _ _ j]
  by (fastforce simp: journal_ok_def journal_ids_def consolidate_def Let_def sort_key_beliefs_ok)

lemma record_ok:
  assumes "journal_ok j"
  shows "journal_ok (fst (record_episode j new tm))"
proof -
  have "belief_ok (episodes j @ [e]) b" if "belief_ok (episodes j) b" for e b
    using that by (fastforce simp: belief_ok_def)
  with assms show ?thesis
    by (simp add: journal_ok_def journal_ids_def beliefs_ok_def record_episode_def Let_def)
qed

lemma resolve_ok: "journal_ok j \<Longrightarrow> journal_ok (resolve_episode j i)"
  by (simp add: resolve_episode_def journal_ok_def journal_ids_def)

lemma journal_apply_ok: "journal_ok j \<Longrightarrow> journal_apply j p = Inr j' \<Longrightarrow> journal_ok j'"
  by (cases p) (auto simp: record_ok consolidate_ok resolve_ok)

lemma journal_new_ok: "journal_ok journal_new"
  by (simp add: journal_ok_def journal_ids_def beliefs_ok_def journal_new_def)

text \<open>Ids are distinct while fewer than \<open>2 ^ 64\<close> episodes were recorded, so the binary search and the
  linear search agree.\<close>

lemma journal_ids_distinct:
  assumes "journal_ids j" and "length (episodes j) \<le> 2 ^ 64"
  shows "distinct (map ep_id (episodes j))"
proof -
  have "inj_on (\<lambda>i. EpisodeId (word_of_nat i)) {0..<length (episodes j)}"
  proof (rule inj_onI)
    fix a b
    assume ab: "a \<in> {0..<length (episodes j)}" "b \<in> {0..<length (episodes j)}"
      and "EpisodeId (word_of_nat a) = EpisodeId (word_of_nat b)"
    then have "unat (word_of_nat a :: u64) = unat (word_of_nat b :: u64)" by simp
    moreover have "a < 2 ^ 64" "b < 2 ^ 64" using ab assms(2) by auto
    ultimately show "a = b" by (simp only: unat_word_of_nat_u64)
  qed
  with assms(1) show ?thesis by (simp add: journal_ids_def distinct_map)
qed

lemma episode_of_iff:
  assumes "distinct (map ep_id (episodes j))"
  shows "episode_of j i = Some e \<longleftrightarrow> e \<in> set (episodes j) \<and> ep_id e = i"
proof
  assume e: "e \<in> set (episodes j) \<and> ep_id e = i"
  then have "y = e" if "y \<in> set (episodes j)" "ep_id y = i" for y
    using assms that unfolding distinct_map by (metis inj_onD)
  with e show "episode_of j i = Some e"
    unfolding episode_of_def by (intro find_unique) blast+
qed (auto simp: episode_of_def dest: find_SomeD)

lemma run_episodes_length:
  "length (episodes (run journal_apply j ops)) \<le> length (episodes j) + length ops"
proof (induction ops arbitrary: j)
  case (Cons p ops)
  have "length (episodes (fst (record_episode j new tm))) \<le> length (episodes j) + 1" for new tm
    by (simp add: record_episode_def Let_def)
  moreover have "episodes (resolve_episode j i) = episodes j" for i
    by (simp add: resolve_episode_def)
  ultimately have "length (episodes (case journal_apply j p of Inl _ \<Rightarrow> j | Inr y \<Rightarrow> y)) \<le> length (episodes j) + 1"
    by (cases p) simp_all
  with Cons.IH [of "case journal_apply j p of Inl _ \<Rightarrow> j | Inr y \<Rightarrow> y"] show ?case by simp
qed simp

lemma run_journal_ok: "journal_ok (run journal_apply journal_new ops)"
  by (rule run_invariant [where P = journal_ok]) (auto intro: journal_apply_ok journal_new_ok)

text \<open>The sleep pass with no group of three is the identity, and after a pass there is none.\<close>

lemma fold_below:
  "\<forall>(k, es)\<in>set gs. length es < n_consolidation \<Longrightarrow> fold (consolidate_group tm) gs j = j"
  by (induction gs) auto

lemma consolidate_below:
  assumes "sorted (map belief_key (beliefs j))" and "\<forall>(k, es)\<in>set (groups j). length es < n_consolidation"
  shows "consolidate j tm = j"
  using assms(1) by (simp add: consolidate_def fold_below [OF assms(2)] sort_key_id_if_sorted)

lemma filed_consolidate:
  "filed (consolidate j tm) = filter (\<lambda>p. ep_id (snd p) |\<notin>| consolidated (consolidate j tm)) (filed j)"
proof -
  let ?c = "consolidated (consolidate j tm)"
  have sub: "i |\<in>| consolidated j \<Longrightarrow> i |\<in>| ?c" for i
    by (simp add: fold_consolidated)
  have "open_episodes (consolidate j tm) = filter (\<lambda>e. ep_id e |\<notin>| ?c) (open_episodes j)"
    using sub by (auto simp: open_episodes_def filter_filter intro!: filter_cong)
  moreover have "concat (map (\<lambda>e. map (\<lambda>s. ((s, ep_polarity e), e)) (ep_subjects e)) (filter (\<lambda>e. ep_id e |\<notin>| ?c) es)) =
      filter (\<lambda>p. ep_id (snd p) |\<notin>| ?c) (concat (map (\<lambda>e. map (\<lambda>s. ((s, ep_polarity e), e)) (ep_subjects e)) es))" for es
    by (induction es) (simp_all add: filter_map o_def)
  ultimately show ?thesis by (simp add: filed_def)
qed

lemma consolidate_leaves_no_group:
  assumes "(k, es) \<in> set (groups (consolidate j tm))"
  shows "length es < n_consolidation"
proof (rule ccontr)
  assume n: "\<not> length es < n_consolidation"
  let ?old = "map snd (filter (\<lambda>p. fst p = k) (filed j))"
  from assms have es: "es = map snd (filter (\<lambda>p. fst p = k) (filed (consolidate j tm)))" "es \<noteq> []"
    unfolding groups_iff by blast+
  have "filter P (filter Q xs) = filter Q (filter P xs)" for P Q and xs :: "((subject \<times> polarity) \<times> episode) list"
    by (simp add: conj_commute)
  then have len: "length es \<le> length ?old"
    unfolding es(1) filed_consolidate length_map by (metis length_filter_le)
  then have "?old \<noteq> []" using es(2) by auto
  then have old: "(k, ?old) \<in> set (groups j)" by (simp add: groups_iff)
  obtain e where "e \<in> set es" using es(2) by (meson ex_in_conv set_empty)
  then have "(k, e) \<in> set (filed j)" "ep_id e |\<notin>| consolidated (consolidate j tm)"
    by (auto simp: es(1) filed_consolidate)
  then have "e \<in> set ?old" by force
  then have "ep_id e \<in> ep_id ` set ?old" by (rule imageI)
  moreover have "n_consolidation \<le> length ?old" using len n by linarith
  ultimately have "ep_id e |\<in>| consolidated (fold (consolidate_group tm) (groups j) j)"
    unfolding fold_consolidated using old by blast
  then have "ep_id e |\<in>| consolidated (consolidate j tm)" by simp
  with \<open>ep_id e |\<notin>| consolidated (consolidate j tm)\<close> show False by blast
qed

section \<open>Properties\<close>

text \<open>C34. A belief always has its reasons: after any operations every belief has a strength of at most
  1.00 and a polarity, no two share subject and polarity, and asking why yields it with one to eight
  recorded episodes, each filed under that subject with that polarity.\<close>

theorem beliefs_have_reasons:
  assumes "length ops \<le> 2 ^ 64"
  shows "\<forall>b\<in>set (beliefs (run journal_apply journal_new ops)).
    unat (strength_hundredths (b_strength b)) \<le> 100 \<and> b_polarity b \<noteq> Neutral \<and>
    belief_about (run journal_apply journal_new ops) (b_subject b) (b_polarity b) = Some b \<and>
    (\<exists>f\<in>set (findings (why (run journal_apply journal_new ops) (b_subject b))).
       f_belief f = b \<and> map ep_id (founding f) = sources b \<and> length (founding f) \<in> {1..8} \<and>
       (\<forall>e\<in>set (founding f). e \<in> set (episodes (run journal_apply journal_new ops)) \<and>
          b_subject b \<in> set (ep_subjects e) \<and> ep_polarity e = b_polarity b))"
proof
  let ?j = "run journal_apply journal_new ops"
  fix b
  assume b: "b \<in> set (beliefs ?j)"
  have ok: "journal_ok ?j" by (rule run_journal_ok)
  then have bok: "belief_ok (episodes ?j) b" and keys: "distinct (map belief_key (beliefs ?j))"
    using b by (auto simp: journal_ok_def beliefs_ok_def)
  have "length (episodes ?j) \<le> 2 ^ 64"
    using run_episodes_length [of journal_new ops] assms by (simp add: journal_new_def)
  with ok have dist: "distinct (map ep_id (episodes ?j))"
    by (intro journal_ids_distinct) (simp_all add: journal_ok_def)
  have found: "\<exists>e. episode_of ?j i = Some e \<and> ep_id e = i \<and> e \<in> set (episodes ?j) \<and> founds e (belief_key b)"
    if "i \<in> set (sources b)" for i
    using bok that by (fastforce simp: belief_ok_def episode_of_iff [OF dist])
  let ?f = "\<lparr>f_belief = b, founding = List.map_filter (episode_of ?j) (sources b)\<rparr>"
  have ids: "map ep_id (List.map_filter (episode_of ?j) is) = is \<and>
      (\<forall>e\<in>set (List.map_filter (episode_of ?j) is). e \<in> set (episodes ?j) \<and> founds e (belief_key b))"
    if "set is \<subseteq> set (sources b)" for "is"
    using that
  proof (induction "is")
    case (Cons i "is")
    then show ?case using found [of i] by (auto simp: map_filter_simps)
  qed (simp add: map_filter_simps)
  note ids = ids [OF subset_refl]
  have "length (List.map_filter (episode_of ?j) (sources b)) = length (sources b)"
    using ids by (metis length_map)
  moreover have "belief_about ?j (b_subject b) (b_polarity b) = Some b"
    unfolding belief_about_def
  proof (rule find_unique [OF b])
    fix y
    assume "y \<in> set (beliefs ?j)" and "b_subject y = b_subject b \<and> b_polarity y = b_polarity b"
    moreover from this(2) have "belief_key y = belief_key b" by (simp add: belief_key_def)
    ultimately show "y = b" using keys b unfolding distinct_map by (blast dest: inj_onD)
  qed simp
  moreover have "?f \<in> set (findings (why ?j (b_subject b)))"
    using b by (auto simp: why_def)
  moreover have "b_polarity b \<noteq> Neutral"
    using bok by (cases "sources b") (auto simp: belief_ok_def founds_def belief_key_def)
  ultimately show "unat (strength_hundredths (b_strength b)) \<le> 100 \<and> b_polarity b \<noteq> Neutral \<and>
    belief_about ?j (b_subject b) (b_polarity b) = Some b \<and>
    (\<exists>f\<in>set (findings (why ?j (b_subject b))).
       f_belief f = b \<and> map ep_id (founding f) = sources b \<and> length (founding f) \<in> {1..8} \<and>
       (\<forall>e\<in>set (founding f). e \<in> set (episodes ?j) \<and>
          b_subject b \<in> set (ep_subjects e) \<and> ep_polarity e = b_polarity b))"
    using bok ids
    by (intro conjI bexI [of _ ?f]) (auto simp: belief_ok_def founds_def belief_key_def Suc_le_eq)
qed

text \<open>C35. The sleep pass is idempotent and needs three concordant open episodes: a second pass, at
  whatever instant, changes nothing, and in any reachable journal where no subject and polarity has
  three open episodes a pass changes nothing at all.\<close>

theorem sleep_pass_idempotent:
  "consolidate (consolidate j tm) tm' = consolidate j tm \<and>
   ((\<forall>k. length (filter (\<lambda>p. fst p = k) (filed (run journal_apply journal_new ops))) < 3) \<longrightarrow>
     consolidate (run journal_apply journal_new ops) tm = run journal_apply journal_new ops)"
proof (intro conjI impI)
  have "sorted (map belief_key (beliefs (consolidate j tm)))"
    by (simp add: consolidate_def Let_def)
  then show "consolidate (consolidate j tm) tm' = consolidate j tm"
    using consolidate_leaves_no_group by (intro consolidate_below) blast+
next
  let ?j = "run journal_apply journal_new ops"
  assume "\<forall>k. length (filter (\<lambda>p. fst p = k) (filed ?j)) < 3"
  then show "consolidate ?j tm = ?j"
    using run_journal_ok [of ops] by (intro consolidate_below) (auto simp: journal_ok_def groups_iff n_consolidation_def)
qed

section \<open>A concrete journal\<close>

definition acme :: subject where "acme = Subject (lit ''supplier:acme'')"

definition late :: "nat \<Rightarrow> new_episode" where
  "late w = \<lparr>ne_subjects = [acme], ne_polarity = Negative, ne_weight = weight_from_hundredths (word_of_nat w),
     ne_reported_by = None, ne_summary = Untrusted (lit ''late'')\<rparr>"

definition sample_ops :: "journal_op list" where
  "sample_ops = [Record (late 100) 1, Record (late 100) 2, Record (late 100) 3, Consolidate 4]"

lemmas journal_evaluate = journal_new_def record_episode_def late_def acme_def weight_from_hundredths_def
  consolidate_def groups_def filed_def open_episodes_def is_neutral_def n_consolidation_def
  form_belief_def group_gain_def weight_sum_def weight_cap_hundredths_def strength_from_hundredths_def
  truncate_front_def max_sources_def max_subjects_def is_first_hand_def Let_def

lemma sample_belief:
  "\<exists>b. beliefs (run journal_apply journal_new sample_ops) = [b] \<and> sources b = map EpisodeId [0, 1, 2] \<and>
     strength_hundredths (b_strength b) = 75 \<and> b_subject b = acme"
  by (simp add: sample_ops_def journal_evaluate belief_key_def)

theorem beliefs_have_reasons_witness:
  "\<exists>b\<in>set (beliefs (run journal_apply journal_new sample_ops)).
     b_subject b = acme \<and> b_polarity b \<noteq> Neutral \<and>
     (\<exists>f\<in>set (findings (why (run journal_apply journal_new sample_ops) acme)).
        map ep_id (founding f) = [EpisodeId 0, EpisodeId 1, EpisodeId 2])"
proof -
  obtain b where b: "beliefs (run journal_apply journal_new sample_ops) = [b]"
      "sources b = map EpisodeId [0, 1, 2]" "b_subject b = acme"
    using sample_belief by blast
  have "length sample_ops \<le> 2 ^ 64" by (simp add: sample_ops_def)
  from beliefs_have_reasons [OF this] b(1)
  have "b_polarity b \<noteq> Neutral"
    "\<exists>f\<in>set (findings (why (run journal_apply journal_new sample_ops) (b_subject b))).
       map ep_id (founding f) = sources b" by auto
  with b show ?thesis by simp
qed

theorem sleep_pass_idempotent_witness:
  "consolidate (run journal_apply journal_new [Record (late 100) 1, Record (late 100) 2]) 9 =
   run journal_apply journal_new [Record (late 100) 1, Record (late 100) 2]"
proof -
  have "\<forall>k. length (filter (\<lambda>p. fst p = k)
      (filed (run journal_apply journal_new [Record (late 100) 1, Record (late 100) 2]))) < 3"
    by (simp add: journal_evaluate)
  with sleep_pass_idempotent [of journal_new 9 0 "[Record (late 100) 1, Record (late 100) 2]"]
  show ?thesis by blast
qed

text \<open>Three episodes of weight 0.01 form a belief of strength zero, which nothing then erodes.\<close>

lemma zero_strength_belief:
  "\<exists>b. beliefs (run journal_apply journal_new [Record (late 1) 1, Record (late 1) 2, Record (late 1) 3,
     Consolidate 4]) = [b] \<and> strength_hundredths (b_strength b) = 0"
  by (simp add: journal_evaluate belief_key_def)

end
