(* ===== verification/Identity.thy ===== *)
theory Identity
  imports Ids
begin

text \<open>
  \<open>crates/domain/src/identity.rs\<close>: the public key of an employee, its key id, its JWK and the key
  set, and where the private half is kept; \<open>crates/domain/src/phone_pool.rs\<close>: the spellings of a
  number strategy. The unpadded base64url codec is a parameter, its values of \<open>serde_json\<close> a datatype.
\<close>

section \<open>Definitions\<close>

definition public_key_len :: nat where "public_key_len = 32"

definition directory_path :: ustr where
  "directory_path = lit ''/.well-known/http-message-signatures-directory''"

definition signing_key_name :: ustr where "signing_key_name = lit ''signing-key''"

definition signing_key_ref :: "tenant_id \<Rightarrow> employee_id \<Rightarrow> secret_ref_error + secret_ref" where
  "signing_key_ref t e = secret_ref_new t e signing_key_name"

datatype key_id = KeyId (key_id_str: ustr)

datatype public_key_error = KeyLength nat | KeyEncoding

datatype public_key = PublicKey (key_bytes: "u8 list")

definition public_key_from_slice :: "u8 list \<Rightarrow> public_key_error + public_key" where
  "public_key_from_slice bytes =
     (if length bytes = public_key_len then Inr (PublicKey bytes) else Inl (KeyLength (length bytes)))"

definition public_key_from_jwk_x ::
  "(ustr \<Rightarrow> u8 list option) \<Rightarrow> ustr \<Rightarrow> public_key_error + public_key" where
  "public_key_from_jwk_x b64url_decode x =
     rbind (ok_or (b64url_decode x) KeyEncoding) public_key_from_slice"

definition public_key_id :: "(u8 list \<Rightarrow> ustr) \<Rightarrow> public_key \<Rightarrow> key_id" where
  "public_key_id b64url k = KeyId (b64url (key_bytes k))"

datatype json = JString ustr | JArray "json list" | JObject "(ustr \<times> json) list"

definition jwk :: "(u8 list \<Rightarrow> ustr) \<Rightarrow> public_key \<Rightarrow> json" where
  "jwk b64url k = JObject
     [(lit ''kty'', JString (lit ''OKP'')), (lit ''crv'', JString (lit ''Ed25519'')),
      (lit ''alg'', JString (lit ''EdDSA'')), (lit ''use'', JString (lit ''sig'')),
      (lit ''kid'', JString (key_id_str (public_key_id b64url k))),
      (lit ''x'', JString (b64url (key_bytes k)))]"

definition jwks :: "(u8 list \<Rightarrow> ustr) \<Rightarrow> public_key list \<Rightarrow> json" where
  "jwks b64url keys = JObject [(lit ''keys'', JArray (map (jwk b64url) keys))]"

datatype number_strategy = Dedicated | Pooled

fun number_strategy_str :: "number_strategy \<Rightarrow> ustr" where
  "number_strategy_str Dedicated = lit ''dedicated''"
| "number_strategy_str Pooled = lit ''pooled''"

definition number_strategy_parse :: "ustr \<Rightarrow> number_strategy option" where
  "number_strategy_parse raw =
     (if raw = lit ''dedicated'' then Some Dedicated
      else if raw = lit ''pooled'' then Some Pooled else None)"

section \<open>Lemmas\<close>

lemma number_strategy_round_trip: "number_strategy_parse s = Some x \<longleftrightarrow> s = number_strategy_str x"
  by (cases x) (auto simp: number_strategy_parse_def)

lemma public_key_from_slice_Inr_iff:
  "public_key_from_slice bytes = Inr k \<longleftrightarrow> key_bytes k = bytes \<and> length bytes = 32"
  by (cases k) (auto simp: public_key_from_slice_def public_key_len_def)

fun json_field :: "json \<Rightarrow> ustr \<Rightarrow> json option" where
  "json_field (JObject members) name = map_of members name"
| "json_field _ name = None"

text \<open>A published key reads back: the \<open>x\<close> member of the JWK gives the key, and the key id is a name
  for it.\<close>

lemma jwk_round_trip:
  assumes "\<And>b. b64url_decode (b64url b) = Some b" and "length (key_bytes k) = 32"
  shows "json_field (jwk b64url k) (lit ''x'') = Some (JString (b64url (key_bytes k)))"
    and "public_key_from_jwk_x b64url_decode (b64url (key_bytes k)) = Inr k"
    and "public_key_id b64url k = public_key_id b64url k' \<longleftrightarrow> k = k'"
proof -
  show "json_field (jwk b64url k) (lit ''x'') = Some (JString (b64url (key_bytes k)))"
    by (simp add: jwk_def)
  show "public_key_from_jwk_x b64url_decode (b64url (key_bytes k)) = Inr k"
    using assms by (simp add: public_key_from_jwk_x_def public_key_from_slice_Inr_iff)
  have "inj b64url" using assms(1) by (metis injI option.inject)
  then show "public_key_id b64url k = public_key_id b64url k' \<longleftrightarrow> k = k'"
    by (auto simp: public_key_id_def inj_eq public_key.expand)
qed

text \<open>The reference of a signing key is always well formed.\<close>

lemma signing_key_ref_ok:
  "signing_key_ref t e = Inr \<lparr>sr_tenant = t, sr_employee = e, sr_name = signing_key_name\<rparr>"
  by (simp add: signing_key_ref_def secret_ref_new_Inr_iff secret_ref_ok_def signing_key_name_def
      secret_name_char_def is_ascii_lower_def)

end
