(* ===== verification/HttpSignature.thy ===== *)
theory HttpSignature
  imports Identity
begin

text \<open>
  \<open>crates/app/src/http_signature.rs\<close>: RFC 9421 signatures over HTTP requests, with the type
  \<open>Signature\<close> of \<open>crates/providers/src/signing.rs\<close>. The primitives are the parameter \<open>crypto\<close>:
  SHA-256, the two base64 codecs and the Ed25519 verification; a string handed to the curve stands
  for its UTF-8 bytes. Time is \<open>DateTime::timestamp\<close>, whole seconds. The header
  grammar, the signature base and every check of \<open>verify_request\<close> are written out.
\<close>

section \<open>Definitions\<close>

datatype signature = Signature (signature_bytes: "u8 list")

record crypto =
  sha256 :: "u8 list \<Rightarrow> u8 list"
  b64 :: "u8 list \<Rightarrow> ustr"
  b64_decode :: "ustr \<Rightarrow> u8 list option"
  b64url :: "u8 list \<Rightarrow> ustr"
  ed25519_verify :: "public_key \<Rightarrow> ustr \<Rightarrow> signature \<Rightarrow> bool"

definition signature_len :: nat where "signature_len = 64"

datatype signature_error = SignatureLength | SignatureEncoding

definition signature_from_slice :: "u8 list \<Rightarrow> signature_error + signature" where
  "signature_from_slice bytes =
     (if length bytes = signature_len then Inr (Signature bytes) else Inl SignatureLength)"

definition signature_to_base64 :: "crypto \<Rightarrow> signature \<Rightarrow> ustr" where
  "signature_to_base64 cr s = b64 cr (signature_bytes s)"

definition signature_from_base64 :: "crypto \<Rightarrow> ustr \<Rightarrow> signature_error + signature" where
  "signature_from_base64 cr encoded =
     rbind (ok_or (b64_decode cr encoded) SignatureEncoding) signature_from_slice"

definition label :: ustr where "label = lit ''sig1''"

definition signature_input_header :: ustr where "signature_input_header = lit ''signature-input''"

definition signature_header :: ustr where "signature_header = lit ''signature''"

definition content_digest_header :: ustr where "content_digest_header = lit ''content-digest''"

definition alg :: ustr where "alg = lit ''ed25519''"

definition covered_names :: "ustr list" where
  "covered_names = [lit ''@method'', lit ''@authority'', lit ''@path'', lit ''@query'', content_digest_header]"

definition lifetime :: int where "lifetime = 300"

definition skew :: int where "skew = 60"

record request =
  rq_method :: ustr
  rq_authority :: ustr
  rq_path :: ustr
  rq_query :: "ustr option"
  rq_body :: "u8 list"

record signed =
  sg_content_digest :: ustr
  sg_signature_input :: ustr
  sg_signature :: ustr

definition signed_headers :: "signed \<Rightarrow> (ustr \<times> ustr) list" where
  "signed_headers s =
     [(content_digest_header, sg_content_digest s), (signature_input_header, sg_signature_input s),
      (signature_header, sg_signature s)]"

record signature_headers =
  sh_signature_input :: "ustr option"
  sh_signature :: "ustr option"
  sh_content_digest :: "ustr option"

record to_sign =
  ts_base :: ustr
  ts_signature_input :: ustr
  ts_content_digest :: ustr

definition finish :: "crypto \<Rightarrow> to_sign \<Rightarrow> signature \<Rightarrow> signed" where
  "finish cr t s =
     \<lparr>sg_content_digest = ts_content_digest t, sg_signature_input = ts_signature_input t,
      sg_signature = label @ lit ''=:'' @ signature_to_base64 cr s @ lit '':''\<rparr>"

definition content_digest :: "crypto \<Rightarrow> u8 list \<Rightarrow> ustr" where
  "content_digest cr body = lit ''sha-256=:'' @ b64 cr (sha256 cr body) @ lit '':''"

definition quoted :: "ustr \<Rightarrow> ustr" where
  "quoted s = [34] @ s @ [34]"

definition signature_params :: "ustr list \<Rightarrow> key_id \<Rightarrow> int \<Rightarrow> int \<Rightarrow> ustr" where
  "signature_params covered kid created expires =
     lit ''('' @ join (lit '' '') (map quoted covered) @ lit '');created='' @ show_int created
       @ lit '';expires='' @ show_int expires @ lit '';keyid='' @ quoted (key_id_str kid)
       @ lit '';alg='' @ quoted alg"

definition component_value :: "request \<Rightarrow> ustr \<Rightarrow> ustr \<Rightarrow> ustr" where
  "component_value rq digest c =
     (if c = lit ''@method'' then rq_method rq
      else if c = lit ''@authority'' then rq_authority rq
      else if c = lit ''@path'' then rq_path rq
      else if c = lit ''@query'' then
        lit ''?'' @ (case rq_query rq of None \<Rightarrow> [] | Some q \<Rightarrow> q)
      else if c = content_digest_header then digest
      else [])"

fun component_lines :: "request \<Rightarrow> ustr list \<Rightarrow> ustr \<Rightarrow> ustr" where
  "component_lines rq [] digest = []"
| "component_lines rq (c # cs) digest =
     quoted c @ lit '': '' @ component_value rq digest c @ [10] @ component_lines rq cs digest"

definition base :: "request \<Rightarrow> ustr list \<Rightarrow> ustr \<Rightarrow> ustr \<Rightarrow> ustr" where
  "base rq covered digest params =
     component_lines rq covered digest @ quoted (lit ''@signature-params'') @ lit '': '' @ params"

definition make_to_sign :: "crypto \<Rightarrow> request \<Rightarrow> key_id \<Rightarrow> int \<Rightarrow> to_sign" where
  "make_to_sign cr rq kid t =
     (let digest = content_digest cr (rq_body rq);
          params = signature_params covered_names kid t (t + lifetime)
      in \<lparr>ts_base = base rq covered_names digest params,
          ts_signature_input = label @ lit ''='' @ params, ts_content_digest = digest\<rparr>)"

datatype sig_verdict = Unsigned | Verified key_id

datatype verify_error =
    HalfSigned | Malformed | UnsupportedComponent | BodyNotCovered | DigestMismatch | Stale
  | WrongAlgorithm | UnknownKey | BadSignature

fun verify_error_code :: "verify_error \<Rightarrow> ustr" where
  "verify_error_code HalfSigned = lit ''half_signed''"
| "verify_error_code Malformed = lit ''malformed_signature''"
| "verify_error_code UnsupportedComponent = lit ''unsupported_component''"
| "verify_error_code BodyNotCovered = lit ''body_not_covered''"
| "verify_error_code DigestMismatch = lit ''digest_mismatch''"
| "verify_error_code Stale = lit ''stale_signature''"
| "verify_error_code WrongAlgorithm = lit ''wrong_algorithm''"
| "verify_error_code UnknownKey = lit ''unknown_key''"
| "verify_error_code BadSignature = lit ''bad_signature''"

definition strip_label :: "ustr \<Rightarrow> ustr option" where
  "strip_label input =
     (case split_once 61 input of None \<Rightarrow> None
      | Some (_, rest) \<Rightarrow> if str_starts_with rest (lit ''('') then Some rest else None)"

definition strip_signature :: "ustr \<Rightarrow> ustr option" where
  "strip_signature value =
     (case split_once 61 value of None \<Rightarrow> None
      | Some (_, rest) \<Rightarrow>
          (case strip_prefix (lit '':'') (trim rest) of None \<Rightarrow> None
           | Some inner \<Rightarrow> strip_suffix (lit '':'') inner))"

fun covered_loop :: "ustr list \<Rightarrow> verify_error + ustr list" where
  "covered_loop [] = Inr []"
| "covered_loop (raw # ws) =
     (case Option.bind (strip_prefix [34] raw) (strip_suffix [34]) of
        None \<Rightarrow> Inl Malformed
      | Some name \<Rightarrow>
          if name \<notin> set covered_names then Inl UnsupportedComponent
          else rbind (covered_loop ws) (\<lambda>rest. Inr (name # rest)))"

definition covered_components :: "ustr \<Rightarrow> verify_error + ustr list" where
  "covered_components params =
     rbind (ok_or (map_option fst (Option.bind (strip_prefix (lit ''('') params) (split_once 41))) Malformed)
       (\<lambda>names. rbind (covered_loop (split_whitespace names))
         (\<lambda>covered. if covered = [] then Inl Malformed else Inr covered))"

definition param :: "ustr \<Rightarrow> ustr \<Rightarrow> ustr option" where
  "param params name =
     map_option (\<lambda>(_, value). trim_char 34 (trim value))
       (find (\<lambda>(key, _). trim key = name) (List.map_filter (split_once 61) (drop 1 (split_on 59 params))))"

definition digest_matches :: "crypto \<Rightarrow> ustr \<Rightarrow> u8 list \<Rightarrow> bool" where
  "digest_matches cr header body \<longleftrightarrow>
     list_ex (\<lambda>entry. entry = content_digest cr body)
       (filter (\<lambda>entry. str_starts_with entry (lit ''sha-256='')) (map trim (split_on 44 header)))"

definition expiry :: "ustr \<Rightarrow> int \<Rightarrow> verify_error + int" where
  "expiry params created =
     (let ceiling = i64_saturating_add created lifetime
      in (case param params (lit ''expires'') of
            Some raw \<Rightarrow> rbind (ok_or (parse_i64 raw) Malformed) (\<lambda>e. Inr (min e ceiling))
          | None \<Rightarrow> Inr ceiling))"

definition verify_pair ::
  "crypto \<Rightarrow> request \<Rightarrow> ustr option \<Rightarrow> public_key list \<Rightarrow> int \<Rightarrow> ustr \<Rightarrow> ustr \<Rightarrow> verify_error + sig_verdict" where
  "verify_pair cr rq digest_header keys t input sig =
     (if 44 \<in> set input \<or> 44 \<in> set sig then Inl Malformed else
      rbind (ok_or (strip_label input) Malformed) (\<lambda>params.
      rbind (covered_components params) (\<lambda>covered.
      if \<not> list_ex (\<lambda>c. c = content_digest_header) covered then Inl BodyNotCovered
      else if param params (lit ''alg'') \<noteq> Some alg then Inl WrongAlgorithm
      else rbind (ok_or (Option.bind (param params (lit ''created'')) parse_i64) Malformed) (\<lambda>created.
      rbind (expiry params created) (\<lambda>expires.
      if created > t + skew \<or> expires < t - skew then Inl Stale
      else rbind (ok_or digest_header DigestMismatch) (\<lambda>digest.
      if \<not> digest_matches cr (trim digest) (rq_body rq) then Inl DigestMismatch
      else rbind (ok_or (param params (lit ''keyid'')) Malformed) (\<lambda>kid.
      rbind (ok_or (find (\<lambda>k. key_id_str (public_key_id (b64url cr) k) = kid) keys) UnknownKey) (\<lambda>key.
      rbind (ok_or (strip_signature sig) Malformed) (\<lambda>encoded.
      rbind (map_err (\<lambda>_. Malformed) (signature_from_base64 cr encoded)) (\<lambda>s.
      if ed25519_verify cr key (base rq covered (trim digest) params) s
      then Inr (Verified (public_key_id (b64url cr) key)) else Inl BadSignature))))))))))"

definition verify_request ::
  "crypto \<Rightarrow> request \<Rightarrow> signature_headers \<Rightarrow> public_key list \<Rightarrow> int \<Rightarrow> verify_error + sig_verdict" where
  "verify_request cr rq h keys t =
     (case (sh_signature_input h, sh_signature h) of
        (None, None) \<Rightarrow> Inr Unsigned
      | (Some input, Some sig) \<Rightarrow>
          verify_pair cr rq (sh_content_digest h) keys t (trim input) (trim sig)
      | _ \<Rightarrow> Inl HalfSigned)"

definition headers_of :: "signed \<Rightarrow> signature_headers" where
  "headers_of s =
     \<lparr>sh_signature_input = Some (sg_signature_input s), sh_signature = Some (sg_signature s),
      sh_content_digest = Some (sg_content_digest s)\<rparr>"

text \<open>What the code relies on of the base64 codecs: they decode what they encoded, over their alphabets.\<close>

definition base64_char :: "nat \<Rightarrow> bool" where
  "base64_char c \<longleftrightarrow> is_ascii_digit c \<or> is_ascii_alphabetic c \<or> c \<in> {43, 47, 61}"

definition base64url_char :: "nat \<Rightarrow> bool" where
  "base64url_char c \<longleftrightarrow> is_ascii_digit c \<or> is_ascii_alphabetic c \<or> c \<in> {45, 95}"

definition codecs_ok :: "crypto \<Rightarrow> bool" where
  "codecs_ok cr \<longleftrightarrow>
     (\<forall>b. b64_decode cr (b64 cr b) = Some b \<and> list_all base64_char (b64 cr b)) \<and>
     (\<forall>b. list_all base64url_char (b64url cr b)) \<and> inj (b64url cr)"

text \<open>A request line and a header line never contain a line feed.\<close>

definition query_text :: "request \<Rightarrow> ustr" where
  "query_text rq = (case rq_query rq of None \<Rightarrow> [] | Some q \<Rightarrow> q)"

definition one_line :: "request \<Rightarrow> bool" where
  "one_line rq \<longleftrightarrow> 10 \<notin> set (rq_method rq) \<and> 10 \<notin> set (rq_authority rq) \<and> 10 \<notin> set (rq_path rq) \<and>
     10 \<notin> set (query_text rq)"

definition same_target :: "request \<Rightarrow> request \<Rightarrow> bool" where
  "same_target a b \<longleftrightarrow> rq_method a = rq_method b \<and> rq_authority a = rq_authority b \<and>
     rq_path a = rq_path b \<and> query_text a = query_text b"

section \<open>The signature base\<close>

lemma line_inject:
  assumes "(10::nat) \<notin> set a" and "10 \<notin> set b"
  shows "a @ 10 # x = b @ 10 # y \<longleftrightarrow> a = b \<and> x = y"
  using assms
proof (induction a arbitrary: b)
  case Nil
  then show ?case by (cases b) auto
next
  case (Cons z a)
  then show ?case by (cases b) auto
qed

lemma component_values:
  "component_value rq d (lit ''@method'') = rq_method rq"
  "component_value rq d (lit ''@authority'') = rq_authority rq"
  "component_value rq d (lit ''@path'') = rq_path rq"
  "component_value rq d (lit ''@query'') = 63 # query_text rq"
  "component_value rq d content_digest_header = d"
  by (simp_all add: component_value_def content_digest_header_def query_text_def)

lemma component_lines_inject:
  assumes "one_line a" and "one_line b" and "10 \<notin> set d" and "10 \<notin> set e"
  shows "component_lines a covered_names d @ x = component_lines b covered_names e @ y \<longleftrightarrow>
    same_target a b \<and> d = e \<and> x = y"
  using assms
  by (simp add: covered_names_def component_values line_inject one_line_def same_target_def del: lit_simps)

lemma base_inject:
  assumes "one_line a" and "one_line b" and "10 \<notin> set d" and "10 \<notin> set e"
  shows "base a covered_names d p = base b covered_names e q \<longleftrightarrow> same_target a b \<and> d = e \<and> p = q"
  using component_lines_inject [OF assms] by (simp add: base_def)

section \<open>Reading back the parameters that are written\<close>

lemma strip_label_written: "strip_label (label @ lit ''='' @ lit ''('' @ r) = Some (lit ''('' @ r)"
  by (simp add: strip_label_def label_def split_once_append str_starts_with_def split_once_def)

lemma covered_list_written:
  "covered_loop (split_whitespace (join (lit '' '') (map quoted covered_names))) = Inr covered_names"
  by (simp add: covered_names_def content_digest_header_def quoted_def split_whitespace_def is_whitespace_def
      strip_prefix_def str_starts_with_def strip_suffix_def str_ends_with_def)

lemma covered_list_no_close: "41 \<notin> set (join (lit '' '') (map quoted covered_names))"
  by (simp add: covered_names_def content_digest_header_def quoted_def)

lemma covered_components_written: "covered_components (signature_params covered_names k c e) = Inr covered_names"
proof -
  let ?l = "join (lit '' '') (map quoted covered_names)"
  obtain r where "signature_params covered_names k c e = lit ''('' @ ?l @ 41 # r"
    by (auto simp: signature_params_def)
  then have "Option.bind (strip_prefix (lit ''('') (signature_params covered_names k c e)) (split_once 41) = Some (?l, r)"
    by (simp only: strip_prefix_append bind.bind_lunit split_once_append [OF covered_list_no_close])
  then have "covered_components (signature_params covered_names k c e) =
    (if covered_names = [] then Inl Malformed else Inr covered_names)"
    by (simp only: covered_components_def option.map fst_conv ok_or_simps rbind_simps covered_list_written)
  then show ?thesis by (simp add: covered_names_def)
qed

lemma show_int_no:
  "\<not> is_ascii_digit c \<Longrightarrow> c \<noteq> 45 \<Longrightarrow> c \<notin> set (show_int i)"
  by (auto dest: show_int_chars)

lemma trim_show_int: "trim (show_int i) = show_int i"
  by (rule trim_no_ws) (auto simp: list_all_iff is_whitespace_def is_ascii_digit_def dest!: show_int_chars)

lemma all_not_in: "list_all p s \<Longrightarrow> \<not> p c \<Longrightarrow> c \<notin> set s"
  by (auto simp: list_all_iff)

lemma base64url_chars_no:
  "list_all base64url_char s \<Longrightarrow> c \<in> {34, 44, 59} \<Longrightarrow> c \<notin> set s"
  by (rule all_not_in) (auto simp: base64url_char_def is_ascii_digit_def is_ascii_alphabetic_def
      is_ascii_lower_def is_ascii_upper_def)

lemma base64_chars_no: "list_all base64_char s \<Longrightarrow> c \<in> {10, 44} \<Longrightarrow> c \<notin> set s"
  by (rule all_not_in) (auto simp: base64_char_def is_ascii_digit_def is_ascii_alphabetic_def
      is_ascii_lower_def is_ascii_upper_def)

lemma params_fields:
  assumes "list_all base64url_char k"
  shows "split_on 59 (signature_params covered_names (KeyId k) c e) =
    [lit ''('' @ join (lit '' '') (map quoted covered_names) @ lit '')'', lit ''created='' @ show_int c,
     lit ''expires='' @ show_int e, lit ''keyid='' @ quoted k, lit ''alg='' @ quoted alg]"
proof -
  have list: "59 \<notin> set (join (lit '' '') (map quoted covered_names))"
    by (simp add: covered_names_def content_digest_header_def quoted_def)
  have split: "\<And>a b. 59 \<notin> set a \<Longrightarrow> split_on 59 (a @ lit '';'' @ b) = a # split_on 59 b"
    by (simp add: split_on_append)
  have "signature_params covered_names (KeyId k) c e =
      (lit ''('' @ join (lit '' '') (map quoted covered_names) @ lit '')'') @ lit '';'' @
      (lit ''created='' @ show_int c) @ lit '';'' @ (lit ''expires='' @ show_int e) @ lit '';'' @
      (lit ''keyid='' @ quoted k) @ lit '';'' @ (lit ''alg='' @ quoted alg)"
    by (simp add: signature_params_def)
  moreover have h: "59 \<notin> set (lit ''('' @ join (lit '' '') (map quoted covered_names) @ lit '')'')"
    "59 \<notin> set (lit ''created='' @ show_int c)" "59 \<notin> set (lit ''expires='' @ show_int e)"
    "59 \<notin> set (lit ''keyid='' @ quoted k)" "59 \<notin> set (lit ''alg='' @ quoted alg)"
    using list base64url_chars_no [OF assms, of 59]
    by (simp_all add: show_int_no is_ascii_digit_def quoted_def alg_def)
  ultimately show ?thesis
    by (simp only: split [OF h(1)] split [OF h(2)] split [OF h(3)] split [OF h(4)] split_on_no_sep [OF h(5)])
qed

lemma params_pairs:
  assumes "list_all base64url_char k"
  shows "List.map_filter (split_once 61) (drop 1 (split_on 59 (signature_params covered_names (KeyId k) c e))) =
    [(lit ''created'', show_int c), (lit ''expires'', show_int e), (lit ''keyid'', quoted k),
     (lit ''alg'', quoted alg)]"
proof -
  have eq: "\<And>a b. 61 \<notin> set a \<Longrightarrow> split_once 61 (a @ lit ''='' @ b) = Some (a, b)"
    by (simp add: split_once_append)
  have "split_once 61 (lit ''created='' @ show_int c) = Some (lit ''created'', show_int c)"
    "split_once 61 (lit ''expires='' @ show_int e) = Some (lit ''expires'', show_int e)"
    "split_once 61 (lit ''keyid='' @ quoted k) = Some (lit ''keyid'', quoted k)"
    "split_once 61 (lit ''alg='' @ quoted alg) = Some (lit ''alg'', quoted alg)"
    using eq [of "lit ''created''"] eq [of "lit ''expires''"] eq [of "lit ''keyid''"] eq [of "lit ''alg''"]
    by simp_all
  then show ?thesis by (simp add: params_fields [OF assms] map_filter_def del: lit_simps)
qed

lemma trim_param_names [simp]:
  "trim (lit ''created'') = lit ''created''" "trim (lit ''expires'') = lit ''expires''"
  "trim (lit ''keyid'') = lit ''keyid''" "trim (lit ''alg'') = lit ''alg''"
  by (simp_all add: trim_def trim_end_when_def is_whitespace_def)

lemma trim_quoted: "trim (quoted s) = quoted s"
  using trim_ends [of 34 34 s] by (simp add: quoted_def is_whitespace_def)

lemma trim_char_show_int: "trim_char 34 (show_int i) = show_int i"
  by (simp add: trim_char_no show_int_no is_ascii_digit_def)

lemma unquoted: "34 \<notin> set s \<Longrightarrow> trim_char 34 (quoted s) = s"
  by (simp add: quoted_def trim_char_quoted)

lemma params_written:
  fixes c e :: int
  assumes "list_all base64url_char k"
  defines "p \<equiv> signature_params covered_names (KeyId k) c e"
  shows "param p (lit ''created'') = Some (show_int c)" "param p (lit ''expires'') = Some (show_int e)"
    "param p (lit ''keyid'') = Some k" "param p (lit ''alg'') = Some alg"
proof -
  have k: "trim_char 34 (quoted k) = k" using assms(1) by (simp add: unquoted base64url_chars_no)
  have a: "trim_char 34 (quoted alg) = alg" by (rule unquoted) (simp add: alg_def)
  have ne: "lit ''created'' \<noteq> lit ''expires''" "lit ''created'' \<noteq> lit ''keyid''" "lit ''created'' \<noteq> lit ''alg''"
    "lit ''expires'' \<noteq> lit ''keyid''" "lit ''expires'' \<noteq> lit ''alg''" "lit ''keyid'' \<noteq> lit ''alg''"
    by simp_all
  show "param p (lit ''created'') = Some (show_int c)" "param p (lit ''expires'') = Some (show_int e)"
    "param p (lit ''keyid'') = Some k" "param p (lit ''alg'') = Some alg"
    unfolding param_def p_def params_pairs [OF assms(1)]
    by (simp_all add: ne trim_show_int trim_char_show_int trim_quoted k a del: lit_simps)
qed

lemma strip_signature_written: "strip_signature (label @ lit ''=:'' @ s @ lit '':'') = Some s"
proof -
  have "split_once 61 (label @ 61 # lit '':'' @ s @ lit '':'') = Some (label, lit '':'' @ s @ lit '':'')"
    by (rule split_once_append) (simp add: label_def)
  then show ?thesis using strip_prefix_append [of "lit '':''" "s @ lit '':''"] strip_suffix_append [of "lit '':''" s]
    by (simp add: strip_signature_def trim_hd_last is_whitespace_def)
qed

lemma trim_written:
  "trim (label @ lit ''='' @ signature_params l k c e) = label @ lit ''='' @ signature_params l k c e"
  "trim (label @ lit ''=:'' @ s @ lit '':'') = label @ lit ''=:'' @ s @ lit '':''"
  "trim (content_digest cr body) = content_digest cr body"
  by (rule trim_hd_last; simp add: label_def signature_params_def quoted_def content_digest_def is_whitespace_def)+

lemma content_digest_chars:
  assumes "codecs_ok cr" and "c \<in> {10, 44}"
  shows "c \<notin> set (content_digest cr body)"
proof -
  have "list_all base64_char (b64 cr (sha256 cr body))" using assms(1) by (simp add: codecs_ok_def)
  from base64_chars_no [OF this assms(2)] assms(2) show ?thesis by (auto simp: content_digest_def)
qed

lemma content_digest_inject:
  assumes "codecs_ok cr"
  shows "content_digest cr a = content_digest cr b \<longleftrightarrow> sha256 cr a = sha256 cr b"
proof -
  have "b64 cr x = b64 cr y \<longleftrightarrow> x = y" for x y
    using assms by (metis codecs_ok_def option.inject)
  then show ?thesis by (simp add: content_digest_def)
qed

lemma digest_matches_written:
  assumes "codecs_ok cr"
  shows "digest_matches cr (content_digest cr a) b \<longleftrightarrow> sha256 cr b = sha256 cr a"
  using content_digest_inject [OF assms, of a b]
  by (auto simp: digest_matches_def split_on_no_sep content_digest_chars [OF assms] trim_written)
    (simp_all add: content_digest_def str_starts_with_def)

lemma no_comma_written:
  assumes "codecs_ok cr"
  shows "44 \<notin> set (label @ lit ''='' @ signature_params covered_names (public_key_id (b64url cr) k) c e)"
    "44 \<notin> set (label @ lit ''=:'' @ signature_to_base64 cr s @ lit '':'')"
proof -
  have "list_all base64url_char (b64url cr (key_bytes k))" "list_all base64_char (b64 cr (signature_bytes s))"
    using assms by (simp_all add: codecs_ok_def)
  from base64url_chars_no [OF this(1), of 44] base64_chars_no [OF this(2), of 44]
  show "44 \<notin> set (label @ lit ''='' @ signature_params covered_names (public_key_id (b64url cr) k) c e)"
    "44 \<notin> set (label @ lit ''=:'' @ signature_to_base64 cr s @ lit '':'')"
    by (simp_all add: label_def signature_params_def covered_names_def content_digest_header_def quoted_def
        public_key_id_def alg_def signature_to_base64_def show_int_no is_ascii_digit_def)
qed

lemma find_key:
  assumes "codecs_ok cr" and "key \<in> set keys"
  shows "find (\<lambda>k. key_id_str (public_key_id (b64url cr) k) = b64url cr (key_bytes key)) keys = Some key"
proof (rule find_unique [OF assms(2)])
  show "key_id_str (public_key_id (b64url cr) key) = b64url cr (key_bytes key)" by (simp add: public_key_id_def)
  fix y
  assume "key_id_str (public_key_id (b64url cr) y) = b64url cr (key_bytes key)"
  then have "key_bytes y = key_bytes key" using assms(1) by (auto simp: codecs_ok_def public_key_id_def inj_eq)
  then show "y = key" by (simp add: public_key.expand)
qed

lemma signature_decodes:
  "codecs_ok cr \<Longrightarrow> length (signature_bytes s) = 64 \<Longrightarrow>
   signature_from_base64 cr (signature_to_base64 cr s) = Inr s"
  by (simp add: codecs_ok_def signature_from_base64_def signature_to_base64_def signature_from_slice_def
      signature_len_def)

lemma expiry_written:
  assumes "list_all base64url_char k" and "- (2 ^ 63) \<le> t" and "t + lifetime < 2 ^ 63"
  shows "expiry (signature_params covered_names (KeyId k) t (t + lifetime)) t = Inr (t + lifetime)"
  using assms parse_i64_show_int [of "t + lifetime"]
  by (simp add: expiry_def params_written i64_saturating_add_def Let_def lifetime_def del: lit_simps)

lemma verify_written:
  fixes cr key t rq
  defines "sg \<equiv> \<lambda>s. finish cr (make_to_sign cr rq (public_key_id (b64url cr) key) t) s"
  assumes "codecs_ok cr" and "key \<in> set keys" and "length (signature_bytes s) = 64"
    and "- (2 ^ 63) \<le> t" and "t + lifetime < 2 ^ 63"
  shows "verify_request cr rq' (headers_of (sg s)) keys n =
    (if n < t - skew \<or> t + lifetime + skew < n then Inl Stale
     else if sha256 cr (rq_body rq') \<noteq> sha256 cr (rq_body rq) then Inl DigestMismatch
     else if ed25519_verify cr key
            (base rq' covered_names (content_digest cr (rq_body rq))
               (signature_params covered_names (public_key_id (b64url cr) key) t (t + lifetime))) s
     then Inr (Verified (public_key_id (b64url cr) key)) else Inl BadSignature)"
proof -
  let ?kid = "public_key_id (b64url cr) key"
  define p where "p = signature_params covered_names ?kid t (t + lifetime)"
  have k: "list_all base64url_char (b64url cr (key_bytes key))" and kid: "?kid = KeyId (b64url cr (key_bytes key))"
    using assms(2) by (simp_all add: codecs_ok_def public_key_id_def)
  have sl: "strip_label (label @ lit ''='' @ p) = Some p"
    unfolding p_def signature_params_def by (rule strip_label_written)
  have cc: "covered_components p = Inr covered_names" unfolding p_def by (rule covered_components_written)
  have ps: "param p (lit ''created'') = Some (show_int t)" "param p (lit ''keyid'') = Some (b64url cr (key_bytes key))"
    "param p (lit ''alg'') = Some alg" "expiry p t = Inr (t + lifetime)" "parse_i64 (show_int t) = Some t"
    using k assms(5,6) parse_i64_show_int [of t] unfolding p_def kid
    by (simp_all add: params_written expiry_written del: lit_simps) (simp add: lifetime_def)
  have cd: "list_ex (\<lambda>c. c = content_digest_header) covered_names" by (simp add: covered_names_def)
  have "verify_request cr rq' (headers_of (sg s)) keys n =
    verify_pair cr rq' (Some (content_digest cr (rq_body rq))) keys n (label @ lit ''='' @ p)
      (label @ lit ''=:'' @ signature_to_base64 cr s @ lit '':'')"
    by (simp add: verify_request_def headers_of_def sg_def finish_def make_to_sign_def Let_def trim_written p_def
        del: lit_simps)
  also have "\<dots> = (if n < t - skew \<or> t + lifetime + skew < n then Inl Stale
     else if sha256 cr (rq_body rq') \<noteq> sha256 cr (rq_body rq) then Inl DigestMismatch
     else if ed25519_verify cr key (base rq' covered_names (content_digest cr (rq_body rq)) p) s
     then Inr (Verified ?kid) else Inl BadSignature)"
    using no_comma_written(1) [OF assms(2), of key t "t + lifetime", folded p_def]
      no_comma_written(2) [OF assms(2), of s]
    by (auto simp: verify_pair_def sl cc ps cd digest_matches_written [OF assms(2)] trim_written
        find_key [OF assms(2,3)] strip_signature_written signature_decodes [OF assms(2,4)] simp flip: p_def
        simp del: lit_simps)
  finally show ?thesis by (simp add: p_def)
qed

section \<open>What an acceptance says\<close>

lemma covered_loop_known: "covered_loop ws = Inr c \<Longrightarrow> set c \<subseteq> set covered_names"
  by (induction ws arbitrary: c) (auto simp: rbind_eq_Inr_iff split: option.splits if_splits)

lemma covered_components_known: "covered_components p = Inr c \<Longrightarrow> set c \<subseteq> set covered_names"
  by (auto simp: covered_components_def rbind_eq_Inr_iff split: if_splits dest: covered_loop_known)

lemma signature_from_base64_length: "signature_from_base64 cr e = Inr s \<Longrightarrow> length (signature_bytes s) = 64"
  by (auto simp: signature_from_base64_def rbind_eq_Inr_iff signature_from_slice_def signature_len_def
      split: if_splits)

lemma expiry_bound: "expiry p c = Inr e \<Longrightarrow> - (2 ^ 63) \<le> c \<Longrightarrow> e \<le> c + 300"
  by (auto simp: expiry_def Let_def rbind_eq_Inr_iff i64_saturating_add_def lifetime_def split: option.splits)

lemma digest_matches_entry:
  "digest_matches cr d b \<Longrightarrow> content_digest cr b \<in> set (map trim (split_on 44 d))"
  by (auto simp: digest_matches_def list_ex_iff)

lemma verify_pair_VerifiedD:
  assumes "verify_pair cr rq dh keys n input sig = Inr (Verified kid)"
  shows "\<exists>key s covered params digest created e.
    key \<in> set keys \<and> kid = public_key_id (b64url cr) key \<and> length (signature_bytes s) = 64 \<and>
    ed25519_verify cr key (base rq covered (trim digest) params) s \<and>
    strip_label input = Some params \<and> covered_components params = Inr covered \<and>
    content_digest_header \<in> set covered \<and> dh = Some digest \<and> digest_matches cr (trim digest) (rq_body rq) \<and>
    Option.bind (param params (lit ''created'')) parse_i64 = Some created \<and> expiry params created = Inr e \<and>
    created \<le> n + skew \<and> n - skew \<le> e"
  using assms unfolding verify_pair_def
  by (auto simp: rbind_eq_Inr_iff ok_or_eq_Inr_iff list_ex_iff not_less simp del: lit_simps
      split: if_splits dest!: find_SomeD signature_from_base64_length)

section \<open>Properties\<close>

text \<open>C8. A signature this module writes verifies for exactly the request it was made for. Take the
  headers written for the request \<open>rq\<close> at time \<open>t\<close> and present them with any request \<open>rq'\<close>
  at any time \<open>n\<close>: outside \<open>[t - 60, t + 360]\<close> the answer is \<open>Stale\<close>; inside, a body with another
  hash is \<open>DigestMismatch\<close>, another method, authority, path or query is \<open>BadSignature\<close>, and the same
  request is verified under the signer's key id. The signature is one that the curve accepts for
  the written base only.
\<close>

theorem written_signature_is_for_one_request:
  fixes rq rq' :: request
  assumes "codecs_ok cr" and "key \<in> set keys" and "length (signature_bytes s) = 64"
    and "- (2 ^ 63) \<le> t" and "t + lifetime < 2 ^ 63" and "one_line rq" and "one_line rq'"
    and "\<And>m. ed25519_verify cr key m s \<longleftrightarrow>
           m = ts_base (make_to_sign cr rq (public_key_id (b64url cr) key) t)"
  shows "verify_request cr rq'
      (headers_of (finish cr (make_to_sign cr rq (public_key_id (b64url cr) key) t) s)) keys n =
    (if n < t - 60 \<or> t + 360 < n then Inl Stale
     else if sha256 cr (rq_body rq') \<noteq> sha256 cr (rq_body rq) then Inl DigestMismatch
     else if same_target rq' rq then Inr (Verified (public_key_id (b64url cr) key))
     else Inl BadSignature)"
  using assms(8) base_inject [OF assms(7,6) content_digest_chars [OF assms(1)] content_digest_chars [OF assms(1)]]
  unfolding verify_written [OF assms(1-5)] by (simp add: make_to_sign_def Let_def skew_def lifetime_def)

text \<open>C9. What \<open>Verified\<close> means. One of the peer's keys accepts a 64-byte signature over a base whose
  covered components are known ones and contain \<open>content-digest\<close>; the digest header has an entry that
  is the SHA-256 of the body that arrived; the creation time is at most a minute ahead and, whatever
  expiry the peer claims, at most six minutes ago.
\<close>

theorem verified_means:
  assumes "verify_request cr rq h keys n = Inr (Verified kid)"
  shows "\<exists>key s covered params digest created.
    key |\<in>| fset_of_list keys \<and> kid = public_key_id (b64url cr) key \<and> length (signature_bytes s) = 64 \<and>
    ed25519_verify cr key (base rq covered (trim digest) params) s \<and>
    content_digest_header \<in> set covered \<and> set covered \<subseteq> set covered_names \<and>
    sh_content_digest h = Some digest \<and>
    content_digest cr (rq_body rq) \<in> set (map trim (split_on 44 (trim digest))) \<and>
    Option.bind (param params (lit ''created'')) parse_i64 = Some created \<and>
    created - 60 \<le> n \<and> n \<le> created + 360"
proof -
  from assms obtain input sig where "verify_pair cr rq (sh_content_digest h) keys n input sig = Inr (Verified kid)"
    by (auto simp: verify_request_def split: option.splits)
  from verify_pair_VerifiedD [OF this] obtain key s covered params digest created e where
    k: "key \<in> set keys" "kid = public_key_id (b64url cr) key" "length (signature_bytes s) = 64"
      "ed25519_verify cr key (base rq covered (trim digest) params) s"
    and c: "covered_components params = Inr covered" "content_digest_header \<in> set covered"
    and d: "sh_content_digest h = Some digest" "digest_matches cr (trim digest) (rq_body rq)"
    and t: "Option.bind (param params (lit ''created'')) parse_i64 = Some created" "expiry params created = Inr e"
      "created \<le> n + skew" "n - skew \<le> e"
    by blast
  from t(1) have "- (2 ^ 63) \<le> created" by (auto simp: bind_eq_Some_conv dest: parse_i64_range)
  with expiry_bound [OF t(2)] t(3,4) have "created - 60 \<le> n" "n \<le> created + 360"
    by (simp_all add: skew_def)
  with k c(2) covered_components_known [OF c(1)] d(1) digest_matches_entry [OF d(2)] t(1)
  show ?thesis by (fastforce simp: fset_of_list.rep_eq)
qed

text \<open>
  What is not bound: a peer chooses which components it covers, and \<open>verify_request\<close> insists on
  \<open>content-digest\<close> only. A signature that covers nothing else verifies for every request with the
  same body, whatever its method, path or query.
\<close>

lemma digest_only_signature_moves:
  assumes "sh_signature_input h = Some input" and "strip_label (trim input) = Some params"
    and "covered_components params = Inr [content_digest_header]" and "rq_body rq = rq_body rq'"
  shows "verify_request cr rq h keys n = verify_request cr rq' h keys n"
proof -
  have "base rq [content_digest_header] d p = base rq' [content_digest_header] d p" for d p
    by (simp add: base_def component_values)
  with assms show ?thesis
    by (simp add: verify_request_def verify_pair_def split: option.split cong: if_cong)
qed

section \<open>Witnesses\<close>

definition nibbles :: "u8 \<Rightarrow> ustr" where
  "nibbles w = [97 + unat w div 16, 97 + unat w mod 16]"

fun from_nibbles :: "ustr \<Rightarrow> u8 list option" where
  "from_nibbles [] = Some []"
| "from_nibbles [_] = None"
| "from_nibbles (a # b # r) = map_option ((#) (word_of_nat ((a - 97) * 16 + (b - 97)))) (from_nibbles r)"

definition sample_crypto :: "(public_key \<Rightarrow> ustr \<Rightarrow> signature \<Rightarrow> bool) \<Rightarrow> crypto" where
  "sample_crypto v =
     \<lparr>sha256 = \<lambda>b. b, b64 = \<lambda>b. concat (map nibbles b), b64_decode = from_nibbles,
      b64url = \<lambda>b. concat (map nibbles b), ed25519_verify = v\<rparr>"

definition sample_key :: public_key where "sample_key = PublicKey (replicate 32 7)"

definition sample_signature :: signature where "sample_signature = Signature (replicate 64 1)"

definition sample_request :: request where
  "sample_request = \<lparr>rq_method = lit ''POST'', rq_authority = lit ''a.example'', rq_path = lit ''/rpc'',
     rq_query = Some (lit ''employee=1''), rq_body = [1, 2]\<rparr>"

lemma from_nibbles_concat: "from_nibbles (concat (map nibbles b)) = Some b"
proof (induction b)
  case (Cons w b)
  have "unat w div 16 * 16 + unat w mod 16 = unat w" by simp
  with Cons show ?case by (simp add: nibbles_def)
qed simp

lemma nibble_letters: "n < 16 \<Longrightarrow> is_ascii_alphabetic (97 + n)"
  by (simp add: is_ascii_alphabetic_def is_ascii_lower_def)

lemma nibbles_alphabetic: "list_all is_ascii_alphabetic (concat (map nibbles b))"
proof (induction b)
  case (Cons w b)
  have "unat w < 256" using unsigned_less [of w] by simp
  then have "unat w div 16 < 16" by (simp add: less_mult_imp_div_less)
  with Cons show ?case by (simp add: nibbles_def nibble_letters)
qed simp

lemma sample_codecs_ok: "codecs_ok (sample_crypto v)"
proof -
  have inj: "inj (\<lambda>b. concat (map nibbles b))" 
    by (rule inj_on_inverseI [where g = "\<lambda>s. the (from_nibbles s)"]) (simp add: from_nibbles_concat)
  have chars: "list_all base64_char (concat (map nibbles b))" "list_all base64url_char (concat (map nibbles b))" for b
    
    by (rule list.pred_mono_strong [OF nibbles_alphabetic]; simp add: base64_char_def base64url_char_def)+
  show ?thesis
    by (simp add: codecs_ok_def sample_crypto_def from_nibbles_concat chars inj del: list_all_append)
qed

definition sample_to_sign :: to_sign where
  "sample_to_sign = make_to_sign (sample_crypto (\<lambda>_ _ _. False)) sample_request
     (public_key_id (b64url (sample_crypto (\<lambda>_ _ _. False))) sample_key) 1000"

definition sample_verify :: "public_key \<Rightarrow> ustr \<Rightarrow> signature \<Rightarrow> bool" where
  "sample_verify k m s \<longleftrightarrow> m = ts_base sample_to_sign"

lemma sample_to_sign_any:
  "make_to_sign (sample_crypto v) sample_request (public_key_id (b64url (sample_crypto v)) sample_key) 1000
     = sample_to_sign"
  by (simp add: sample_to_sign_def make_to_sign_def content_digest_def sample_crypto_def)

theorem written_signature_is_for_one_request_witness:
  "verify_request (sample_crypto sample_verify) sample_request
     (headers_of (finish (sample_crypto sample_verify) sample_to_sign sample_signature)) [sample_key] 1200
     = Inr (Verified (public_key_id (b64url (sample_crypto sample_verify)) sample_key)) \<and>
   verify_request (sample_crypto sample_verify) (sample_request\<lparr>rq_query := Some (lit ''employee=2'')\<rparr>)
     (headers_of (finish (sample_crypto sample_verify) sample_to_sign sample_signature)) [sample_key] 1200
     = Inl BadSignature"
proof -
  let ?cr = "sample_crypto sample_verify"
  have h: "sample_key \<in> set [sample_key]" "length (signature_bytes sample_signature) = 64"
    "- (2 ^ 63) \<le> (1000::int)" "1000 + lifetime < 2 ^ 63" "one_line sample_request"
    "one_line (sample_request\<lparr>rq_query := Some (lit ''employee=2'')\<rparr>)"
    by (simp_all add: sample_signature_def lifetime_def one_line_def query_text_def sample_request_def)
  have v: "ed25519_verify ?cr sample_key m sample_signature \<longleftrightarrow>
      m = ts_base (make_to_sign ?cr sample_request (public_key_id (b64url ?cr) sample_key) 1000)" for m
    unfolding sample_to_sign_any by (simp add: sample_crypto_def sample_verify_def)
  note one = written_signature_is_for_one_request [OF sample_codecs_ok h(1-5) _ v, unfolded sample_to_sign_any]
  show ?thesis
    using one [OF h(5), of 1200] one [OF h(6), of 1200]
    by (simp add: same_target_def query_text_def sample_request_def)
qed

theorem verified_means_witness:
  "\<exists>key s covered params digest created.
    key |\<in>| fset_of_list [sample_key] \<and>
    public_key_id (b64url (sample_crypto sample_verify)) sample_key
      = public_key_id (b64url (sample_crypto sample_verify)) key \<and> length (signature_bytes s) = 64 \<and>
    ed25519_verify (sample_crypto sample_verify) key (base sample_request covered (trim digest) params) s \<and>
    content_digest_header \<in> set covered \<and> set covered \<subseteq> set covered_names \<and>
    sh_content_digest (headers_of (finish (sample_crypto sample_verify) sample_to_sign sample_signature))
      = Some digest \<and>
    content_digest (sample_crypto sample_verify) (rq_body sample_request)
      \<in> set (map trim (split_on 44 (trim digest))) \<and>
    Option.bind (param params (lit ''created'')) parse_i64 = Some created \<and>
    created - 60 \<le> 1200 \<and> 1200 \<le> created + 360"
proof -
  let ?cr = "sample_crypto sample_verify"
  have h: "sample_key \<in> set [sample_key]" "length (signature_bytes sample_signature) = 64"
    "- (2 ^ 63) \<le> (1000::int)" "1000 + lifetime < 2 ^ 63"
    by (simp_all add: sample_signature_def lifetime_def)
  have b: "ts_base (make_to_sign ?cr sample_request (public_key_id (b64url ?cr) sample_key) 1000)
      = ts_base sample_to_sign"
    by (simp only: sample_to_sign_any)
  have "verify_request ?cr sample_request (headers_of (finish ?cr sample_to_sign sample_signature)) [sample_key] 1200
      = Inr (Verified (public_key_id (b64url ?cr) sample_key))"
    using verify_written [OF sample_codecs_ok h, of sample_verify sample_request sample_request 1200,
        unfolded sample_to_sign_any] b
    by (simp add: lifetime_def skew_def make_to_sign_def Let_def sample_crypto_def sample_verify_def)
  then show ?thesis by (rule verified_means)
qed

end
