(* ===== verification/F64.thy ===== *)
theory F64
  imports Prelude Complex_Main "HOL-Library.Log_Nat"
begin

text \<open>
  Rust's \<open>f64\<close>: IEEE binary64 with rounding to nearest, ties to even. A finite value is the rational
  it denotes, so the two zeros are one value (the code never divides by zero and never prints a
  sign of zero). \<open>rnd\<close> is the rounding of an exact result; every operation rounds once and
  overflows to an infinity. The locale \<open>rounding\<close> states what the proofs about the code use of it,
  and is interpreted on \<open>rnd\<close>.
\<close>

section \<open>Definitions\<close>

definition round_even :: "rat \<Rightarrow> int" where
  "round_even q =
     (let f = \<lfloor>q\<rfloor>; r = q - of_int f
      in if r < 1 / 2 then f else if 1 / 2 < r then f + 1 else if even f then f else f + 1)"

text \<open>The binary exponent of a positive rational, and the exponent of its last place.\<close>

definition ilog2 :: "rat \<Rightarrow> int" where
  "ilog2 x =
     (let d = bitlen (fst (quotient_of x)) - bitlen (snd (quotient_of x))
      in if 2 powi d \<le> x then d else d - 1)"

definition ulp_exp :: "rat \<Rightarrow> int" where
  "ulp_exp x = max (- 1074) (ilog2 \<bar>x\<bar> - 52)"

definition rnd :: "rat \<Rightarrow> rat" where
  "rnd x = (if x = 0 then 0 else of_int (round_even (x / 2 powi ulp_exp x)) * 2 powi ulp_exp x)"

declare power_int_numeral_neg_numeral [simp del]

section \<open>Rounding to an integer\<close>

lemma round_even_of_int [simp]: "round_even (of_int i) = i"
  by (simp add: round_even_def)

lemma round_even_bounds: "\<lfloor>q\<rfloor> \<le> round_even q \<and> round_even q \<le> \<lfloor>q\<rfloor> + 1"
  by (simp add: round_even_def Let_def)

lemma round_even_error: "\<bar>of_int (round_even q) - q\<bar> \<le> 1 / 2"
proof -
  have "of_int \<lfloor>q\<rfloor> \<le> q" "q < of_int \<lfloor>q\<rfloor> + 1" by linarith+
  then show ?thesis by (auto simp: round_even_def Let_def abs_le_iff)
qed

lemma round_even_mono:
  assumes "p \<le> q"
  shows "round_even p \<le> round_even q"
proof (cases "\<lfloor>p\<rfloor> = \<lfloor>q\<rfloor>")
  case True
  with assms show ?thesis by (simp add: round_even_def Let_def)
next
  case False
  with floor_mono [OF assms] have "\<lfloor>p\<rfloor> + 1 \<le> \<lfloor>q\<rfloor>" by simp
  with round_even_bounds [of p] round_even_bounds [of q] show ?thesis by linarith
qed

lemma round_even_minus: "round_even (- q) = - round_even q"
proof (cases "of_int \<lfloor>q\<rfloor> = q")
  case True
  then obtain i where "q = of_int i" by metis
  then show ?thesis using round_even_of_int [of "- i"] by simp
next
  case False
  then have "\<lfloor>- q\<rfloor> = - \<lfloor>q\<rfloor> - 1" by linarith
  then show ?thesis by (auto simp: round_even_def Let_def)
qed

section \<open>The binary exponent\<close>

lemma powi_mono: "a \<le> b \<Longrightarrow> (2::rat) powi a \<le> 2 powi b"
  by (rule power_int_increasing) simp_all

lemma powi_mono_iff [simp]: "(2::rat) powi a \<le> 2 powi b \<longleftrightarrow> a \<le> b"
  by (meson linorder_not_less one_less_numeral_iff power_int_strict_increasing powi_mono semiring_norm(76))

lemma powi_less_iff [simp]: "(2::rat) powi a < 2 powi b \<longleftrightarrow> a < b"
  by (meson linorder_not_less powi_mono_iff)

lemma powi_pos [simp]: "0 < (2::rat) powi a"
  by simp

lemma powi_granule: "(2::rat) powi (- 1021) = 2 powi (- 1074) * 2 ^ 53"
  using power_int_add [of "2::rat" "- 1074" 53] by simp

lemma ilog2_bounds:
  assumes "0 < x"
  shows "2 powi ilog2 x \<le> x \<and> x < 2 powi (ilog2 x + 1)"
proof -
  obtain p q where pq: "quotient_of x = (p, q)" by (cases "quotient_of x")
  from pq have q: "0 < q" and x: "x = of_int p / of_int q"
    by (auto simp: quotient_of_denom_pos quotient_of_div)
  from assms x q have p: "0 < p" by (simp add: zero_less_divide_iff)
  have pw: "\<And>n. 0 \<le> n \<Longrightarrow> (2::rat) powi n = of_int (2 ^ nat n)" by (simp add: power_int_def)
  have "1 \<le> bitlen p" "1 \<le> bitlen q" using p q by (auto simp: bitlen_alt_def)
  then have P: "2 powi (bitlen p - 1) \<le> (of_int p :: rat)" "(of_int p :: rat) < 2 powi bitlen p"
    and Q: "2 powi (bitlen q - 1) \<le> (of_int q :: rat)" "(of_int q :: rat) < 2 powi bitlen q"
    using bitlen_bounds [OF p] bitlen_bounds [OF q] by (simp_all only: pw of_int_le_iff of_int_less_iff)
  let ?d = "bitlen p - bitlen q"
  have "x < 2 powi (?d + 1)"
  proof -
    have "of_int p < 2 powi (?d + 1) * (2 powi (bitlen q - 1) :: rat)"
      using P(2) by (simp flip: power_int_add)
    also have "\<dots> \<le> 2 powi (?d + 1) * of_int q" using Q(1) by simp
    finally show ?thesis using q by (simp add: x divide_less_eq)
  qed
  moreover have "2 powi (?d - 1) \<le> x"
  proof -
    have "2 powi (?d - 1) * of_int q \<le> 2 powi (?d - 1) * (2 powi bitlen q :: rat)" using Q(2) by simp
    also have "\<dots> \<le> of_int p" using P(1) by (simp flip: power_int_add)
    finally show ?thesis using q by (simp add: x le_divide_eq)
  qed
  ultimately show ?thesis by (simp add: ilog2_def pq Let_def)
qed

lemma ilog2_mono:
  assumes "0 < x" and "x \<le> y"
  shows "ilog2 x \<le> ilog2 y"
proof -
  have "(2::rat) powi ilog2 x < 2 powi (ilog2 y + 1)"
    using ilog2_bounds [of x] ilog2_bounds [of y] assms by linarith
  then show ?thesis by simp
qed

section \<open>Rounding\<close>

lemma rnd_0 [simp]: "rnd 0 = 0"
  by (simp add: rnd_def)

lemma rnd_minus: "rnd (- x) = - rnd x"
  by (simp add: rnd_def ulp_exp_def round_even_minus flip: minus_divide_left)

lemma ulp_exp_less:
  assumes "x \<noteq> 0"
  shows "\<bar>x\<bar> < 2 powi (ulp_exp x + 53)"
proof -
  have "\<bar>x\<bar> < 2 powi (ilog2 \<bar>x\<bar> + 1)" using ilog2_bounds [of "\<bar>x\<bar>"] assms by simp
  also have "\<dots> \<le> 2 powi (ulp_exp x + 53)" by (rule powi_mono) (simp add: ulp_exp_def)
  finally show ?thesis .
qed

lemma rnd_nonneg:
  assumes "0 \<le> x"
  shows "0 \<le> rnd x"
proof (cases "x = 0")
  case False
  have "0 \<le> x / 2 powi ulp_exp x" using assms by simp
  then have "0 \<le> round_even (x / 2 powi ulp_exp x)"
    using round_even_mono [of 0 "x / 2 powi ulp_exp x"] round_even_of_int [of 0] by simp
  then show ?thesis using False by (simp add: rnd_def)
qed simp

lemma rnd_upper:
  assumes "0 < x" and "x \<le> 2 powi e" and "ulp_exp x \<le> e"
  shows "rnd x \<le> 2 powi e"
proof -
  let ?u = "ulp_exp x"
  have "x / 2 powi ?u \<le> 2 powi (e - ?u)"
    using assms(2) by (simp add: power_int_diff divide_right_mono)
  moreover have pw: "2 powi (e - ?u) = (of_int (2 ^ nat (e - ?u)) :: rat)"
    using assms(3) by (simp add: power_int_def)
  ultimately have "round_even (x / 2 powi ?u) \<le> 2 ^ nat (e - ?u)"
    using round_even_mono [of "x / 2 powi ?u" "of_int (2 ^ nat (e - ?u))"] by (simp only: round_even_of_int)
  then have "of_int (round_even (x / 2 powi ?u)) \<le> (2 powi (e - ?u) :: rat)"
    unfolding pw by (simp only: of_int_le_iff)
  then have "of_int (round_even (x / 2 powi ?u)) * 2 powi ?u \<le> (2 powi (e - ?u) * 2 powi ?u :: rat)"
    by simp
  with assms(1) show ?thesis by (simp add: rnd_def flip: power_int_add)
qed

lemma rnd_lower:
  assumes "0 < x" and "2 powi e \<le> x" and "ulp_exp x \<le> e"
  shows "2 powi e \<le> rnd x"
proof -
  let ?u = "ulp_exp x"
  have "2 powi (e - ?u) \<le> x / 2 powi ?u"
    using assms(2) by (simp add: power_int_diff divide_right_mono)
  moreover have pw: "2 powi (e - ?u) = (of_int (2 ^ nat (e - ?u)) :: rat)"
    using assms(3) by (simp add: power_int_def)
  ultimately have "2 ^ nat (e - ?u) \<le> round_even (x / 2 powi ?u)"
    using round_even_mono [of "of_int (2 ^ nat (e - ?u))" "x / 2 powi ?u"] by (simp only: round_even_of_int)
  then have "(2 powi (e - ?u) :: rat) \<le> of_int (round_even (x / 2 powi ?u))"
    unfolding pw by (simp only: of_int_le_iff)
  then have "(2 powi (e - ?u) * 2 powi ?u :: rat) \<le> of_int (round_even (x / 2 powi ?u)) * 2 powi ?u"
    by simp
  with assms(1) show ?thesis by (simp add: rnd_def flip: power_int_add)
qed

lemma rnd_mono_pos:
  assumes "0 < x" and "x \<le> y"
  shows "rnd x \<le> rnd y"
proof -
  have le: "ulp_exp x \<le> ulp_exp y" using ilog2_mono [OF assms] assms by (simp add: ulp_exp_def)
  show ?thesis
  proof (cases "ulp_exp x = ulp_exp y")
    case True
    then have "x / 2 powi ulp_exp x \<le> y / 2 powi ulp_exp y" using assms by (simp add: divide_right_mono)
    then show ?thesis using assms round_even_mono True by (auto simp: rnd_def)
  next
    case False
    let ?e = "ulp_exp x + 53"
    have y: "ilog2 y = ulp_exp y + 52" using le False assms by (auto simp: ulp_exp_def)
    have "2 powi ?e \<le> (2 powi ilog2 y :: rat)" using le False by (simp add: y)
    also have "\<dots> \<le> rnd y"
      by (rule rnd_lower) (use assms ilog2_bounds [of y] y in auto)
    finally have "2 powi ?e \<le> rnd y" .
    moreover have "rnd x \<le> 2 powi ?e"
      by (rule rnd_upper) (use assms ulp_exp_less [of x] in auto)
    ultimately show ?thesis by simp
  qed
qed

lemma rnd_mono:
  assumes "x \<le> y"
  shows "rnd x \<le> rnd y"
proof (cases "0 < x")
  case True
  with assms show ?thesis by (rule_tac rnd_mono_pos)
next
  case False
  show ?thesis
  proof (cases "0 \<le> y")
    case True
    have "rnd x \<le> 0" using rnd_nonneg [of "- x"] False by (simp add: rnd_minus)
    with rnd_nonneg [OF True] show ?thesis by simp
  next
    case neg: False
    then have "rnd (- y) \<le> rnd (- x)" using assms by (intro rnd_mono_pos) auto
    then show ?thesis by (simp add: rnd_minus)
  qed
qed

lemma rnd_exact:
  assumes "\<bar>m\<bar> \<le> 2 ^ 53" and "- 1074 \<le> e"
  shows "rnd (of_int m * 2 powi e) = of_int m * 2 powi e"
proof (cases "m = 0")
  case False
  let ?x = "of_int m * 2 powi e :: rat" let ?u = "ulp_exp ?x"
  have x: "?x \<noteq> 0" using False by simp
  have "\<exists>k. ?x / 2 powi ?u = of_int k"
  proof (cases "?u \<le> e")
    case True
    then have "?x / 2 powi ?u = of_int (m * 2 ^ nat (e - ?u))"
      by (simp add: power_int_diff flip: power_int_nonneg_exp)
    then show ?thesis by blast
  next
    case False
    then have u: "?u = ilog2 \<bar>?x\<bar> - 52" using assms(2) by (auto simp: ulp_exp_def)
    have b: "2 powi (?u + 52) \<le> \<bar>?x\<bar>" using ilog2_bounds [of "\<bar>?x\<bar>"] x by (simp add: u)
    have m: "\<bar>of_int m\<bar> \<le> (2 ^ 53 :: rat)" using assms(1) by (simp flip: of_int_abs)
    have "\<bar>?x\<bar> \<le> 2 ^ 53 * 2 powi e" using m by (simp add: abs_mult)
    also have "\<dots> = 2 powi (53 + e)" by (simp add: power_int_add)
    finally have "?u + 52 \<le> 53 + e" using b powi_mono_iff order_trans by blast
    with False have u1: "?u = e + 1" by simp
    from b have "2 powi (e + 53) \<le> \<bar>of_int m\<bar> * (2 powi e :: rat)" by (simp add: u1 abs_mult add.commute)
    then have "2 ^ 53 * (2 powi e) \<le> \<bar>of_int m\<bar> * (2 powi e :: rat)" by (simp add: power_int_add mult.commute)
    then have "(2 ^ 53 :: rat) \<le> \<bar>of_int m\<bar>" by simp
    with m have "\<bar>of_int m\<bar> = (2 ^ 53 :: rat)" by simp
    then have "of_int \<bar>m\<bar> = (of_int (2 ^ 53) :: rat)" by simp
    then have "\<bar>m\<bar> = 2 ^ 53" by (simp only: of_int_eq_iff)
    then have "m = 2 ^ 53 \<or> m = - (2 ^ 53)" by linarith
    then have "even m" by auto
    then obtain k where "m = 2 * k" by blast
    have "?x / 2 powi ?u = of_int k" unfolding u1 by (simp add: \<open>m = 2 * k\<close> power_int_add)
    then show ?thesis by blast
  qed
  then obtain k where k: "?x / 2 powi ?u = of_int k" by blast
  then have "rnd ?x = of_int k * 2 powi ?u" using x by (simp add: rnd_def)
  also have "\<dots> = ?x" by (simp flip: k)
  finally show ?thesis .
qed simp

lemma rnd_idem [simp]: "rnd (rnd x) = rnd x"
proof (cases "x = 0")
  case False
  let ?u = "ulp_exp x" and ?m = "round_even (x / 2 powi ulp_exp x)"
  have "\<bar>x\<bar> / 2 powi ?u \<le> 2 powi 53"
    using ulp_exp_less [OF False] by (simp add: power_int_add divide_le_eq mult.commute)
  then have "\<bar>x / 2 powi ?u\<bar> \<le> of_int (2 ^ 53)" by simp
  then have "x / 2 powi ?u \<le> of_int (2 ^ 53)" "of_int (- (2 ^ 53)) \<le> x / 2 powi ?u"
    by (simp_all only: abs_le_iff of_int_minus) linarith
  then have "?m \<le> 2 ^ 53" "- (2 ^ 53) \<le> ?m"
    using round_even_mono [of "x / 2 powi ?u" "of_int (2 ^ 53)"]
      round_even_mono [of "of_int (- (2 ^ 53))" "x / 2 powi ?u"]
    by (simp_all only: round_even_of_int)
  then have "\<bar>?m\<bar> \<le> 2 ^ 53" by linarith
  moreover have "- 1074 \<le> ?u" by (simp add: ulp_exp_def)
  ultimately show ?thesis using rnd_exact [of ?m ?u] False by (simp add: rnd_def [of x])
qed simp

lemma rnd_of_int: "\<bar>m\<bar> \<le> 2 ^ 53 \<Longrightarrow> rnd (of_int m) = of_int m"
  using rnd_exact [of m 0] by simp

text \<open>The relative error is one part in \<open>2 ^ 53\<close>, below the normal range half the smallest number.\<close>

lemma rnd_error: "\<bar>rnd x - x\<bar> \<le> 2 powi (ulp_exp x - 1)"
proof (cases "x = 0")
  case False
  let ?u = "ulp_exp x"
  have "rnd x - x = (of_int (round_even (x / 2 powi ?u)) - x / 2 powi ?u) * 2 powi ?u"
    using False by (simp add: rnd_def left_diff_distrib)
  then have "\<bar>rnd x - x\<bar> = \<bar>of_int (round_even (x / 2 powi ?u)) - x / 2 powi ?u\<bar> * 2 powi ?u"
    by (simp only: abs_mult abs_of_pos [OF powi_pos])
  also have "\<dots> \<le> 1 / 2 * 2 powi ?u"
    by (rule mult_right_mono [OF round_even_error]) simp
  finally show ?thesis by (simp add: power_int_diff)
qed simp

lemma rnd_error_rel: "\<bar>rnd x - x\<bar> \<le> max (\<bar>x\<bar> / 2 ^ 53) (2 powi (- 1075))"
proof (cases "x = 0 \<or> ulp_exp x = - 1074")
  case True
  then show ?thesis using rnd_error [of x] by (auto simp: le_max_iff_disj)
next
  case False
  then have u: "ulp_exp x = ilog2 \<bar>x\<bar> - 52" by (auto simp: ulp_exp_def)
  have "2 powi (ulp_exp x + 52) \<le> \<bar>x\<bar>" using ilog2_bounds [of "\<bar>x\<bar>"] False by (simp add: u)
  then have "2 powi (ulp_exp x + 52) / 2 ^ 53 \<le> \<bar>x\<bar> / 2 ^ 53" by (simp add: divide_right_mono)
  moreover have "2 powi (ulp_exp x + 52) / 2 ^ 53 = (2 powi (ulp_exp x - 1) :: rat)"
    by (simp add: power_int_add power_int_diff)
  ultimately show ?thesis using rnd_error [of x] by (simp add: le_max_iff_disj)
qed

lemma rnd_multiple: "\<exists>k. rnd x = of_int k * 2 powi (- 1074)"
proof (cases "x = 0")
  case True
  then show ?thesis by (intro exI [of _ 0]) simp
next
  case False
  let ?u = "ulp_exp x"
  have "0 \<le> ?u + 1074" by (simp add: ulp_exp_def)
  then have "(2 powi (?u + 1074) :: rat) = of_int (2 ^ nat (?u + 1074))" by (simp add: power_int_def)
  moreover have "(2 powi ?u :: rat) = 2 powi (?u + 1074) * 2 powi (- 1074)" by (simp flip: power_int_add)
  ultimately have "(2 powi ?u :: rat) = of_int (2 ^ nat (?u + 1074)) * 2 powi (- 1074)" by simp
  then have "rnd x = of_int (round_even (x / 2 powi ?u) * 2 ^ nat (?u + 1074)) * 2 powi (- 1074)"
    using False by (simp add: rnd_def)
  then show ?thesis by blast
qed

lemma rnd_exact_difference:
  assumes "rnd a = a" and "rnd b = b" and "\<bar>a - b\<bar> \<le> 2 powi (- 1021)"
  shows "rnd (a - b) = a - b"
proof -
  obtain k l where "a = of_int k * 2 powi (- 1074)" "b = of_int l * 2 powi (- 1074)"
    using rnd_multiple [of a] rnd_multiple [of b] assms(1,2) by metis
  then have d: "a - b = of_int (k - l) * 2 powi (- 1074)" by (simp add: left_diff_distrib)
  have "\<bar>of_int (k - l)\<bar> * 2 powi (- 1074) \<le> (2 ^ 53 * 2 powi (- 1074) :: rat)"
    using assms(3) by (simp only: d abs_mult abs_of_pos [OF powi_pos] powi_granule mult.commute)
  then have "\<bar>of_int (k - l)\<bar> \<le> (of_int (2 ^ 53) :: rat)" by (simp only: mult_le_cancel_right) simp
  then have "\<bar>k - l\<bar> \<le> 2 ^ 53" by (simp only: of_int_le_iff flip: of_int_abs)
  then show ?thesis unfolding d by (rule rnd_exact) simp
qed

section \<open>What the code's arithmetic relies on\<close>

locale rounding =
  fixes r :: "rat \<Rightarrow> rat"
  assumes mono: "x \<le> y \<Longrightarrow> r x \<le> r y"
    and odd: "r (- x) = - r x"
    and idem: "r (r x) = r x"
    and small_int: "\<bar>m\<bar> \<le> 2 ^ 53 \<Longrightarrow> r (of_int m) = of_int m"
    and error: "\<bar>r x - x\<bar> \<le> max (\<bar>x\<bar> / 2 ^ 53) (2 powi (- 1075))"
    and exact_difference: "r a = a \<Longrightarrow> r b = b \<Longrightarrow> \<bar>a - b\<bar> \<le> 2 powi (- 1021) \<Longrightarrow> r (a - b) = a - b"
begin

lemma zero: "r 0 = 0"
  using small_int [of 0] by simp

lemma le_fixed: "x \<le> y \<Longrightarrow> r y = y \<Longrightarrow> r x \<le> y"
  using mono [of x y] by simp

lemma ge_fixed: "y \<le> x \<Longrightarrow> r y = y \<Longrightarrow> y \<le> r x"
  using mono [of y x] by simp

lemma nonneg: "0 \<le> x \<Longrightarrow> 0 \<le> r x"
  using ge_fixed [of 0 x] zero by simp

lemma nonpos: "x \<le> 0 \<Longrightarrow> r x \<le> 0"
  using le_fixed [of x 0] zero by simp

lemma abs_le: "\<bar>x\<bar> \<le> b \<Longrightarrow> r b = b \<Longrightarrow> \<bar>r x\<bar> \<le> b"
  using le_fixed [of x b] ge_fixed [of "- b" x] odd [of b] by (simp add: abs_le_iff)

lemma fixed_minus: "r x = x \<Longrightarrow> r (- x) = - x"
  by (simp add: odd)

text \<open>A step of at most half the distance from \<open>b\<close> towards \<open>a\<close>, rounded three times, does not overshoot.\<close>

lemma half_step:
  assumes "r a = a" and "r b = b" and "b \<le> a" and "0 \<le> g" and "g \<le> 1 / 2"
  shows "r (g * r (a - b)) \<le> a - b"
proof (cases "a - b \<le> 2 powi (- 1021)")
  case True
  then have "r (a - b) = a - b" using exact_difference assms(1-3) by simp
  moreover have "g * (a - b) \<le> 1 * (a - b)" using assms(3,5) by (intro mult_right_mono) simp_all
  ultimately show ?thesis using le_fixed [of "g * (a - b)" "a - b"] by simp
next
  case False
  let ?y = "a - b"
  have y: "2 powi (- 1021) \<le> ?y" "0 \<le> ?y" using False assms(3) by simp_all
  have tiny: "(2 powi (- 1075) :: rat) \<le> ?y / 2 ^ 53"
  proof -
    have "(2 powi (- 1075) :: rat) \<le> 2 powi (- 1074)" by (rule powi_mono) simp
    also have "\<dots> = 2 powi (- 1021) / 2 ^ 53" unfolding powi_granule by simp
    also have "\<dots> \<le> ?y / 2 ^ 53" using y(1) by (rule divide_right_mono) simp
    finally show ?thesis .
  qed
  have "\<bar>r ?y - ?y\<bar> \<le> ?y / 2 ^ 53"
    using error [of ?y] tiny y(2) by (simp only: abs_of_nonneg max_absorb1)
  then have "r ?y \<le> ?y + ?y / 2 ^ 53" by linarith
  then have "g * r ?y \<le> 1 / 2 * (?y + ?y / 2 ^ 53)"
    using assms(4,5) nonneg [OF y(2)] by (intro mult_mono) simp_all
  then have g: "g * r ?y \<le> 3 / 4 * ?y" using y(2) by (simp add: field_simps)
  have "0 \<le> g * r ?y" using assms(4) nonneg [OF y(2)] by simp
  then have "r (g * r ?y) \<le> g * r ?y + max (g * r ?y / 2 ^ 53) (2 powi (- 1075))"
    using error [of "g * r ?y"] by (simp add: abs_le_iff)
  also have "max (g * r ?y / 2 ^ 53) (2 powi (- 1075)) \<le> ?y / 2 ^ 53"
    using tiny g y(2) by (simp add: field_simps)
  finally show ?thesis using g y(2) by (simp add: field_simps)
qed

lemma half_step_between:
  assumes "r a = a" and "r b = b" and "b \<le> a" and "0 \<le> g" and "g \<le> 1 / 2"
  shows "b \<le> r (b + r (g * r (a - b))) \<and> r (b + r (g * r (a - b))) \<le> a"
proof
  have "0 \<le> r (g * r (a - b))" using assms(3,4) by (intro nonneg mult_nonneg_nonneg) simp_all
  then show "b \<le> r (b + r (g * r (a - b)))" using ge_fixed assms(2) by simp
  show "r (b + r (g * r (a - b))) \<le> a" using le_fixed [OF _ assms(1)] half_step [OF assms] by simp
qed

text \<open>The same step towards \<open>a\<close> from either side stays between the two.\<close>

lemma half_step_hull:
  assumes "r a = a" and "r b = b" and "0 \<le> g" and "g \<le> 1 / 2"
  shows "min a b \<le> r (b + r (g * r (a - b))) \<and> r (b + r (g * r (a - b))) \<le> max a b"
proof (cases "b \<le> a")
  case True
  with half_step_between [OF assms(1,2) True assms(3,4)] show ?thesis by simp
next
  case False
  have "r (- b + r (g * r (- a - - b))) = - r (b + r (g * r (a - b)))"
  proof -
    have "r (- a - - b) = - r (a - b)" using odd [of "a - b"] by simp
    then have "r (g * r (- a - - b)) = - r (g * r (a - b))" using odd [of "g * r (a - b)"] by simp
    then show ?thesis using odd [of "b + r (g * r (a - b))"] by simp
  qed
  with half_step_between [of "- a" "- b" g] assms False show ?thesis by (simp add: odd)
qed

end

interpretation f64r: rounding rnd
  by unfold_locales (fact rnd_mono rnd_minus rnd_idem rnd_of_int rnd_error_rel rnd_exact_difference)+

section \<open>The type and its operations\<close>

datatype f64 = Fin rat | Inf bool | NaN

definition f64_of :: "rat \<Rightarrow> f64" where
  "f64_of x = (let r = rnd x in if \<bar>r\<bar> < 2 powi 1024 then Fin r else Inf (r < 0))"

definition f64_of_nat :: "nat \<Rightarrow> f64" where
  "f64_of_nat n = f64_of (of_nat n)"

fun f64_neg :: "f64 \<Rightarrow> f64" where
  "f64_neg (Fin a) = Fin (- a)"
| "f64_neg (Inf s) = Inf (\<not> s)"
| "f64_neg NaN = NaN"

fun f64_abs :: "f64 \<Rightarrow> f64" where
  "f64_abs (Fin a) = Fin \<bar>a\<bar>"
| "f64_abs (Inf s) = Inf False"
| "f64_abs NaN = NaN"

fun f64_add :: "f64 \<Rightarrow> f64 \<Rightarrow> f64" where
  "f64_add (Fin a) (Fin b) = f64_of (a + b)"
| "f64_add NaN y = NaN"
| "f64_add x NaN = NaN"
| "f64_add (Inf s) (Inf t) = (if s = t then Inf s else NaN)"
| "f64_add (Inf s) y = Inf s"
| "f64_add x (Inf t) = Inf t"

definition f64_sub :: "f64 \<Rightarrow> f64 \<Rightarrow> f64" where
  "f64_sub x y = f64_add x (f64_neg y)"

fun f64_mul :: "f64 \<Rightarrow> f64 \<Rightarrow> f64" where
  "f64_mul (Fin a) (Fin b) = f64_of (a * b)"
| "f64_mul NaN y = NaN"
| "f64_mul x NaN = NaN"
| "f64_mul (Inf s) (Inf t) = Inf (s \<noteq> t)"
| "f64_mul (Inf s) (Fin b) = (if b = 0 then NaN else Inf (s \<noteq> (b < 0)))"
| "f64_mul (Fin a) (Inf t) = (if a = 0 then NaN else Inf (t \<noteq> (a < 0)))"

fun f64_div :: "f64 \<Rightarrow> f64 \<Rightarrow> f64" where
  "f64_div (Fin a) (Fin b) = (if b \<noteq> 0 then f64_of (a / b) else if a = 0 then NaN else Inf (a < 0))"
| "f64_div NaN y = NaN"
| "f64_div x NaN = NaN"
| "f64_div (Inf s) (Inf t) = NaN"
| "f64_div (Inf s) (Fin b) = Inf (s \<noteq> (b < 0))"
| "f64_div (Fin a) (Inf t) = Fin 0"

fun f64_le :: "f64 \<Rightarrow> f64 \<Rightarrow> bool" where
  "f64_le (Fin a) (Fin b) \<longleftrightarrow> a \<le> b"
| "f64_le NaN y \<longleftrightarrow> False"
| "f64_le x NaN \<longleftrightarrow> False"
| "f64_le (Inf s) y \<longleftrightarrow> s \<or> y = Inf False"
| "f64_le (Fin a) (Inf t) \<longleftrightarrow> \<not> t"

definition f64_eq :: "f64 \<Rightarrow> f64 \<Rightarrow> bool" where
  "f64_eq x y \<longleftrightarrow> f64_le x y \<and> f64_le y x"

definition f64_lt :: "f64 \<Rightarrow> f64 \<Rightarrow> bool" where
  "f64_lt x y \<longleftrightarrow> f64_le x y \<and> \<not> f64_le y x"

text \<open>\<open>f64::max\<close> and \<open>f64::min\<close> ignore a single NaN; \<open>clamp\<close> keeps it.\<close>

definition f64_max :: "f64 \<Rightarrow> f64 \<Rightarrow> f64" where
  "f64_max x y = (if x = NaN then y else if y = NaN then x else if f64_le x y then y else x)"

definition f64_min :: "f64 \<Rightarrow> f64 \<Rightarrow> f64" where
  "f64_min x y = (if x = NaN then y else if y = NaN then x else if f64_le x y then x else y)"

definition f64_clamp :: "f64 \<Rightarrow> f64 \<Rightarrow> f64 \<Rightarrow> f64" where
  "f64_clamp x lo hi = (if f64_lt x lo then lo else if f64_lt hi x then hi else x)"

definition is_finite :: "f64 \<Rightarrow> bool" where
  "is_finite x = (case x of Fin _ \<Rightarrow> True | _ \<Rightarrow> False)"

text \<open>A finite value below \<open>b\<close> in absolute value; every value of the type denotes a representable one.\<close>

definition f64_ok :: "f64 \<Rightarrow> bool" where
  "f64_ok x = (case x of Fin a \<Rightarrow> rnd a = a \<and> \<bar>a\<bar> < 2 powi 1024 | _ \<Rightarrow> True)"

section \<open>Values that do not overflow\<close>

lemma f64_of_Fin: "\<bar>x\<bar> \<le> 2 ^ 200 \<Longrightarrow> f64_of x = Fin (rnd x)"
proof -
  assume x: "\<bar>x\<bar> \<le> 2 ^ 200"
  have "rnd (2 powi 200) = 2 powi 200" using rnd_exact [of 1 200] by simp
  then have "\<bar>rnd x\<bar> \<le> 2 powi 200" using x f64r.abs_le [of x "2 powi 200"] by simp
  also have "\<dots> < (2 powi 1024 :: rat)" by (rule power_int_strict_increasing) simp_all
  finally show ?thesis by (simp add: f64_of_def Let_def)
qed

lemma f64_of_ok [simp]: "f64_ok (f64_of x)"
  by (simp add: f64_of_def f64_ok_def Let_def)

lemma f64_Fin_simps [simp]:
  "f64_sub (Fin a) (Fin b) = f64_of (a - b)"
  "f64_eq (Fin a) (Fin b) \<longleftrightarrow> a = b"
  "f64_lt (Fin a) (Fin b) \<longleftrightarrow> a < b"
  "f64_max (Fin a) (Fin b) = Fin (max a b)"
  "f64_min (Fin a) (Fin b) = Fin (min a b)"
  "is_finite (Fin a)"
  by (auto simp: f64_sub_def f64_eq_def f64_lt_def f64_max_def f64_min_def is_finite_def max_def min_def)

lemma f64_clamp_Fin [simp]: "l \<le> h \<Longrightarrow> f64_clamp (Fin a) (Fin l) (Fin h) = Fin (max l (min h a))"
  by (auto simp: f64_clamp_def max_def min_def)

lemma is_finite_iff: "is_finite x \<longleftrightarrow> (\<exists>a. x = Fin a)"
  by (auto simp: is_finite_def split: f64.splits)

lemma f64_of_small_int [simp]: "\<bar>m\<bar> \<le> 2 ^ 53 \<Longrightarrow> f64_of (of_int m) = Fin (of_int m)"
proof -
  assume m: "\<bar>m\<bar> \<le> 2 ^ 53"
  then have "\<bar>of_int m\<bar> \<le> (of_int (2 ^ 53) :: rat)" by (simp only: of_int_le_iff flip: of_int_abs)
  then show ?thesis using m by (simp add: f64_of_Fin rnd_of_int)
qed

lemma f64_of_nat_small: "n \<le> 2 ^ 53 \<Longrightarrow> f64_of_nat n = Fin (of_nat n)"
proof -
  assume "n \<le> 2 ^ 53"
  then have "\<bar>int n\<bar> \<le> 2 ^ 53" by simp
  from f64_of_small_int [OF this] show ?thesis by (simp add: f64_of_nat_def)
qed

text \<open>Rounding of the numerals and dyadic fractions the code writes.\<close>

lemma rnd_numeral [simp]: "(numeral n :: int) \<le> 2 ^ 53 \<Longrightarrow> rnd (numeral n) = numeral n"
  using rnd_of_int [of "numeral n"] by simp

lemma rnd_1 [simp]: "rnd 1 = 1"
  using rnd_of_int [of 1] by simp

lemma rnd_fraction: "\<bar>m\<bar> \<le> 2 ^ 53 \<Longrightarrow> k \<le> 1074 \<Longrightarrow> rnd (of_int m / 2 ^ k) = of_int m / 2 ^ k"
  using rnd_exact [of m "- int k"] by (simp add: power_int_minus divide_inverse)

lemma rnd_halves [simp]: "rnd (1 / 2) = 1 / 2" "rnd (1 / 4) = 1 / 4" "rnd (3 / 4) = 3 / 4"
  using rnd_fraction [of 1 1] rnd_fraction [of 1 2] rnd_fraction [of 3 2] by simp_all

lemma f64_of_consts [simp]:
  "f64_of 0 = Fin 0" "f64_of 1 = Fin 1" "f64_of (- 1) = Fin (- 1)" "f64_of (1 / 2) = Fin (1 / 2)"
  "f64_of (1 / 4) = Fin (1 / 4)"
  by (simp_all add: f64_of_Fin rnd_minus)

lemma f64_of_numeral [simp]: "(numeral n :: int) \<le> 2 ^ 53 \<Longrightarrow> f64_of (numeral n) = Fin (numeral n)"
  using f64_of_small_int [of "numeral n"] by simp

lemma rnd_near: "\<bar>x\<bar> \<le> 1 \<Longrightarrow> \<bar>rnd x - x\<bar> \<le> 1 / 2 ^ 53"
proof -
  assume x: "\<bar>x\<bar> \<le> 1"
  have "(2 powi (- 1075) :: rat) \<le> 2 powi (- 53)" by (rule powi_mono) simp
  also have "\<dots> = 1 / 2 ^ 53" by (simp only: power_int_minus divide_inverse power_int_numeral mult_1)
  finally have "(2 powi (- 1075) :: rat) \<le> 1 / 2 ^ 53" .
  moreover have "\<bar>x\<bar> / 2 ^ 53 \<le> 1 / 2 ^ 53" by (rule divide_right_mono [OF x]) simp
  ultimately show ?thesis by (intro order_trans [OF rnd_error_rel] max.boundedI)
qed

lemma rnd_near_bounds:
  assumes "\<bar>x\<bar> \<le> 1"
  shows "x - 1 / 2 ^ 53 \<le> rnd x" and "rnd x \<le> x + 1 / 2 ^ 53"
  using rnd_near [OF assms] unfolding abs_le_iff by linarith+

text \<open>A finite value within bounds.\<close>

definition fin_in :: "rat \<Rightarrow> rat \<Rightarrow> f64 \<Rightarrow> bool" where
  "fin_in lo hi x = (case x of Fin a \<Rightarrow> rnd a = a \<and> lo \<le> a \<and> a \<le> hi | _ \<Rightarrow> False)"

lemma fin_in_Fin [simp]: "fin_in lo hi (Fin a) \<longleftrightarrow> rnd a = a \<and> lo \<le> a \<and> a \<le> hi"
  by (simp add: fin_in_def)

lemma fin_inE [elim?]:
  assumes "fin_in lo hi x"
  obtains a where "x = Fin a" "rnd a = a" "lo \<le> a" "a \<le> hi"
  using assms by (auto simp: fin_in_def split: f64.splits)

lemma fin_in_mono: "fin_in lo hi x \<Longrightarrow> lo' \<le> lo \<Longrightarrow> hi \<le> hi' \<Longrightarrow> fin_in lo' hi' x"
  by (auto simp: fin_in_def split: f64.splits)

lemma fin_in_of:
  assumes "lo \<le> x" and "x \<le> hi" and "rnd lo = lo" and "rnd hi = hi" and "- (2 ^ 200) \<le> lo" and "hi \<le> 2 ^ 200"
  shows "fin_in lo hi (f64_of x)"
proof -
  have "\<bar>x\<bar> \<le> 2 ^ 200" using assms by (simp only: abs_le_iff) linarith
  then show ?thesis using f64_of_Fin [of x] f64r.ge_fixed [OF assms(1,3)] f64r.le_fixed [OF assms(2,4)] by simp
qed

lemma fin_in_clamp:
  assumes "x \<noteq> NaN" and "lo \<le> hi" and "rnd lo = lo" and "rnd hi = hi" and "f64_ok x"
  shows "fin_in lo hi (f64_clamp x (Fin lo) (Fin hi))"
proof (cases x)
  case (Fin a)
  with assms show ?thesis by (auto simp: f64_ok_def max_def min_def)
next
  case (Inf b)
  with assms(2-4) show ?thesis by (cases b) (auto simp: f64_clamp_def f64_lt_def)
qed (use assms in simp)

text \<open>The order on numbers, infinities included.\<close>

lemma f64_le_trans: "f64_le x y \<Longrightarrow> f64_le y z \<Longrightarrow> f64_le x z"
  by (cases x; cases y; cases z) (simp_all, blast)

lemma f64_le_refl: "x \<noteq> NaN \<Longrightarrow> f64_le x x"
  by (cases x) auto

lemma f64_le_linear: "x \<noteq> NaN \<Longrightarrow> y \<noteq> NaN \<Longrightarrow> f64_le x y \<or> f64_le y x"
  by (cases x; cases y) auto

lemma f64_min_max:
  assumes "x \<noteq> NaN" and "y \<noteq> NaN"
  shows "f64_min x y \<noteq> NaN" "f64_le (f64_min x y) x" "f64_le (f64_min x y) y"
    and "f64_max x y \<noteq> NaN" "f64_le x (f64_max x y)" "f64_le y (f64_max x y)"
  using assms f64_le_linear [OF assms] f64_le_refl by (auto simp: f64_min_def f64_max_def)

end
