(* ===== verification/BTree.thy ===== *)
theory BTree
  imports Ids "HOL-Library.List_Lexorder"
begin

text \<open>
  \<open>BTreeMap\<close> where the order of its entries matters: an association list with strictly increasing
  keys. \<open>bt_entry\<close> is \<open>entry(k).or_insert(d)\<close> followed by a mutation of the slot, \<open>map_of\<close> is
  \<open>get\<close>. The order of slugs is that of their strings, code point by code point.
\<close>

section \<open>Definitions\<close>

type_synonym ('k, 'v) btree = "('k \<times> 'v) list"

fun bt_entry :: "'k::linorder \<Rightarrow> 'v \<Rightarrow> ('v \<Rightarrow> 'v) \<Rightarrow> ('k, 'v) btree \<Rightarrow> ('k, 'v) btree" where
  "bt_entry k d f [] = [(k, f d)]"
| "bt_entry k d f ((k', v) # m) =
     (if k < k' then (k, f d) # (k', v) # m
      else if k = k' then (k, f v) # m
      else (k', v) # bt_entry k d f m)"

definition bt_ok :: "('k::linorder, 'v) btree \<Rightarrow> bool" where
  "bt_ok m \<longleftrightarrow> sorted_wrt (<) (map fst m)"

definition bt_values :: "('v \<Rightarrow> 'v) \<Rightarrow> ('k, 'v) btree \<Rightarrow> ('k, 'v) btree" where
  "bt_values f m = map (\<lambda>(k, v). (k, f v)) m"

instantiation slug :: linorder
begin
definition less_eq_slug :: "slug \<Rightarrow> slug \<Rightarrow> bool" where
  "a \<le> b \<longleftrightarrow> slug_str a \<le> slug_str b"
definition less_slug :: "slug \<Rightarrow> slug \<Rightarrow> bool" where
  "a < b \<longleftrightarrow> slug_str a < slug_str b"
instance by standard (auto simp: less_eq_slug_def less_slug_def slug.expand)
end

section \<open>Lemmas\<close>

lemma bt_ok_Nil [simp]: "bt_ok []"
  by (simp add: bt_ok_def)

lemma bt_entry_keys: "set (map fst (bt_entry k d f m)) = insert k (set (map fst m))"
  by (induction k d f m rule: bt_entry.induct) auto

lemma bt_entry_ok [intro]: "bt_ok m \<Longrightarrow> bt_ok (bt_entry k d f m)"
proof (induction m)
  case (Cons e m)
  obtain k' v where e: "e = (k', v)" by (cases e)
  show ?case
    using Cons bt_entry_keys [of k d f m] unfolding e
    by (fastforce simp: bt_ok_def simp del: set_map)
qed (simp add: bt_ok_def)

lemma map_of_bt_entry:
  assumes "bt_ok m"
  shows "map_of (bt_entry k d f m) = (map_of m)(k \<mapsto> f (case map_of m k of None \<Rightarrow> d | Some v \<Rightarrow> v))"
  using assms
proof (induction m)
  case (Cons e m)
  obtain k' v where e: "e = (k', v)" by (cases e)
  have "k < k' \<Longrightarrow> k \<notin> fst ` set m" using Cons.prems unfolding e by (fastforce simp: bt_ok_def)
  then have "k < k' \<Longrightarrow> map_of m k = None" by (simp add: map_of_eq_None_iff)
  moreover have "bt_ok m" using Cons.prems by (simp add: bt_ok_def e)
  ultimately show ?case using Cons.IH by (auto simp: e fun_eq_iff)
qed simp

lemma bt_entry_values:
  "x \<in> set (bt_entry k d f m) \<Longrightarrow> x \<in> set m \<or> x = (k, f d) \<or> (\<exists>v. (k, v) \<in> set m \<and> x = (k, f v))"
  by (induction m) (auto split: if_splits)

lemma bt_values_ok [simp]: "bt_ok (bt_values f m) \<longleftrightarrow> bt_ok m"
proof -
  have "map fst (bt_values f m) = map fst m" by (auto simp: bt_values_def)
  then show ?thesis by (simp add: bt_ok_def)
qed

lemma map_of_bt_values: "map_of (bt_values f m) k = map_option f (map_of m k)"
  by (induction m) (auto simp: bt_values_def)

lemma set_bt_values: "x \<in> set (bt_values f m) \<longleftrightarrow> (\<exists>k v. (k, v) \<in> set m \<and> x = (k, f v))"
  by (force simp: bt_values_def image_iff)

lemma bt_ok_map_of: "bt_ok m \<Longrightarrow> map_of m k = Some v \<longleftrightarrow> (k, v) \<in> set m"
  by (metis bt_ok_def map_of_eq_Some_iff strict_sorted_iff)

end
