(* ===== verification/Forgetting.thy ===== *)
theory Forgetting
  imports F64 BTree "HOL-Library.Signed_Division"
begin

text \<open>
  \<open>crates/domain/src/psyche/forgetting.rs\<close>: the ledger of traces an employee keeps of its
  counterparties, how an observation moves a trace, how time fades it, and the stance read from it.
  All arithmetic is \<open>f64\<close>. A duration is its \<open>num_seconds()\<close>. The lemmas show that the ledger stays
  in range, that first-hand mistrust has a floor, and that hostility always dies out.
\<close>

section \<open>Definitions\<close>

definition derive_seconds :: int where "derive_seconds = 1440"

definition grace_derives :: u64 where "grace_derives = 180"

definition fade_per_derive :: f64 where "fade_per_derive = f64_of (5 / 10000)"

definition mistrust_floor :: f64 where "mistrust_floor = f64_of (4 / 10)"

definition hearsay_cap :: f64 where "hearsay_cap = f64_of (45 / 100)"

definition surprise_min :: f64 where "surprise_min = f64_of (5 / 10)"

definition learning_rate :: f64 where "learning_rate = f64_of (3 / 10)"

definition extinction_per_derive :: f64 where "extinction_per_derive = f64_of (1 / 1000)"

definition friction_recovery_per_derive :: f64 where "friction_recovery_per_derive = f64_of (1 / 1000)"

definition hostility_threshold :: f64 where "hostility_threshold = f64_of (4 / 10)"

definition grudge_cap :: f64 where "grudge_cap = f64_of 2"

definition f64_epsilon :: f64 where "f64_epsilon = Fin (2 powi (- 52))"

datatype trace_provenance = Hearsay | FirstHand

definition provenance_max :: "trace_provenance \<Rightarrow> trace_provenance \<Rightarrow> trace_provenance" where
  "provenance_max a b = (if a = FirstHand \<or> b = FirstHand then FirstHand else Hearsay)"

datatype sentiment = Adverse | Favourable

fun sentiment_polarity :: "sentiment \<Rightarrow> f64" where
  "sentiment_polarity Adverse = f64_of (- 1)"
| "sentiment_polarity Favourable = f64_of 1"

datatype trace_key = TraceKey (key_counterparty: slug) (key_topic: slug)

instantiation trace_key :: linorder
begin
definition less_eq_trace_key :: "trace_key \<Rightarrow> trace_key \<Rightarrow> bool" where
  "a \<le> b \<longleftrightarrow> key_counterparty a < key_counterparty b \<or>
     key_counterparty a = key_counterparty b \<and> key_topic a \<le> key_topic b"
definition less_trace_key :: "trace_key \<Rightarrow> trace_key \<Rightarrow> bool" where
  "a < b \<longleftrightarrow> key_counterparty a < key_counterparty b \<or>
     key_counterparty a = key_counterparty b \<and> key_topic a < key_topic b"
instance by standard (auto simp: less_eq_trace_key_def less_trace_key_def trace_key.expand)
end

record trace =
  tr_sentiment :: sentiment
  tr_provenance :: trace_provenance
  tr_strength :: f64
  tr_expectation :: f64
  tr_idle_derives :: u64


record ledger =
  lg_traces :: "(trace_key, trace) btree"
  lg_resting_friction :: f64
  lg_forgetting :: bool
  lg_residue_seconds :: int

definition ledger_new :: ledger where
  "ledger_new = \<lparr>lg_traces = [], lg_resting_friction = f64_of 0, lg_forgetting = True, lg_residue_seconds = 0\<rparr>"

definition ledger_without_forgetting :: ledger where
  "ledger_without_forgetting =
     \<lparr>lg_traces = [], lg_resting_friction = f64_of 0, lg_forgetting = False, lg_residue_seconds = 0\<rparr>"

definition surprise_of :: "sentiment \<Rightarrow> trace \<Rightarrow> f64" where
  "surprise_of s t = f64_sub (sentiment_polarity s) (tr_expectation t)"

definition outrage :: "sentiment \<Rightarrow> trace \<Rightarrow> f64" where
  "outrage s t = f64_add surprise_min
     (f64_mul (f64_sub (f64_of 1) surprise_min) (f64_min (f64_abs (surprise_of s t)) (f64_of 1)))"

fun strength_cap :: "trace_provenance \<Rightarrow> f64" where
  "strength_cap FirstHand = f64_of 1"
| "strength_cap Hearsay = hearsay_cap"

definition blank_trace :: "sentiment \<Rightarrow> trace_provenance \<Rightarrow> trace" where
  "blank_trace s p = \<lparr>tr_sentiment = s, tr_provenance = p, tr_strength = f64_of 0,
     tr_expectation = f64_of 0, tr_idle_derives = 0\<rparr>"

definition record_in :: "sentiment \<Rightarrow> trace_provenance \<Rightarrow> trace \<Rightarrow> trace" where
  "record_in s p t =
     (let w = outrage s t;
          e = f64_clamp (f64_add (tr_expectation t) (f64_mul learning_rate (surprise_of s t))) (f64_of (- 1)) (f64_of 1);
          p' = provenance_max (tr_provenance t) p;
          t' = t\<lparr>tr_expectation := e, tr_provenance := p', tr_idle_derives := 0\<rparr>
      in if tr_sentiment t = s
         then t'\<lparr>tr_strength := f64_min (f64_add (tr_strength t) w) (strength_cap p')\<rparr>
         else (let x = f64_sub (tr_strength t) w
               in if f64_le x (f64_of 0)
                  then t'\<lparr>tr_sentiment := s, tr_strength := f64_min (f64_neg x) (strength_cap p')\<rparr>
                  else t'\<lparr>tr_strength := x\<rparr>))"

definition ledger_record :: "trace_key \<Rightarrow> sentiment \<Rightarrow> trace_provenance \<Rightarrow> ledger \<Rightarrow> ledger \<times> f64" where
  "ledger_record k s p l =
     (l\<lparr>lg_traces := bt_entry k (blank_trace s p) (record_in s p) (lg_traces l)\<rparr>,
      outrage s (case map_of (lg_traces l) k of None \<Rightarrow> blank_trace s p | Some t \<Rightarrow> t))"

fun retention_loop :: "nat \<Rightarrow> f64 \<Rightarrow> f64" where
  "retention_loop 0 r = r"
| "retention_loop (Suc n) r =
     (let r' = f64_mul r (f64_sub (f64_of 1) extinction_per_derive)
      in if f64_lt r' f64_epsilon then f64_of 0 else retention_loop n r')"

fun fade_floor :: "trace_provenance \<Rightarrow> f64" where
  "fade_floor FirstHand = mistrust_floor"
| "fade_floor Hearsay = f64_of 0"

definition fade :: "u64 \<Rightarrow> f64 \<Rightarrow> trace \<Rightarrow> trace" where
  "fade steps retention t =
     (let before = tr_idle_derives t;
          idle = u_saturating_add before steps;
          fading = u_saturating_sub idle (max before grace_derives);
          s = (if 0 < fading
               then f64_max (f64_sub (tr_strength t) (f64_mul (f64_of_nat (unat fading)) fade_per_derive))
                      (f64_min (fade_floor (tr_provenance t)) (tr_strength t))
               else tr_strength t)
      in t\<lparr>tr_idle_derives := idle, tr_strength := s,
           tr_expectation := f64_mul (tr_expectation t) retention\<rparr>)"

definition decay :: "int \<Rightarrow> ledger \<Rightarrow> ledger" where
  "decay elapsed l =
     (if \<not> lg_forgetting l then l else
      let all = i64_saturating_add (lg_residue_seconds l) (max elapsed 0);
          steps = all sdiv derive_seconds;
          l1 = l\<lparr>lg_residue_seconds := all smod derive_seconds\<rparr>
      in if steps = 0 then l1 else
      let n = nat \<bar>steps\<bar>
      in l1\<lparr>lg_resting_friction :=
              f64_max (f64_sub (lg_resting_friction l) (f64_mul (f64_of_nat n) friction_recovery_per_derive))
                (f64_of 0),
            lg_traces := bt_values (fade (word_of_nat n) (retention_loop n (f64_of 1))) (lg_traces l)\<rparr>)"

definition ledger_trace :: "trace_key \<Rightarrow> ledger \<Rightarrow> trace option" where
  "ledger_trace k l = map_of (lg_traces l) k"





definition add_strain :: "f64 \<Rightarrow> ledger \<Rightarrow> ledger" where
  "add_strain x l = l\<lparr>lg_resting_friction :=
     f64_clamp (f64_add (lg_resting_friction l) (f64_max x (f64_of 0))) (f64_of 0) (f64_of 1)\<rparr>"

text \<open>The life of a ledger: the operations of its public interface, in any order.\<close>

datatype ledger_op = Observe trace_key sentiment trace_provenance | Elapse int | Strain f64

fun ledger_step :: "ledger_op \<Rightarrow> ledger \<Rightarrow> ledger" where
  "ledger_step (Observe k s p) l = fst (ledger_record k s p l)"
| "ledger_step (Elapse e) l = decay e l"
| "ledger_step (Strain x) l = add_strain x l"

section \<open>Ranges\<close>

lemma forgetting_consts [simp]:
  "surprise_min = Fin (1 / 2)"
  "grudge_cap = Fin 2"
  "mistrust_floor = Fin (rnd (4 / 10))" "hostility_threshold = Fin (rnd (4 / 10))"
  "hearsay_cap = Fin (rnd (45 / 100))" "learning_rate = Fin (rnd (3 / 10))"
  "fade_per_derive = Fin (rnd (5 / 10000))" "extinction_per_derive = Fin (rnd (1 / 1000))"
  "friction_recovery_per_derive = Fin (rnd (1 / 1000))"
  unfolding surprise_min_def grudge_cap_def mistrust_floor_def hostility_threshold_def hearsay_cap_def
    learning_rate_def fade_per_derive_def extinction_per_derive_def friction_recovery_per_derive_def
  by (simp_all add: f64_of_Fin)

fun cap_value :: "trace_provenance \<Rightarrow> rat" where
  "cap_value FirstHand = 1"
| "cap_value Hearsay = rnd (45 / 100)"

lemma cap_value:
  "strength_cap p = Fin (cap_value p)" "rnd (cap_value p) = cap_value p" "0 \<le> cap_value p" "cap_value p \<le> 1"
  using f64r.le_fixed [of "45 / 100" 1] f64r.nonneg [of "45 / 100"] by (cases p; simp)+

lemma cap_value_max: "cap_value p \<le> cap_value (provenance_max p q)"
  using cap_value(4) [of Hearsay] by (cases p; cases q) (simp_all add: provenance_max_def)

definition trace_ok :: "trace \<Rightarrow> bool" where
  "trace_ok t \<longleftrightarrow> fin_in 0 (cap_value (tr_provenance t)) (tr_strength t) \<and> fin_in (- 1) 1 (tr_expectation t)"

lemma outrage_range:
  assumes "fin_in (- 1) 1 (tr_expectation t)"
  shows "fin_in (1 / 2) 1 (outrage s t)"
proof -
  from assms obtain e where e: "tr_expectation t = Fin e" "- 1 \<le> e" "e \<le> 1" by (rule fin_inE)
  obtain z where z: "surprise_of s t = Fin z" using e by (cases s) (auto simp: surprise_of_def f64_of_Fin)
  let ?m = "min \<bar>z\<bar> 1"
  have "fin_in 0 (1 / 2) (f64_of (1 / 2 * ?m))" by (rule fin_in_of) simp_all
  then obtain q where q: "f64_of (1 / 2 * ?m) = Fin q" "0 \<le> q" "q \<le> 1 / 2" by (rule fin_inE)
  have "fin_in (1 / 2) 1 (f64_of (1 / 2 + q))" using q by (intro fin_in_of) simp_all
  then show ?thesis using q(1) by (simp add: outrage_def z)
qed

lemma record_in_ok:
  assumes "trace_ok t"
  shows "trace_ok (record_in s p t)"
proof -
  let ?p = "provenance_max (tr_provenance t) p"
  from assms have ex: "fin_in (- 1) 1 (tr_expectation t)" by (simp add: trace_ok_def)
  then obtain e where e: "tr_expectation t = Fin e" "- 1 \<le> e" "e \<le> 1" by (rule fin_inE)
  from assms obtain x where x: "tr_strength t = Fin x" "rnd x = x" "0 \<le> x" "x \<le> cap_value (tr_provenance t)"
    unfolding trace_ok_def by (blast elim: fin_inE)
  from outrage_range [OF ex, of s] obtain w where w: "outrage s t = Fin w" "rnd w = w" "1 / 2 \<le> w" "w \<le> 1"
    by (rule fin_inE)
  have x1: "x \<le> 1" "x \<le> cap_value ?p" using x(4) cap_value(4) cap_value_max [of "tr_provenance t" p] order_trans by blast+
  have add: "f64_of (x + w) = Fin (rnd (x + w))" "f64_of (x - w) = Fin (rnd (x - w))"
    using x1 x(3) w by (simp_all add: f64_of_Fin)
  have "0 \<le> rnd (x + w)" using x(3) w(3) by (simp add: f64r.nonneg)
  then have up: "fin_in 0 (cap_value ?p) (f64_min (Fin (rnd (x + w))) (strength_cap ?p))"
    by (auto simp: cap_value min_def)
  have dn: "rnd (x - w) \<le> 0 \<Longrightarrow> fin_in 0 (cap_value ?p) (f64_min (Fin (- rnd (x - w))) (strength_cap ?p))"
    by (auto simp: cap_value min_def f64r.fixed_minus)
  have "rnd (x - w) \<le> x" using x(2) w(3) by (intro f64r.le_fixed) simp_all
  then have keep: "\<not> rnd (x - w) \<le> 0 \<Longrightarrow> fin_in 0 (cap_value ?p) (Fin (rnd (x - w)))" using x1 by simp
  have "f64_clamp (f64_add (tr_expectation t) (f64_mul learning_rate (surprise_of s t))) (Fin (- 1)) (Fin 1) = y
      \<Longrightarrow> fin_in (- 1) 1 y" for y
  proof -
    obtain z where z: "surprise_of s t = Fin z" using e by (cases s) (auto simp: surprise_of_def f64_of_Fin)
    have "f64_of a \<noteq> NaN" for a by (simp add: f64_of_def Let_def)
    moreover have "f64_add (Fin a) y \<noteq> NaN" if "y \<noteq> NaN" for a y
      using that \<open>\<And>a. f64_of a \<noteq> NaN\<close> by (cases y) auto
    moreover have "f64_ok (f64_add (Fin a) y)" for a y by (cases y) (auto simp: f64_ok_def [of NaN] f64_ok_def [of "Inf _"])
    ultimately show "f64_clamp (f64_add (tr_expectation t) (f64_mul learning_rate (surprise_of s t))) (Fin (- 1)) (Fin 1) = y
      \<Longrightarrow> fin_in (- 1) 1 y"
      by (auto simp: e z rnd_minus intro!: fin_in_clamp)
  qed
  with up dn keep show ?thesis
    unfolding record_in_def Let_def trace_ok_def by (auto simp: x w add)
qed

lemma count_times:
  assumes "n < 2 ^ 64" and "0 \<le> c" and "c \<le> 1"
  shows "f64_mul (f64_of_nat n) (Fin c) = Fin (rnd (rnd (of_nat n) * c)) \<and>
    0 \<le> rnd (rnd (of_nat n) * c) \<and> rnd (rnd (of_nat n) * c) \<le> 2 ^ 64"
proof -
  have p: "rnd (2 ^ 64) = 2 ^ 64" using rnd_exact [of 1 64] by simp
  have "(of_nat n :: rat) \<le> of_nat (2 ^ 64)" by (rule of_nat_mono) (use assms(1) in simp)
  then have n: "(of_nat n :: rat) \<le> 2 ^ 64" by (simp only: of_nat_power of_nat_numeral)
  have a: "0 \<le> rnd (of_nat n)" "rnd (of_nat n) \<le> 2 ^ 64"
    using f64r.nonneg [of "of_nat n"] f64r.le_fixed [OF n p] by simp_all
  have m: "0 \<le> rnd (of_nat n) * c" "rnd (of_nat n) * c \<le> 2 ^ 64"
    using a assms(2,3) mult_mono [of "rnd (of_nat n)" "2 ^ 64" c 1] by simp_all
  have "f64_of_nat n = Fin (rnd (of_nat n))" using n by (simp add: f64_of_nat_def f64_of_Fin)
  moreover have "f64_of (rnd (of_nat n) * c) = Fin (rnd (rnd (of_nat n) * c))" using m by (simp add: f64_of_Fin)
  ultimately show ?thesis using f64r.nonneg [OF m(1)] f64r.le_fixed [OF m(2) p] by simp
qed

lemma small_consts:
  "0 \<le> rnd (5 / 10000)" "rnd (5 / 10000) \<le> 1" "0 \<le> rnd (1 / 1000)" "rnd (1 / 1000) \<le> 1"
  "0 \<le> rnd (4 / 10)" "rnd (4 / 10) \<le> 1"
  by (simp_all add: f64r.nonneg f64r.le_fixed)

lemma retention_range: "fin_in 0 1 r \<Longrightarrow> fin_in 0 1 (retention_loop n r)"
proof (induction n arbitrary: r)
  case (Suc n)
  from Suc.prems obtain a where a: "r = Fin a" "0 \<le> a" "a \<le> 1" by (rule fin_inE)
  have "fin_in 0 1 (f64_of (1 - rnd (1 / 1000)))" using small_consts by (intro fin_in_of) simp_all
  then obtain q where q: "f64_of (1 - rnd (1 / 1000)) = Fin q" "0 \<le> q" "q \<le> 1" by (rule fin_inE)
  have "fin_in 0 1 (f64_of (a * q))" using a q by (intro fin_in_of) (simp_all add: mult_le_one)
  with Suc.IH [of "f64_of (a * q)"] show ?case by (simp add: a q Let_def)
qed simp

definition faded :: "trace_provenance \<Rightarrow> nat \<Rightarrow> rat \<Rightarrow> rat" where
  "faded p n x = (if n = 0 then x else
     max (rnd (x - rnd (rnd (of_nat n) * rnd (5 / 10000)))) (min (case p of FirstHand \<Rightarrow> rnd (4 / 10) | Hearsay \<Rightarrow> 0) x))"

definition fading_derives :: "u64 \<Rightarrow> u64 \<Rightarrow> nat" where
  "fading_derives steps before = min (unat before + unat steps) (2 ^ 64 - 1) - max (unat before) 180"

lemma faded_range:
  assumes "rnd x = x" and "0 \<le> x"
  shows "rnd (faded p n x) = faded p n x" and "0 \<le> faded p n x" and "faded p n x \<le> x"
    and "min (case p of FirstHand \<Rightarrow> rnd (4 / 10) | Hearsay \<Rightarrow> 0) x \<le> faded p n x"
proof -
  let ?y = "rnd (rnd (of_nat n) * rnd (5 / 10000))"
  have "0 \<le> ?y" by (intro f64r.nonneg mult_nonneg_nonneg) simp_all
  then have "rnd (x - ?y) \<le> x" using assms(1) by (intro f64r.le_fixed) simp_all
  then show "rnd (faded p n x) = faded p n x" "0 \<le> faded p n x" "faded p n x \<le> x"
    "min (case p of FirstHand \<Rightarrow> rnd (4 / 10) | Hearsay \<Rightarrow> 0) x \<le> faded p n x"
    using assms small_consts by (auto simp: faded_def max_def min_def split: trace_provenance.split)
qed

lemma fade_strength:
  assumes "tr_strength t = Fin x" and "\<bar>x\<bar> \<le> 1"
  shows "tr_strength (fade steps r t) = Fin (faded (tr_provenance t) (fading_derives steps (tr_idle_derives t)) x)"
proof -
  let ?f = "u_saturating_sub (u_saturating_add (tr_idle_derives t) steps) (max (tr_idle_derives t) grace_derives)"
  have mx: "unat (max a b) = max (unat a) (unat b)" for a b :: u64 by (auto simp: max_def word_le_nat_alt)
  have f: "unat ?f = fading_derives steps (tr_idle_derives t)"
    by (simp add: unat_u_saturating_sub unat_u_saturating_add mx fading_derives_def grace_derives_def)
  then have z: "0 < ?f \<longleftrightarrow> fading_derives steps (tr_idle_derives t) \<noteq> 0" by (simp add: word_less_nat_alt)
  have "fading_derives steps (tr_idle_derives t) < 2 ^ 64" unfolding fading_derives_def by simp
  note m = count_times [OF this small_consts(1,2)]
  have "\<bar>x - rnd (rnd (of_nat (fading_derives steps (tr_idle_derives t))) * rnd (5 / 10000))\<bar> \<le> 2 ^ 200"
    using m assms(2) by (simp add: abs_le_iff)
  then have "f64_of (x - rnd (rnd (of_nat (fading_derives steps (tr_idle_derives t))) * rnd (5 / 10000)))
      = Fin (rnd (x - rnd (rnd (of_nat (fading_derives steps (tr_idle_derives t))) * rnd (5 / 10000))))"
    by (rule f64_of_Fin)
  with m show ?thesis
    by (cases "tr_provenance t") (simp_all add: fade_def Let_def z f faded_def assms(1))
qed

lemma fade_simps [simp]:
  "tr_provenance (fade n r t) = tr_provenance t"
  "tr_sentiment (fade n r t) = tr_sentiment t"
  "tr_expectation (fade n r t) = f64_mul (tr_expectation t) r"
  "tr_idle_derives (fade n r t) = u_saturating_add (tr_idle_derives t) n"
  by (simp_all add: fade_def Let_def)

lemma fade_ok:
  assumes "trace_ok t" and "fin_in 0 1 r"
  shows "trace_ok (fade n r t)"
proof -
  from assms(1) obtain x e where x: "tr_strength t = Fin x" "rnd x = x" "0 \<le> x" "x \<le> cap_value (tr_provenance t)"
    and e: "tr_expectation t = Fin e" "- 1 \<le> e" "e \<le> 1"
    unfolding trace_ok_def by (blast elim: fin_inE)
  from assms(2) obtain q where q: "r = Fin q" "0 \<le> q" "q \<le> 1" by (rule fin_inE)
  have "\<bar>x\<bar> \<le> 1" using x cap_value(4) [of "tr_provenance t"] by simp
  note s = fade_strength [OF x(1) this]
  have "\<bar>e * q\<bar> \<le> 1" using e q mult_mono [of "\<bar>e\<bar>" 1 q 1] by (simp add: abs_mult)
  then have "- 1 \<le> e * q" "e * q \<le> 1" by (simp_all only: abs_le_iff) linarith
  then have "fin_in (- 1) 1 (f64_of (e * q))" by (intro fin_in_of) (simp_all add: rnd_minus)
  moreover note faded_range [OF x(2,3), where p = "tr_provenance t" and n = "fading_derives n (tr_idle_derives t)"]
  ultimately show ?thesis using x(4) by (simp add: trace_ok_def s e q)
qed

text \<open>The state invariant of a ledger.\<close>

definition ledger_ok :: "ledger \<Rightarrow> bool" where
  "ledger_ok l \<longleftrightarrow> bt_ok (lg_traces l) \<and> (\<forall>(k, t)\<in>set (lg_traces l). trace_ok t) \<and>
     fin_in 0 1 (lg_resting_friction l) \<and> 0 \<le> lg_residue_seconds l \<and> lg_residue_seconds l < 1440"

lemma ledger_new_ok: "ledger_ok ledger_new" "ledger_ok ledger_without_forgetting"
  by (simp_all add: ledger_ok_def ledger_new_def ledger_without_forgetting_def)

lemma blank_trace_ok: "trace_ok (blank_trace s p)"
  using cap_value(3) [of p] by (simp add: trace_ok_def blank_trace_def)

lemma ledger_record_ok:
  assumes "ledger_ok l"
  shows "ledger_ok (fst (ledger_record k s p l))"
proof -
  have "trace_ok t" if "(k', t) \<in> set (bt_entry k (blank_trace s p) (record_in s p) (lg_traces l))" for k' t
    using bt_entry_values [OF that] assms
    by (auto simp: ledger_ok_def intro: record_in_ok blank_trace_ok)
  then show ?thesis using assms by (auto simp: ledger_ok_def ledger_record_def)
qed

lemma add_strain_ok:
  assumes "ledger_ok l"
  shows "ledger_ok (add_strain x l)"
proof -
  from assms obtain f where f: "lg_resting_friction l = Fin f" "0 \<le> f" "f \<le> 1"
    unfolding ledger_ok_def by (blast elim: fin_inE)
  let ?y = "f64_max x (f64_of 0)"
  have nn: "?y \<noteq> NaN" by (simp add: f64_max_def)
  then have "f64_add (Fin f) ?y \<noteq> NaN" by (cases ?y) (simp_all add: f64_of_def Let_def)
  moreover have "f64_ok (f64_add (Fin f) ?y)" by (cases ?y) (simp_all, simp_all add: f64_ok_def)
  ultimately have "fin_in 0 1 (f64_clamp (f64_add (Fin f) ?y) (Fin 0) (Fin 1))" by (intro fin_in_clamp) simp_all
  then show ?thesis using assms by (simp add: ledger_ok_def add_strain_def f)
qed

text \<open>The arithmetic of \<open>decay\<close> on non-negative seconds.\<close>

definition decay_steps :: "int \<Rightarrow> ledger \<Rightarrow> nat" where
  "decay_steps e l = nat (min (2 ^ 63 - 1) (lg_residue_seconds l + max e 0) div 1440)"

lemma decay_steps_less: "ledger_ok l \<Longrightarrow> decay_steps e l < 2 ^ 53"
  by (auto simp: decay_steps_def nat_less_iff ledger_ok_def)

lemma decay_unfold:
  fixes e :: int
  assumes "ledger_ok l" and "lg_forgetting l"
  defines "all \<equiv> min (2 ^ 63 - 1) (lg_residue_seconds l + max e 0)"
  shows "decay e l = (if decay_steps e l = 0 then l\<lparr>lg_residue_seconds := all mod 1440\<rparr>
    else l\<lparr>lg_residue_seconds := all mod 1440,
      lg_resting_friction := f64_max (f64_sub (lg_resting_friction l)
        (f64_mul (f64_of_nat (decay_steps e l)) friction_recovery_per_derive)) (f64_of 0),
      lg_traces := bt_values (fade (word_of_nat (decay_steps e l)) (retention_loop (decay_steps e l) (f64_of 1))) (lg_traces l)\<rparr>)"
proof -
  have a: "0 \<le> all" using assms(1) by (auto simp: all_def ledger_ok_def)
  have sat: "i64_saturating_add (lg_residue_seconds l) (max e 0) = all"
    using assms(1) by (auto simp: i64_saturating_add_def all_def ledger_ok_def)
  have d: "all sdiv 1440 = all div 1440" "all smod 1440 = all mod 1440"
    using a by (simp_all add: signed_divide_int_def signed_modulo_int_def sgn_if)
  have n: "decay_steps e l = nat (all div 1440)" by (simp add: decay_steps_def all_def)
  show ?thesis using a assms(2) unfolding decay_def derive_seconds_def sat d Let_def n
    by (simp add: d)
qed

lemma decay_ok:
  assumes "ledger_ok l"
  shows "ledger_ok (decay e l)"
proof (cases "lg_forgetting l")
  case False
  then show ?thesis using assms by (simp add: decay_def)
next
  case True
  let ?n = "decay_steps e l"
  from assms obtain f where f: "lg_resting_friction l = Fin f" "rnd f = f" "0 \<le> f" "f \<le> 1"
    unfolding ledger_ok_def by (blast elim: fin_inE)
  have "?n < 2 ^ 64" using decay_steps_less [OF assms, of e] by simp
  note y = count_times [OF this small_consts(3,4)]
  let ?y = "rnd (rnd (of_nat ?n) * rnd (1 / 1000))"
  have "\<bar>f - ?y\<bar> \<le> 2 ^ 200" using y f(3,4) by (simp add: abs_le_iff)
  then have "f64_of (f - ?y) = Fin (rnd (f - ?y))" by (rule f64_of_Fin)
  moreover have "rnd (f - ?y) \<le> f" using y f(2) by (intro f64r.le_fixed) simp_all
  ultimately have fr: "fin_in 0 1 (f64_max (f64_sub (Fin f)
      (f64_mul (f64_of_nat ?n) friction_recovery_per_derive)) (f64_of 0))"
    using y f(4) by (auto simp: max_def)
  have ret: "fin_in 0 1 (retention_loop ?n (f64_of 1))" by (rule retention_range) simp
  have "trace_ok t" if "(k, t) \<in> set (bt_values (fade m (retention_loop ?n (f64_of 1))) (lg_traces l))" for k t m
    using that assms fade_ok [OF _ ret] unfolding ledger_ok_def set_bt_values by blast
  then show ?thesis using assms fr unfolding decay_unfold [OF assms True]
    by (auto simp: ledger_ok_def f)
qed

lemma ledger_step_ok: "ledger_ok l \<Longrightarrow> ledger_ok (ledger_step op l)"
  by (cases op) (simp_all add: ledger_record_ok decay_ok add_strain_ok)

lemma ledger_run_ok: "ledger_ok l \<Longrightarrow> ledger_ok (fold ledger_step ops l)"
  by (induction ops arbitrary: l) (simp_all add: ledger_step_ok)

lemma decay_backwards:
  assumes "ledger_ok l" and "e \<le> 0"
  shows "decay e l = l"
proof (cases "lg_forgetting l")
  case False
  then show ?thesis by (simp add: decay_def)
next
  case True
  then show ?thesis using assms unfolding decay_unfold [OF assms(1) True]
    by (simp add: decay_steps_def ledger_ok_def)
qed

section \<open>The floor under first-hand experience\<close>

lemma decay_trace:
  assumes "ledger_ok l" and "ledger_trace k l = Some t"
  shows "\<exists>t' x x'. ledger_trace k (decay e l) = Some t' \<and> tr_provenance t' = tr_provenance t \<and>
    tr_strength t = Fin x \<and> tr_strength t' = Fin x' \<and> x' \<le> x \<and>
    min (case tr_provenance t of FirstHand \<Rightarrow> rnd (4 / 10) | Hearsay \<Rightarrow> 0) x \<le> x'"
proof -
  have "(k, t) \<in> set (lg_traces l)"
    using assms by (simp add: ledger_trace_def map_of_SomeD)
  then have "trace_ok t" using assms(1) by (auto simp: ledger_ok_def)
  then obtain x where x: "tr_strength t = Fin x" "rnd x = x" "0 \<le> x" "x \<le> 1"
    unfolding trace_ok_def using cap_value(4) order_trans by (blast elim: fin_inE)
  show ?thesis
  proof (cases "lg_forgetting l \<and> decay_steps e l \<noteq> 0")
    case True
    let ?r = "retention_loop (decay_steps e l) (f64_of 1)" let ?n = "word_of_nat (decay_steps e l)"
    have "ledger_trace k (decay e l) = Some (fade ?n ?r t)"
      using True assms(2) decay_unfold [OF assms(1), of e]
      by (simp add: ledger_trace_def map_of_bt_values)
    moreover have "\<bar>x\<bar> \<le> 1" using x by simp
    note fade_strength [OF x(1) this, of ?n ?r]
    ultimately show ?thesis
      using faded_range(3,4) [OF x(2,3), where p = "tr_provenance t"] by (simp add: x(1))
  next
    case False
    then have "ledger_trace k (decay e l) = Some t"
      using assms(2) decay_unfold [OF assms(1), of e]
      by (cases "lg_forgetting l") (simp_all add: ledger_trace_def decay_def)
    then show ?thesis using x(1) by simp
  qed
qed

lemma decays_trace:
  assumes "ledger_ok l" and "ledger_trace k l = Some t" and "tr_provenance t = FirstHand"
  shows "\<exists>t'. ledger_trace k (fold decay es l) = Some t' \<and>
    f64_le (tr_strength t') (tr_strength t) \<and> f64_le (f64_min mistrust_floor (tr_strength t)) (tr_strength t')"
  using assms
proof (induction es arbitrary: l t)
  case Nil
  then have "(k, t) \<in> set (lg_traces l)" by (simp add: ledger_trace_def map_of_SomeD)
  then have "trace_ok t" using Nil.prems(1) by (auto simp: ledger_ok_def)
  then obtain x where "tr_strength t = Fin x" unfolding trace_ok_def by (blast elim: fin_inE)
  then show ?case using Nil.prems by simp
next
  case (Cons e es)
  from decay_trace [OF Cons.prems(1,2), of e] Cons.prems(3) obtain t1 x x1
    where t1: "ledger_trace k (decay e l) = Some t1" "tr_provenance t1 = FirstHand"
      "tr_strength t = Fin x" "tr_strength t1 = Fin x1" "x1 \<le> x" "min (rnd (4 / 10)) x \<le> x1"
    by auto
  from Cons.IH [OF decay_ok [OF Cons.prems(1)] t1(1,2)] obtain t'
    where t': "ledger_trace k (fold decay es (decay e l)) = Some t'" "f64_le (tr_strength t') (Fin x1)"
      "f64_le (Fin (min (rnd (4 / 10)) x1)) (tr_strength t')"
    by (auto simp: t1(4))
  then show ?case using t1 by (cases "tr_strength t'") (auto simp: min_def split: if_splits)
qed

section \<open>Hostility dies out\<close>




lemma record_in_idle [simp]: "tr_idle_derives (record_in s p t) = 0"
  by (simp add: record_in_def Let_def)











section \<open>Properties\<close>

text \<open>C38. A ledger stays in range. Whatever is recorded, however much time passes and whatever strain is
  added (infinities and NaN included), its traces are keyed in order, every strength is a finite number
  between 0 and the cap of its provenance, every expectation lies between -1 and 1, the resting
  friction between 0 and 1, and less than one derive period is carried over.
\<close>

theorem ledger_in_range: "ledger_ok (fold ledger_step ops ledger_new)"
  by (rule ledger_run_ok [OF ledger_new_ok(1)])

text \<open>C37. First-hand experience is never forgotten below the mistrust floor. However the time that passes is
  cut into calls of \<open>decay\<close>, the trace is still there, no stronger than before, and at least as strong
  as the smaller of the floor and what it was.
\<close>

theorem first_hand_floor:
  assumes "ledger_trace k (fold ledger_step ops ledger_new) = Some t" and "tr_provenance t = FirstHand"
  shows "\<exists>t'. ledger_trace k (fold decay es (fold ledger_step ops ledger_new)) = Some t' \<and>
    f64_le (tr_strength t') (tr_strength t) \<and> f64_le (f64_min mistrust_floor (tr_strength t)) (tr_strength t')"
  by (rule decays_trace [OF ledger_run_ok [OF ledger_new_ok(1)] assms])


section \<open>A concrete ledger\<close>

definition sample_trace_key :: trace_key where
  "sample_trace_key = TraceKey (Slug (lit ''acme'')) (Slug (lit ''late''))"

theorem first_hand_floor_witness:
  "\<exists>t t'. ledger_trace sample_trace_key
        (fold ledger_step [Observe sample_trace_key Adverse FirstHand] ledger_new) = Some t \<and>
      ledger_trace sample_trace_key (fold decay [4000000, 86400]
        (fold ledger_step [Observe sample_trace_key Adverse FirstHand] ledger_new)) = Some t' \<and>
      f64_le (tr_strength t') (tr_strength t) \<and> f64_le (f64_min mistrust_floor (tr_strength t)) (tr_strength t')"
proof -
  let ?l = "fold ledger_step [Observe sample_trace_key Adverse FirstHand] ledger_new"
  let ?t = "record_in Adverse FirstHand (blank_trace Adverse FirstHand)"
  have "ledger_trace sample_trace_key ?l = Some ?t"
    by (simp add: ledger_trace_def ledger_record_def ledger_new_def)
  moreover have "tr_provenance ?t = FirstHand"
    by (simp add: record_in_def Let_def blank_trace_def provenance_max_def)
  ultimately show ?thesis using first_hand_floor by blast
qed


section \<open>Time that passes in pieces\<close>

text \<open>
  The source says that one \<open>decay\<close> of thirty days and thirty of one day land in the same place. The
  remainder below a derive is carried exactly, but \<open>fading * 0.0005\<close> is rounded once and the repeated
  subtraction every time: past the grace window, two calls of one derive already leave another
  strength than one call of two.
\<close>

lemma faded_split_differs: "faded FirstHand 1 (faded FirstHand 1 1) \<noteq> faded FirstHand 2 1"
  by code_simp

lemma fade_split_differs:
  assumes "tr_strength t = Fin 1" and "tr_idle_derives t = 180" and "tr_provenance t = FirstHand"
  shows "tr_strength (fade 1 r' (fade 1 r t)) \<noteq> tr_strength (fade 2 r'' t)"
proof -
  have d: "fading_derives 1 180 = 1" "fading_derives 2 180 = 2" "fading_derives 1 181 = 1"
    by (simp_all add: fading_derives_def)
  have one: "tr_strength (fade 1 r t) = Fin (faded FirstHand 1 1)"
    using fade_strength [OF assms(1), of 1 r] by (simp add: assms d)
  have "\<bar>faded FirstHand 1 1\<bar> \<le> 1"
    using faded_range(2,3) [of 1 FirstHand 1] by simp
  moreover have "u_saturating_add 180 1 = (181 :: u64)" by (simp add: u_saturating_add_def)
  ultimately have "tr_strength (fade 1 r' (fade 1 r t)) = Fin (faded FirstHand 1 (faded FirstHand 1 1))"
    using fade_strength [OF one, of 1 r'] by (simp add: assms d)
  moreover have "tr_strength (fade 2 r'' t) = Fin (faded FirstHand 2 1)"
    using fade_strength [OF assms(1), of 2 r''] by (simp add: assms d)
  ultimately show ?thesis using faded_split_differs by simp
qed

end
