(* ===== verification/Expectation.thy ===== *)
theory Expectation
  imports F64 BTree Money
begin

text \<open>
  \<open>crates/domain/src/psyche/expectation.rs\<close>: what an employee learns to expect of a counterparty.
  A running mean and variance (Welford), a precision-weighted expectation (Rescorla-Wagner), and a
  two-sided detector of drift, all in \<open>f64\<close>; the counter of observations wraps as a release build
  does. \<open>std_dev\<close> is left out (a square root). The lemmas bound every number of the state and show
  what the state read back from storage is checked for.
\<close>

section \<open>Definitions\<close>

definition exp_learning_rate :: f64 where "exp_learning_rate = f64_of (3 / 10)"

definition surprise_floor :: f64 where "surprise_floor = f64_of (5 / 10)"

definition k_precision :: f64 where "k_precision = f64_of 1"

definition drift_slack :: f64 where "drift_slack = f64_of (25 / 100)"

definition drift_threshold :: f64 where "drift_threshold = f64_of 2"

definition drift_ceiling :: f64 where "drift_ceiling = f64_mul (f64_of 2) drift_threshold"

definition erratic_variance :: f64 where "erratic_variance = f64_of (5 / 10)"

definition min_observations :: u32 where "min_observations = 3"

definition max_observation :: f64 where "max_observation = f64_of 1000000000"

datatype dimension =
  LeadTimeDays | PriceDeltaBps | ResponseLatencyHours | MoqFlexibilityPct | DefectRatePct

definition dimension_all :: "dimension list" where
  "dimension_all = [LeadTimeDays, PriceDeltaBps, ResponseLatencyHours, MoqFlexibilityPct, DefectRatePct]"

fun dimension_rank :: "dimension \<Rightarrow> nat" where
  "dimension_rank LeadTimeDays = 0"
| "dimension_rank PriceDeltaBps = 1"
| "dimension_rank ResponseLatencyHours = 2"
| "dimension_rank MoqFlexibilityPct = 3"
| "dimension_rank DefectRatePct = 4"

lemma dimension_rank_inj [simp]: "dimension_rank a = dimension_rank b \<longleftrightarrow> a = b"
  by (cases a; cases b) simp_all

instantiation dimension :: linorder
begin
definition less_eq_dimension :: "dimension \<Rightarrow> dimension \<Rightarrow> bool" where
  "a \<le> b \<longleftrightarrow> dimension_rank a \<le> dimension_rank b"
definition less_dimension :: "dimension \<Rightarrow> dimension \<Rightarrow> bool" where
  "a < b \<longleftrightarrow> dimension_rank a < dimension_rank b"
instance by standard (auto simp: less_eq_dimension_def less_dimension_def dest: order.antisym)
end

fun scale_value :: "dimension \<Rightarrow> rat" where
  "scale_value LeadTimeDays = 3"
| "scale_value PriceDeltaBps = 200"
| "scale_value ResponseLatencyHours = 4"
| "scale_value MoqFlexibilityPct = 10"
| "scale_value DefectRatePct = 1"

definition scale :: "dimension \<Rightarrow> f64" where
  "scale d = f64_of (scale_value d)"

fun unit_text :: "dimension \<Rightarrow> ustr" where
  "unit_text LeadTimeDays = lit ''days''"
| "unit_text PriceDeltaBps = lit ''bps''"
| "unit_text ResponseLatencyHours = lit ''hours''"
| "unit_text MoqFlexibilityPct = lit ''%''"
| "unit_text DefectRatePct = lit ''%''"

datatype expectation_error = NotFinite | OutOfRange f64 | Corrupt

record prediction_error =
  pe_observed :: f64
  pe_expected_before :: f64
  pe_surprise :: f64
  pe_regime_change :: bool
  pe_weight :: f64
  pe_first_contact :: bool

datatype reliability = UnknownReliability | Predictable | Erratic

record expectation =
  x_dimension :: dimension
  x_expected :: f64
  x_mean :: f64
  x_m2 :: f64
  x_n :: u32
  x_claimed :: "f64 option"
  x_drift_up :: f64
  x_drift_down :: f64
  x_first_observed_at :: "int option"
  x_last_observed_at :: "int option"

text \<open>The stored form; a drift member that is missing reads as zero.\<close>

record expectation_wire =
  w_dimension :: dimension
  w_expected :: f64
  w_mean :: f64
  w_m2 :: f64
  w_n :: u32
  w_claimed :: "f64 option"
  w_drift_up :: "f64 option"
  w_drift_down :: "f64 option"
  w_first_observed_at :: "int option"
  w_last_observed_at :: "int option"

definition expectation_try_from :: "expectation_wire \<Rightarrow> expectation_error + expectation" where
  "expectation_try_from w =
     (let up = (case w_drift_up w of None \<Rightarrow> f64_of 0 | Some d \<Rightarrow> d);
          down = (case w_drift_down w of None \<Rightarrow> f64_of 0 | Some d \<Rightarrow> d)
      in if \<not> list_all is_finite [w_expected w, w_mean w, w_m2 w] then Inl NotFinite
         else if (case w_claimed w of None \<Rightarrow> False | Some c \<Rightarrow> \<not> is_finite c) then Inl NotFinite
         else if f64_lt (w_m2 w) (f64_of 0) \<or> w_n w < 2 \<and> \<not> f64_eq (w_m2 w) (f64_of 0) then Inl Corrupt
         else if list_ex (\<lambda>v. \<not> is_finite v \<or> f64_lt v (f64_of 0)) [up, down] then Inl Corrupt
         else Inr \<lparr>x_dimension = w_dimension w, x_expected = w_expected w, x_mean = w_mean w,
                x_m2 = w_m2 w, x_n = w_n w, x_claimed = w_claimed w, x_drift_up = up, x_drift_down = down,
                x_first_observed_at = w_first_observed_at w, x_last_observed_at = w_last_observed_at w\<rparr>)"

definition expectation_new :: "dimension \<Rightarrow> expectation" where
  "expectation_new d = \<lparr>x_dimension = d, x_expected = f64_of 0, x_mean = f64_of 0, x_m2 = f64_of 0,
     x_n = 0, x_claimed = None, x_drift_up = f64_of 0, x_drift_down = f64_of 0,
     x_first_observed_at = None, x_last_observed_at = None\<rparr>"

definition check :: "f64 \<Rightarrow> expectation_error + unit" where
  "check v =
     (if \<not> is_finite v then Inl NotFinite
      else if f64_lt max_observation (f64_abs v) then Inl (OutOfRange v)
      else Inr ())"

definition with_claim :: "dimension \<Rightarrow> f64 \<Rightarrow> expectation_error + expectation" where
  "with_claim d c =
     rbind (check c) (\<lambda>_. Inr ((expectation_new d)\<lparr>x_expected := c, x_claimed := Some c\<rparr>))"

definition exp_record_claim :: "f64 \<Rightarrow> expectation \<Rightarrow> expectation_error + expectation" where
  "exp_record_claim c x =
     rbind (check c) (\<lambda>_.
       let x1 = x\<lparr>x_claimed := Some c\<rparr>
       in Inr (if x_n x = 0 then x1\<lparr>x_expected := c\<rparr> else x1))"

definition exp_variance :: "expectation \<Rightarrow> f64 option" where
  "exp_variance x =
     (if 2 \<le> x_n x then Some (f64_div (x_m2 x) (f64_of_nat (unat (x_n x)))) else None)"

definition exp_precision :: "expectation \<Rightarrow> f64 option" where
  "exp_precision x = map_option (\<lambda>var.
     f64_div (f64_of 1)
       (f64_add (f64_of 1)
         (f64_div (f64_mul k_precision var) (f64_mul (scale (x_dimension x)) (scale (x_dimension x))))))
     (exp_variance x)"

definition first_contact :: "expectation \<Rightarrow> bool" where
  "first_contact x \<longleftrightarrow> x_n x = 0 \<and> x_claimed x = None"

definition surprise :: "f64 \<Rightarrow> expectation \<Rightarrow> f64" where
  "surprise v x = (if first_contact x then f64_of 0 else f64_sub v (x_expected x))"

definition surprise_weight :: "f64 \<Rightarrow> expectation \<Rightarrow> f64" where
  "surprise_weight v x =
     (if first_contact x then f64_of 1
      else f64_add surprise_floor (f64_mul (f64_sub (f64_of 1) surprise_floor)
             (f64_min (f64_div (f64_abs (surprise v x)) (scale (x_dimension x))) (f64_of 1))))"

definition drift_z :: "f64 \<Rightarrow> expectation \<Rightarrow> f64" where
  "drift_z v x = f64_clamp (f64_div (surprise v x) (scale (x_dimension x))) (f64_of (- 1)) (f64_of 1)"

definition next_up :: "f64 \<Rightarrow> expectation \<Rightarrow> f64" where
  "next_up v x = f64_clamp (f64_sub (f64_add (x_drift_up x) (drift_z v x)) drift_slack) (f64_of 0) drift_ceiling"

definition next_down :: "f64 \<Rightarrow> expectation \<Rightarrow> f64" where
  "next_down v x = f64_clamp (f64_sub (f64_sub (x_drift_down x) (drift_z v x)) drift_slack) (f64_of 0) drift_ceiling"

definition drifting :: "f64 \<Rightarrow> expectation \<Rightarrow> bool" where
  "drifting v x \<longleftrightarrow> \<not> first_contact x \<and>
     (f64_le drift_threshold (next_up v x) \<or> f64_le drift_threshold (next_down v x))"

definition gain :: "f64 \<Rightarrow> expectation \<Rightarrow> f64" where
  "gain v x =
     (if drifting v x then exp_learning_rate
      else f64_mul exp_learning_rate (case exp_precision x of None \<Rightarrow> f64_of 1 | Some p \<Rightarrow> p))"

definition exp_observe :: "f64 \<Rightarrow> int \<Rightarrow> expectation \<Rightarrow> expectation_error + expectation \<times> prediction_error" where
  "exp_observe v tm x =
     rbind (check v) (\<lambda>_.
       let n = x_n x + 1;
           delta = f64_sub v (x_mean x);
           mean = f64_add (x_mean x) (f64_div delta (f64_of_nat (unat n)));
           m2 = f64_add (x_m2 x) (f64_mul delta (f64_sub v mean));
           expected = (if first_contact x then v
                       else f64_add (x_expected x) (f64_mul (gain v x) (surprise v x)))
       in Inr (x\<lparr>x_drift_up := next_up v x, x_drift_down := next_down v x, x_n := n, x_mean := mean,
                 x_m2 := m2, x_expected := expected,
                 x_first_observed_at := (case x_first_observed_at x of None \<Rightarrow> Some tm | Some t \<Rightarrow> Some t),
                 x_last_observed_at := Some tm\<rparr>,
               \<lparr>pe_observed = v, pe_expected_before = x_expected x, pe_surprise = surprise v x,
                pe_regime_change = drifting v x, pe_weight = surprise_weight v x,
                pe_first_contact = first_contact x\<rparr>))"

definition exp_expected :: "expectation \<Rightarrow> f64 option" where
  "exp_expected x = (if 0 < x_n x \<or> x_claimed x \<noteq> None then Some (x_expected x) else None)"

definition exp_surprise_of :: "f64 \<Rightarrow> expectation \<Rightarrow> expectation_error + f64" where
  "exp_surprise_of v x =
     rbind (check v) (\<lambda>_. case exp_expected x of None \<Rightarrow> Inr (f64_of 0) | Some e \<Rightarrow> Inr (f64_sub v e))"

definition exp_mean :: "expectation \<Rightarrow> f64 option" where
  "exp_mean x = (if 0 < x_n x then Some (x_mean x) else None)"

definition exp_reliability :: "expectation \<Rightarrow> reliability" where
  "exp_reliability x =
     (if x_n x < min_observations then UnknownReliability
      else (case exp_variance x of
              Some var \<Rightarrow>
                if f64_le (f64_div var (f64_mul (scale (x_dimension x)) (scale (x_dimension x)))) erratic_variance
                then Predictable else Erratic
            | None \<Rightarrow> Erratic))"

definition claim_gap :: "expectation \<Rightarrow> f64 option" where
  "claim_gap x = (case x_claimed x of
     Some c \<Rightarrow> if 0 < x_n x then Some (f64_sub (x_expected x) c) else None
   | None \<Rightarrow> None)"

definition price_delta_bps :: "money \<Rightarrow> money \<Rightarrow> money_error + f64" where
  "price_delta_bps quoted agreed =
     (if currency quoted \<noteq> currency agreed then Inl (CurrencyMismatch (currency quoted) (currency agreed))
      else let delta = uint (minor quoted) - uint (minor agreed)
           in Inr (f64_div (f64_of (of_int (delta * 10000))) (f64_of_nat (unat (minor agreed)))))"

text \<open>The book: an expectation per counterparty and dimension.\<close>

type_synonym expectation_book = "(slug, (dimension, expectation) btree) btree"

definition book_get :: "slug \<Rightarrow> dimension \<Rightarrow> expectation_book \<Rightarrow> expectation option" where
  "book_get c d b = Option.bind (map_of b c) (\<lambda>m. map_of m d)"

definition book_entry :: "slug \<Rightarrow> dimension \<Rightarrow> (expectation \<Rightarrow> expectation) \<Rightarrow> expectation_book \<Rightarrow> expectation_book" where
  "book_entry c d f b = bt_entry c [] (bt_entry d (expectation_new d) f) b"

definition book_slot :: "slug \<Rightarrow> dimension \<Rightarrow> expectation_book \<Rightarrow> expectation" where
  "book_slot c d b = (case book_get c d b of None \<Rightarrow> expectation_new d | Some x \<Rightarrow> x)"

definition book_observe ::
  "slug \<Rightarrow> dimension \<Rightarrow> f64 \<Rightarrow> int \<Rightarrow> expectation_book \<Rightarrow> expectation_error + expectation_book \<times> prediction_error" where
  "book_observe c d v tm b =
     rbind (check v) (\<lambda>_. rbind (exp_observe v tm (book_slot c d b)) (\<lambda>(x, e).
       Inr (book_entry c d (\<lambda>_. x) b, e)))"

definition book_record_claim ::
  "slug \<Rightarrow> dimension \<Rightarrow> f64 \<Rightarrow> expectation_book \<Rightarrow> expectation_error + expectation_book" where
  "book_record_claim c d v b =
     rbind (check v) (\<lambda>_. rbind (exp_record_claim v (book_slot c d b)) (\<lambda>x. Inr (book_entry c d (\<lambda>_. x) b)))"

definition book_counterparty :: "slug \<Rightarrow> expectation_book \<Rightarrow> (dimension \<times> expectation) list" where
  "book_counterparty c b = (case map_of b c of None \<Rightarrow> [] | Some m \<Rightarrow> m)"

definition book_iter :: "expectation_book \<Rightarrow> (slug \<times> dimension \<times> expectation) list" where
  "book_iter b = concat (map (\<lambda>(c, m). map (\<lambda>(d, x). (c, d, x)) m) b)"

definition book_len :: "expectation_book \<Rightarrow> nat" where
  "book_len b = sum_list (map (\<lambda>(c, m). length m) b)"

definition book_is_empty :: "expectation_book \<Rightarrow> bool" where
  "book_is_empty b \<longleftrightarrow> list_all (\<lambda>(c, m). m = []) b"

section \<open>Ranges\<close>

lemma expectation_consts [simp]:
  "surprise_floor = Fin (1 / 2)"
  "drift_slack = Fin (1 / 4)"
  "drift_threshold = Fin 2"
  "drift_ceiling = Fin 4"
  "k_precision = Fin 1"
  "max_observation = Fin 1000000000"
  "exp_learning_rate = Fin (rnd (3 / 10))"
  unfolding surprise_floor_def drift_slack_def drift_threshold_def drift_ceiling_def k_precision_def
    max_observation_def exp_learning_rate_def
  by (simp_all add: f64_of_Fin)

lemma scale_value: "scale d = Fin (scale_value d)" "1 \<le> scale_value d" "scale_value d \<le> 200"
  by (cases d; simp add: scale_def)+

lemma scale_squared: "f64_mul (scale d) (scale d) = Fin (scale_value d * scale_value d)"
  by (cases d; simp add: scale_def)

lemma check_Inr_iff: "check v = Inr u \<longleftrightarrow> (\<exists>a. v = Fin a \<and> \<bar>a\<bar> \<le> 1000000000)"
  by (cases v) (auto simp: check_def is_finite_def)

definition accepted :: "f64 \<Rightarrow> bool" where
  "accepted v \<longleftrightarrow> fin_in (- 1000000000) 1000000000 v"

lemma check_accepted: "f64_ok v \<Longrightarrow> check v = Inr u \<longleftrightarrow> accepted v"
  by (cases v) (auto simp: check_Inr_iff accepted_def fin_in_def f64_ok_def abs_le_iff)

text \<open>The state invariant of an expectation.\<close>

definition exp_ok :: "expectation \<Rightarrow> bool" where
  "exp_ok x \<longleftrightarrow> accepted (x_expected x) \<and> accepted (x_mean x) \<and>
     fin_in 0 (of_nat (unat (x_n x)) * 2 ^ 64) (x_m2 x) \<and>
     (x_n x = 0 \<longrightarrow> x_mean x = Fin 0) \<and> (x_n x < 2 \<longrightarrow> x_m2 x = Fin 0) \<and>
     (case x_claimed x of None \<Rightarrow> True | Some c \<Rightarrow> accepted c) \<and>
     fin_in 0 4 (x_drift_up x) \<and> fin_in 0 4 (x_drift_down x) \<and>
     (x_n x = 0 \<longrightarrow> x_drift_up x = Fin 0 \<and> x_drift_down x = Fin 0) \<and>
     (x_n x = 1 \<longrightarrow> fin_in 0 (3 / 4) (x_drift_up x) \<and> fin_in 0 (3 / 4) (x_drift_down x))"

lemma expectation_new_ok: "exp_ok (expectation_new d)"
  by (simp add: exp_ok_def expectation_new_def accepted_def)

lemma with_claim_ok: "f64_ok c \<Longrightarrow> with_claim d c = Inr x \<Longrightarrow> exp_ok x"
  by (auto simp: with_claim_def rbind_eq_Inr_iff check_accepted exp_ok_def expectation_new_def)
    (auto simp: accepted_def)

lemma record_claim_ok: "exp_ok x \<Longrightarrow> f64_ok c \<Longrightarrow> exp_record_claim c x = Inr x' \<Longrightarrow> exp_ok x'"
  by (auto simp: exp_record_claim_def rbind_eq_Inr_iff check_accepted exp_ok_def Let_def split: if_splits)

lemma precision_range:
  assumes "exp_ok x"
  shows "fin_in 0 1 (case exp_precision x of None \<Rightarrow> f64_of 1 | Some p \<Rightarrow> p)"
proof (cases "2 \<le> x_n x")
  case False
  then show ?thesis by (simp add: exp_precision_def exp_variance_def)
next
  case True
  define n :: rat where "n = of_nat (unat (x_n x))"
  let ?s = "scale_value (x_dimension x) * scale_value (x_dimension x)"
  have n1: "2 \<le> unat (x_n x)" using True by (simp add: word_le_nat_alt)
  have n: "2 \<le> n" using of_nat_mono [OF n1, where 'a = rat] by (simp add: n_def)
  have p64: "rnd (2 ^ 64) = 2 ^ 64" using rnd_exact [of 1 64] by simp
  have p65: "rnd (2 ^ 65) = 2 ^ 65" using rnd_exact [of 1 65] by simp
  have nn: "f64_of_nat (unat (x_n x)) = Fin n"
    unfolding n_def
  proof (rule f64_of_nat_small)
    have "unat (x_n x) < 2 ^ 32" using unsigned_less [of "x_n x"] by simp
    then show "unat (x_n x) \<le> 2 ^ 53" by simp
  qed
  from assms obtain a where a: "x_m2 x = Fin a" "0 \<le> a" "a \<le> n * 2 ^ 64"
    unfolding exp_ok_def n_def by (blast elim: fin_inE)
  have "fin_in 0 (2 ^ 64) (f64_of (a / n))"
    using a n p64 by (intro fin_in_of) (simp_all add: divide_le_eq mult.commute)
  then obtain v where v: "f64_of (a / n) = Fin v" "rnd v = v" "0 \<le> v" "v \<le> 2 ^ 64" by (rule fin_inE)
  have s: "1 \<le> ?s" using mult_mono [of 1 "scale_value (x_dimension x)" 1 "scale_value (x_dimension x)"]
      scale_value(2) [of "x_dimension x"] by simp
  have "v / ?s \<le> v" using v(3) s by (simp add: divide_le_eq mult_le_cancel_left1)
  then have "fin_in 0 (2 ^ 64) (f64_of (v / ?s))" using v s p64 by (intro fin_in_of) simp_all
  then obtain q where q: "f64_of (v / ?s) = Fin q" "0 \<le> q" "q \<le> 2 ^ 64" by (rule fin_inE)
  have "fin_in 1 (2 ^ 65) (f64_of (1 + q))" using q p65 by (intro fin_in_of) simp_all
  then obtain z where z: "f64_of (1 + q) = Fin z" "1 \<le> z" by (rule fin_inE)
  have "fin_in 0 1 (f64_of (1 / z))" using z(2) by (intro fin_in_of) simp_all
  moreover have "f64_of v = Fin v" using v by (simp add: f64_of_Fin)
  moreover have "n \<noteq> 0" "?s \<noteq> 0" "z \<noteq> 0" using n s z(2) by auto
  ultimately show ?thesis using True by (simp add: exp_precision_def exp_variance_def a nn v scale_squared q z)
qed

lemma gain_range:
  assumes "exp_ok x"
  shows "fin_in 0 (1 / 2) (gain v x)"
proof -
  have lr: "0 \<le> rnd (3 / 10)" "rnd (3 / 10) \<le> 1 / 2" 
    using f64r.nonneg [of "3 / 10"] f64r.le_fixed [of "3 / 10" "1 / 2"] by simp_all
  from precision_range [OF assms] obtain p where p: "(case exp_precision x of None \<Rightarrow> f64_of 1 | Some p \<Rightarrow> p) = Fin p"
    "0 \<le> p" "p \<le> 1" by (rule fin_inE)
  have "fin_in 0 (1 / 2) (f64_of (rnd (3 / 10) * p))"
    using lr p(2,3) mult_mono [of "rnd (3 / 10)" "1 / 2" p 1] by (intro fin_in_of) simp_all
  then show ?thesis using lr by (simp add: gain_def p(1))
qed

lemma surprise_range:
  assumes "exp_ok x" and "accepted v"
  shows "fin_in (- 2000000000) 2000000000 (surprise v x)"
proof (cases "first_contact x")
  case False
  from assms(2) obtain a where a: "v = Fin a" "- 1000000000 \<le> a" "a \<le> 1000000000"
    unfolding accepted_def by (rule fin_inE)
  from assms(1) obtain e where e: "x_expected x = Fin e" "- 1000000000 \<le> e" "e \<le> 1000000000"
    unfolding exp_ok_def accepted_def by (blast elim: fin_inE)
  have "fin_in (- 2000000000) 2000000000 (f64_of (a - e))" using a e by (intro fin_in_of) (simp_all add: rnd_minus)
  then show ?thesis using False by (simp add: surprise_def a e)
qed (simp add: surprise_def)

lemma drift_z_range:
  assumes "exp_ok x" and "accepted v"
  shows "fin_in (- 1) 1 (drift_z v x)"
proof -
  from surprise_range [OF assms] obtain s where s: "surprise v x = Fin s" by (rule fin_inE)
  have "scale_value (x_dimension x) \<noteq> 0" using scale_value(2) [of "x_dimension x"] by auto
  then have "f64_div (surprise v x) (scale (x_dimension x)) = f64_of (s / scale_value (x_dimension x))"
    by (simp add: s scale_value)
  moreover have "f64_of y \<noteq> NaN" for y by (simp add: f64_of_def Let_def)
  ultimately show ?thesis unfolding drift_z_def f64_of_consts by (intro fin_in_clamp) (simp_all add: rnd_minus)
qed

lemma drift_steps:
  assumes "exp_ok x" and "accepted v"
  shows "\<exists>u d z. x_drift_up x = Fin u \<and> x_drift_down x = Fin d \<and> drift_z v x = Fin z \<and>
    0 \<le> u \<and> u \<le> 4 \<and> 0 \<le> d \<and> d \<le> 4 \<and> - 1 \<le> z \<and> z \<le> 1 \<and>
    next_up v x = Fin (max 0 (min 4 (rnd (rnd (u + z) - 1 / 4)))) \<and>
    next_down v x = Fin (max 0 (min 4 (rnd (rnd (d - z) - 1 / 4))))"
proof -
  from assms(1) obtain u d where u: "x_drift_up x = Fin u" "0 \<le> u" "u \<le> 4" and d: "x_drift_down x = Fin d" "0 \<le> d" "d \<le> 4"
    unfolding exp_ok_def by (blast elim: fin_inE)
  from drift_z_range [OF assms] obtain z where z: "drift_z v x = Fin z" "- 1 \<le> z" "z \<le> 1" by (rule fin_inE)
  have step: "f64_of y = Fin (rnd y) \<and> f64_of (rnd y - 1 / 4) = Fin (rnd (rnd y - 1 / 4))" if "- 1 \<le> y" "y \<le> 5" for y
  proof -
    have "- 1 \<le> rnd y" "rnd y \<le> 5" using that f64r.ge_fixed [of "- 1" y] f64r.le_fixed [of y 5] by (simp_all add: rnd_minus)
    then show ?thesis using that by (simp add: f64_of_Fin)
  qed
  show ?thesis using u d z step [of "u + z"] step [of "d - z"] by (simp add: next_up_def next_down_def)
qed

text \<open>One observation.\<close>

lemma unat_succ: "unat (n :: u32) + 1 < 2 ^ 32 \<Longrightarrow> unat (n + 1) = unat n + 1"
  by (simp add: unat_word_ariths)

lemma welford_range:
  assumes "exp_ok x" and "accepted v" and "unat (x_n x) + 1 < 2 ^ 32"
  defines "n \<equiv> x_n x + 1"
  defines "delta \<equiv> f64_sub v (x_mean x)"
  defines "mean \<equiv> f64_add (x_mean x) (f64_div delta (f64_of_nat (unat n)))"
  defines "m2 \<equiv> f64_add (x_m2 x) (f64_mul delta (f64_sub v mean))"
  shows "accepted mean" and "fin_in 0 (of_nat (unat n) * 2 ^ 64) m2" and "n < 2 \<Longrightarrow> m2 = Fin 0"
proof -
  let ?M = "1000000000 :: rat" and ?n = "of_nat (unat n) :: rat"
  have un: "unat n = unat (x_n x) + 1" unfolding n_def by (rule unat_succ [OF assms(3)])
  then have n1: "1 \<le> ?n" "?n < 2 ^ 32"
  proof -
    have "(of_nat (unat n) :: rat) < of_nat (2 ^ 32)" by (rule of_nat_less_iff [THEN iffD2]) (use un assms(3) in simp)
    then show "?n < 2 ^ 32" by simp
    have "(of_nat 1 :: rat) \<le> of_nat (unat n)" by (rule of_nat_mono) (simp add: un)
    then show "1 \<le> ?n" by simp
  qed
  have nn: "f64_of_nat (unat n) = Fin ?n"
    by (rule f64_of_nat_small) (use un assms(3) in simp)
  from assms(2) obtain a where a: "v = Fin a" "rnd a = a" "- ?M \<le> a" "a \<le> ?M" unfolding accepted_def by (rule fin_inE)
  from assms(1) obtain m where m: "x_mean x = Fin m" "rnd m = m" "- ?M \<le> m" "m \<le> ?M"
    unfolding exp_ok_def accepted_def by (blast elim: fin_inE)
  have "fin_in (- 2000000000) 2000000000 (f64_of (a - m))" using a m by (intro fin_in_of) (simp_all add: rnd_minus)
  then have d: "delta = Fin (rnd (a - m))" "- 2000000000 \<le> rnd (a - m)" "rnd (a - m) \<le> 2000000000"
    using a m f64_of_Fin [of "a - m"] by (simp_all add: delta_def abs_le_iff)
  let ?d = "rnd (a - m)" let ?q = "rnd (1 / ?n * ?d)"
  have q: "\<bar>1 / ?n * ?d\<bar> \<le> 2000000000"
  proof -
    have "\<bar>?d\<bar> \<le> 2000000000" using d(2,3) by (simp add: abs_le_iff)
    then have "1 / ?n * \<bar>?d\<bar> \<le> 1 * 2000000000" using n1 by (intro mult_mono) simp_all
    then show ?thesis using n1 by (simp add: abs_mult)
  qed
  then have q1: "\<bar>?q\<bar> \<le> 2000000000" by (rule f64r.abs_le) simp
  have "f64_div delta (f64_of_nat (unat n)) = Fin ?q"
    using n1 q f64_of_Fin [of "?d / ?n"] by (simp add: d(1) nn)
  moreover have "f64_of (m + ?q) = Fin (rnd (m + ?q))"
    using m q1 by (intro f64_of_Fin) (simp add: abs_le_iff)
  ultimately have mean: "mean = Fin (rnd (m + ?q))" by (simp add: mean_def m(1))
  let ?m = "rnd (m + ?q)"
  have hull: "min a m \<le> ?m \<and> ?m \<le> max a m"
  proof (cases "unat n = 1")
    case True
    then have "x_n x = 0" using un by (simp add: unat_eq_zero)
    then have "m = 0" using assms(1) m(1) by (simp add: exp_ok_def)
    then show ?thesis using True a(2) by simp
  next
    case False
    then have "2 \<le> unat n" using un by simp
    from of_nat_mono [OF this, where 'a = rat] have "1 / ?n \<le> 1 / 2" by (simp add: field_simps)
    moreover have "0 \<le> 1 / ?n" using n1 by simp
    ultimately show ?thesis using f64r.half_step_hull [OF a(2) m(2)] by blast
  qed
  show acc: "accepted mean" using a m hull by (auto simp: mean accepted_def)
  let ?e = "rnd (a - ?m)"
  have e0: "\<bar>a - ?m\<bar> \<le> 2000000000" using a m hull by (auto simp: abs_le_iff)
  then have e: "f64_sub v mean = Fin ?e" "\<bar>?e\<bar> \<le> 2000000000"
    using f64_of_Fin [of "a - ?m"] by (simp_all add: a(1) mean f64r.abs_le)
  have pos: "0 \<le> ?d * ?e"
  proof (cases "m \<le> a")
    case True
    then show ?thesis using hull by (intro mult_nonneg_nonneg f64r.nonneg) simp_all
  next
    case False
    then show ?thesis using hull by (intro mult_nonpos_nonpos f64r.nonpos) simp_all
  qed
  have "?d * ?e \<le> \<bar>?d\<bar> * \<bar>?e\<bar>" by (simp flip: abs_mult)
  also have "\<dots> \<le> 2000000000 * 2000000000" using d e by (intro mult_mono) (simp_all add: abs_le_iff)
  also have "\<dots> \<le> 2 ^ 63" by simp
  finally have up: "?d * ?e \<le> 2 ^ 63" .
  have p63: "rnd (2 ^ 63) = 2 ^ 63" using rnd_exact [of 1 63] by simp
  have "fin_in 0 (2 ^ 63) (f64_of (?d * ?e))" using pos up p63 by (intro fin_in_of) simp_all
  then obtain i where i: "f64_of (?d * ?e) = Fin i" "0 \<le> i" "i \<le> 2 ^ 63" by (rule fin_inE)
  from assms(1) obtain b where b: "x_m2 x = Fin b" "0 \<le> b" "b \<le> of_nat (unat (x_n x)) * 2 ^ 64"
    unfolding exp_ok_def by (blast elim: fin_inE)
  have "b + i \<le> ?n * 2 ^ 64" using b i un by (simp add: algebra_simps)
  moreover have "rnd (of_int (int (unat n)) * 2 powi 64) = of_int (int (unat n)) * 2 powi 64"
  proof (rule rnd_exact)
    have "unat n < 2 ^ 53" using un assms(3) by simp
    then have "int (unat n) \<le> 2 ^ 53" using of_nat_mono [of "unat n" "2 ^ 53", where 'a = int] by simp
    then show "\<bar>int (unat n)\<bar> \<le> 2 ^ 53" by simp
  qed simp
  then have "rnd (?n * 2 ^ 64) = ?n * 2 ^ 64" by (simp only: of_int_of_nat_eq power_int_numeral)
  moreover have "?n * 2 ^ 64 \<le> 2 ^ 200" using n1(2) by simp
  ultimately have "fin_in 0 (?n * 2 ^ 64) (f64_of (b + i))" using b(2) i(2) by (intro fin_in_of) simp_all
  then show "fin_in 0 (?n * 2 ^ 64) m2" by (simp only: m2_def b(1) d(1) e(1) f64_mul.simps i(1) f64_add.simps)
  show "m2 = Fin 0" if "n < 2"
  proof -
    have "x_n x = 0" using that un by (simp add: word_less_nat_alt unat_eq_zero)
    then have "m = 0" "b = 0" "unat n = 1" using assms(1) m(1) b(1) un by (simp_all add: exp_ok_def word_less_nat_alt)
    then have "?m = a" using a(2) by simp
    then have "?e = 0" by simp
    then show ?thesis by (simp only: m2_def b(1) d(1) e(1) \<open>b = 0\<close> f64_mul.simps mult_zero_right rnd_0
          f64_of_consts f64_add.simps add_0)
  qed
qed

lemma expected_hull:
  assumes "exp_ok x" and "accepted v" and "\<not> first_contact x"
  shows "\<exists>a e e'. v = Fin a \<and> x_expected x = Fin e \<and>
    f64_add (x_expected x) (f64_mul (gain v x) (surprise v x)) = Fin e' \<and> rnd e' = e' \<and>
    min a e \<le> e' \<and> e' \<le> max a e"
proof -
  let ?M = "1000000000 :: rat"
  from assms(2) obtain a where a: "v = Fin a" "rnd a = a" "- ?M \<le> a" "a \<le> ?M" unfolding accepted_def by (rule fin_inE)
  from assms(1) obtain e where e: "x_expected x = Fin e" "rnd e = e" "- ?M \<le> e" "e \<le> ?M"
    unfolding exp_ok_def accepted_def by (blast elim: fin_inE)
  from gain_range [OF assms(1), of v] obtain g where g: "gain v x = Fin g" "0 \<le> g" "g \<le> 1 / 2" by (rule fin_inE)
  have "\<bar>a - e\<bar> \<le> 2000000000" using a e by (simp add: abs_le_iff)
  then have s: "surprise v x = Fin (rnd (a - e))" "\<bar>rnd (a - e)\<bar> \<le> 2000000000"
    using assms(3) f64_of_Fin [of "a - e"] by (simp_all add: surprise_def a e f64r.abs_le)
  have "\<bar>g * rnd (a - e)\<bar> \<le> 1 * 2000000000" unfolding abs_mult using g s(2) by (intro mult_mono) simp_all
  then have p: "f64_of (g * rnd (a - e)) = Fin (rnd (g * rnd (a - e)))" "\<bar>rnd (g * rnd (a - e))\<bar> \<le> 2000000000"
    using f64_of_Fin [of "g * rnd (a - e)"] by (simp_all add: f64r.abs_le)
  then have "f64_of (e + rnd (g * rnd (a - e))) = Fin (rnd (e + rnd (g * rnd (a - e))))"
    using e by (intro f64_of_Fin) (simp add: abs_le_iff)
  then show ?thesis using f64r.half_step_hull [OF a(2) e(2) g(2,3)] 
    by (simp add: a(1) e(1) g(1) [unfolded a(1)] s(1) [unfolded a(1)] p(1))
qed

lemma observe_Inr:
  assumes "exp_observe v tm x = Inr (x', e)" and "f64_ok v"
  shows "accepted v" and "x_n x' = x_n x + 1" and "x_dimension x' = x_dimension x"
    and "x_claimed x' = x_claimed x" and "x_drift_up x' = next_up v x" and "x_drift_down x' = next_down v x"
    and "x_expected x' = (if first_contact x then v
           else f64_add (x_expected x) (f64_mul (gain v x) (surprise v x)))"
    and "pe_regime_change e \<longleftrightarrow> drifting v x" and "pe_surprise e = surprise v x" and "pe_weight e = surprise_weight v x"
  using assms by (auto simp: exp_observe_def rbind_eq_Inr_iff check_accepted Let_def)

lemma observe_ok:
  assumes "exp_ok x" and "exp_observe v tm x = Inr (x', e)" and "f64_ok v" and "unat (x_n x) + 1 < 2 ^ 32"
  shows "exp_ok x'"
proof -
  note o = observe_Inr [OF assms(2,3)]
  note w = welford_range [OF assms(1) o(1) assms(4)]
  have un: "unat (x_n x + 1) = unat (x_n x) + 1" by (rule unat_succ [OF assms(4)])
  have ex: "accepted (x_expected x')"
  proof (cases "first_contact x")
    case True
    then show ?thesis using o(1,7) by simp
  next
    case False
    from expected_hull [OF assms(1) o(1) False] o(1) assms(1) o(7) False show ?thesis
      by (auto simp: accepted_def exp_ok_def min_def max_def split: if_splits)
  qed
  from drift_steps [OF assms(1) o(1)] obtain u d z where z: "x_drift_up x = Fin u" "x_drift_down x = Fin d"
    "0 \<le> u" "u \<le> 4" "0 \<le> d" "d \<le> 4" "- 1 \<le> z" "z \<le> 1"
    "next_up v x = Fin (max 0 (min 4 (rnd (rnd (u + z) - 1 / 4))))"
    "next_down v x = Fin (max 0 (min 4 (rnd (rnd (d - z) - 1 / 4))))" by blast
  have first: "rnd (rnd y - 1 / 4) \<le> 3 / 4" if "y \<le> 1" for y
  proof -
    have "rnd y \<le> 1" using that by (intro f64r.le_fixed) simp_all
    then show ?thesis by (intro f64r.le_fixed) simp_all
  qed
  have range: "fin_in 0 4 (next_up v x)" "fin_in 0 4 (next_down v x)" by (auto simp: z max_def min_def)
  have "fin_in 0 (3 / 4) (next_up v x) \<and> fin_in 0 (3 / 4) (next_down v x)" if "x_n x + 1 = 1"
  proof -
    have "u = 0" "d = 0" using that assms(1) z(1,2) by (simp_all add: exp_ok_def)
    then show ?thesis using z first [of z] first [of "- z"] by (auto simp: max_def min_def)
  qed
  moreover have "x_n x + 1 \<noteq> 0" using un by (metis add_is_0 one_neq_zero unat_0)
  moreover have "x_mean x' = f64_add (x_mean x) (f64_div (f64_sub v (x_mean x)) (f64_of_nat (unat (x_n x + 1))))"
    "x_m2 x' = f64_add (x_m2 x) (f64_mul (f64_sub v (x_mean x)) (f64_sub v (x_mean x')))"
    using assms(2) by (auto simp: exp_observe_def rbind_eq_Inr_iff Let_def)
  ultimately show ?thesis using w ex range assms(1) unfolding exp_ok_def o by simp
qed

section \<open>Runs\<close>

datatype exp_op = Seen f64 int | Claims f64

fun exp_step :: "exp_op \<Rightarrow> expectation \<Rightarrow> expectation" where
  "exp_step (Seen v tm) x = (case exp_observe v tm x of Inl _ \<Rightarrow> x | Inr (x', _) \<Rightarrow> x')"
| "exp_step (Claims c) x = (case exp_record_claim c x of Inl _ \<Rightarrow> x | Inr x' \<Rightarrow> x')"

fun op_value :: "exp_op \<Rightarrow> f64" where
  "op_value (Seen v _) = v"
| "op_value (Claims c) = c"

definition exp_run :: "dimension \<Rightarrow> exp_op list \<Rightarrow> expectation" where
  "exp_run d ops = fold exp_step ops (expectation_new d)"

text \<open>A run on values of the type, shorter than the counter.\<close>

definition exp_ops_ok :: "exp_op list \<Rightarrow> bool" where
  "exp_ops_ok ops \<longleftrightarrow> list_all (\<lambda>op. f64_ok (op_value op)) ops \<and> length ops < 2 ^ 32"

lemma exp_step_ok:
  assumes "exp_ok x" and "f64_ok (op_value op)" and "unat (x_n x) + 1 < 2 ^ 32"
  shows "exp_ok (exp_step op x) \<and> unat (x_n (exp_step op x)) \<le> unat (x_n x) + 1"
proof (cases op)
  case (Seen v tm)
  show ?thesis
  proof (cases "exp_observe v tm x")
    case (Inr r)
    obtain x' e where r: "r = (x', e)" by (cases r)
    with Inr have o: "exp_observe v tm x = Inr (x', e)" by simp
    have "f64_ok v" using assms(2) Seen by simp
    with observe_ok [OF assms(1) o this assms(3)] observe_Inr(2) [OF o this] unat_succ [OF assms(3)]
    show ?thesis by (simp add: Seen o)
  qed (simp add: Seen assms(1))
next
  case (Claims c)
  have "x_n x' = x_n x" if "exp_record_claim c x = Inr x'" for x'
    using that by (auto simp: exp_record_claim_def rbind_eq_Inr_iff Let_def split: if_splits)
  then show ?thesis using assms record_claim_ok [OF assms(1), of c]
    by (cases "exp_record_claim c x") (simp_all add: Claims)
qed

lemma exp_fold_ok:
  assumes "exp_ok x" and "list_all (\<lambda>op. f64_ok (op_value op)) ops" and "unat (x_n x) + length ops < 2 ^ 32"
  shows "exp_ok (fold exp_step ops x) \<and> unat (x_n (fold exp_step ops x)) \<le> unat (x_n x) + length ops"
  using assms
proof (induction ops arbitrary: x)
  case (Cons op ops)
  from exp_step_ok [OF Cons.prems(1), of op] Cons.prems
  have "exp_ok (exp_step op x)" "unat (x_n (exp_step op x)) \<le> unat (x_n x) + 1" by simp_all
  with Cons.IH [of "exp_step op x"] Cons.prems show ?case by fastforce
qed simp

lemma exp_run_ok:
  assumes "exp_ops_ok ops"
  shows "exp_ok (exp_run d ops)" and "unat (x_n (exp_run d ops)) \<le> length ops"
  using exp_fold_ok [OF expectation_new_ok, of ops d] assms
  by (simp_all add: exp_ops_ok_def exp_run_def) (simp_all add: expectation_new_def)

text \<open>The expectation stays within the values it was given.\<close>

definition hull_ok :: "rat \<Rightarrow> rat \<Rightarrow> expectation \<Rightarrow> bool" where
  "hull_ok lo hi x \<longleftrightarrow> first_contact x \<or> fin_in lo hi (x_expected x)"

definition given_in :: "rat \<Rightarrow> rat \<Rightarrow> exp_op \<Rightarrow> bool" where
  "given_in lo hi op \<longleftrightarrow> (case check (op_value op) of Inl _ \<Rightarrow> True | Inr _ \<Rightarrow> fin_in lo hi (op_value op))"

lemma exp_step_hull:
  assumes "exp_ok x" and "hull_ok lo hi x" and "f64_ok (op_value op)" and "given_in lo hi op"
    and "unat (x_n x) + 1 < 2 ^ 32"
  shows "hull_ok lo hi (exp_step op x)"
proof (cases op)
  case (Seen v tm)
  show ?thesis
  proof (cases "exp_observe v tm x")
    case (Inr r)
    obtain x' e where r: "r = (x', e)" by (cases r)
    with Inr have ob: "exp_observe v tm x = Inr (x', e)" by simp
    have v: "f64_ok v" using assms(3) Seen by simp
    note o = observe_Inr [OF ob v]
    have "check v = Inr ()" using check_accepted [OF v] o(1) by blast
    then have in_v: "fin_in lo hi v" using assms(4) Seen by (simp add: given_in_def)
    have "fin_in lo hi (x_expected x')"
    proof (cases "first_contact x")
      case False
      then have "fin_in lo hi (x_expected x)" using assms(2) by (simp add: hull_ok_def)
      with expected_hull [OF assms(1) o(1) False] in_v o(7) False show ?thesis
        by (auto simp: min_def max_def split: if_splits)
    qed (simp add: o(7) in_v)
    then show ?thesis by (simp add: Seen ob hull_ok_def)
  qed (simp add: Seen assms(2))
next
  case (Claims c)
  show ?thesis
  proof (cases "exp_record_claim c x")
    case (Inr x')
    then have "check c = Inr ()" by (auto simp: exp_record_claim_def rbind_eq_Inr_iff)
    then have "fin_in lo hi c" using assms(4) Claims by (simp add: given_in_def)
    then show ?thesis using Inr assms(2)
      by (auto simp: Claims exp_record_claim_def rbind_eq_Inr_iff hull_ok_def first_contact_def Let_def
          split: if_splits)
  qed (simp add: Claims assms(2))
qed

lemma exp_fold_hull:
  assumes "exp_ok x" and "hull_ok lo hi x" and "list_all (\<lambda>op. f64_ok (op_value op)) ops"
    and "list_all (given_in lo hi) ops" and "unat (x_n x) + length ops < 2 ^ 32"
  shows "hull_ok lo hi (fold exp_step ops x)"
  using assms
proof (induction ops arbitrary: x)
  case (Cons op ops)
  from exp_step_ok [OF Cons.prems(1), of op] exp_step_hull [OF Cons.prems(1,2), of op] Cons.prems
  have "exp_ok (exp_step op x)" "unat (x_n (exp_step op x)) \<le> unat (x_n x) + 1" "hull_ok lo hi (exp_step op x)"
    by simp_all
  with Cons.IH [of "exp_step op x"] Cons.prems show ?case by simp
qed simp

section \<open>Drift\<close>

lemma full_miss:
  assumes "exp_ok x" and "accepted v" and "f64_le (scale (x_dimension x)) (surprise v x)"
  shows "drift_z v x = Fin 1" and "\<not> first_contact x"
proof -
  let ?s = "scale_value (x_dimension x)"
  from surprise_range [OF assms(1,2)] obtain s where s: "surprise v x = Fin s" "s \<le> 2000000000" by (rule fin_inE)
  have c: "1 \<le> ?s" "?s \<le> s" using scale_value assms(3) by (simp_all add: s)
  then have d: "1 \<le> s / ?s" "s / ?s \<le> s" by (simp_all add: le_divide_eq divide_le_eq mult_le_cancel_left1)
  then have "f64_of (s / ?s) = Fin (rnd (s / ?s))" using s(2) by (simp add: f64_of_Fin)
  moreover have "1 \<le> rnd (s / ?s)" using d(1) by (intro f64r.ge_fixed) simp_all
  moreover have "?s \<noteq> 0" using c(1) by auto
  ultimately show "drift_z v x = Fin 1" by (simp add: drift_z_def s(1) scale_value)
  show "\<not> first_contact x" using c s(1) by (auto simp: surprise_def)
qed

lemma drift_climbs:
  assumes "exp_ok x" and "accepted v" and "f64_le (scale (x_dimension x)) (surprise v x)"
    and "fin_in l 4 (x_drift_up x)" and "rnd (l + 1) = l + 1" and "rnd (l + 3 / 4) = l + 3 / 4" and "l + 3 / 4 \<le> 4"
  shows "fin_in (l + 3 / 4) 4 (next_up v x)"
proof -
  from drift_steps [OF assms(1,2)] full_miss(1) [OF assms(1-3)] obtain u where
    u: "x_drift_up x = Fin u" "0 \<le> u" "next_up v x = Fin (max 0 (min 4 (rnd (rnd (u + 1) - 1 / 4))))" by auto
  have "l \<le> u" using assms(4) u(1) by simp
  then have "l + 1 \<le> rnd (u + 1)" using assms(5) by (intro f64r.ge_fixed) simp_all
  then have "l + 3 / 4 \<le> rnd (rnd (u + 1) - 1 / 4)" using assms(6) by (intro f64r.ge_fixed) simp_all
  then show ?thesis using assms(7) by (auto simp: u(3) max_def min_def)
qed

lemma rnd_quarters: "rnd (7 / 4) = 7 / 4" "rnd (3 / 2) = 3 / 2" "rnd (5 / 2) = 5 / 2" "rnd (9 / 4) = 9 / 4"
  using rnd_fraction [of 7 2] rnd_fraction [of 3 1] rnd_fraction [of 5 1] rnd_fraction [of 9 2] by simp_all

lemma three_full_misses:
  assumes "exp_ok x" and "unat (x_n x) + 3 < 2 ^ 32"
    and "exp_observe v1 t1 x = Inr (x1, e1)" and "exp_observe v2 t2 x1 = Inr (x2, e2)"
    and "exp_observe v3 t3 x2 = Inr (x3, e3)" and "f64_ok v1" and "f64_ok v2" and "f64_ok v3"
    and "f64_le (scale (x_dimension x)) (pe_surprise e1)"
    and "f64_le (scale (x_dimension x1)) (pe_surprise e2)"
    and "f64_le (scale (x_dimension x2)) (pe_surprise e3)"
  shows "pe_regime_change e3"
proof -
  note o1 = observe_Inr [OF assms(3,6)] and o2 = observe_Inr [OF assms(4,7)] and o3 = observe_Inr [OF assms(5,8)]
  have n: "unat (x_n x) + 1 < 2 ^ 32" using assms(2) by simp
  then have n1: "unat (x_n x1) + 1 < 2 ^ 32" using assms(2) by (simp add: o1(2) unat_succ)
  have ok1: "exp_ok x1" by (rule observe_ok [OF assms(1) assms(3,6) n])
  have ok2: "exp_ok x2" by (rule observe_ok [OF ok1 assms(4,7) n1])
  have "fin_in 0 4 (x_drift_up x)" using assms(1) by (simp add: exp_ok_def)
  from drift_climbs [OF assms(1) o1(1) assms(9) [unfolded o1(9)] this]
  have d1: "fin_in (3 / 4) 4 (x_drift_up x1)" by (simp add: o1(5))
  from drift_climbs [OF ok1 o2(1) assms(10) [unfolded o2(9)] d1]
  have d2: "fin_in (3 / 2) 4 (x_drift_up x2)" by (simp add: o2(5) rnd_quarters)
  from drift_climbs [OF ok2 o3(1) assms(11) [unfolded o3(9)] d2]
  have "fin_in (9 / 4) 4 (next_up v3 x2)" by (simp add: rnd_quarters)
  then have "f64_le drift_threshold (next_up v3 x2)" by (auto elim!: fin_inE)
  then show ?thesis
    using full_miss(2) [OF ok2 o3(1) assms(11) [unfolded o3(9)]] by (simp add: o3(8) drifting_def)
qed

section \<open>Properties\<close>

definition to_wire :: "expectation \<Rightarrow> expectation_wire" where
  "to_wire x = \<lparr>w_dimension = x_dimension x, w_expected = x_expected x, w_mean = x_mean x, w_m2 = x_m2 x,
     w_n = x_n x, w_claimed = x_claimed x, w_drift_up = Some (x_drift_up x),
     w_drift_down = Some (x_drift_down x), w_first_observed_at = x_first_observed_at x,
     w_last_observed_at = x_last_observed_at x\<rparr>"

text \<open>C39. Every state the module reaches is one it reads back. Whatever was claimed and observed, refused
  values included, the stored form passes the checks of \<open>TryFrom<ExpectationWire>\<close> (all numbers finite,
  a variance that is not negative and is zero below two observations, drift not negative) and gives the
  same expectation. Fewer than \<open>2 ^ 32\<close> operations, so the counter has not wrapped.
\<close>

theorem stored_state_reloads:
  assumes "exp_ops_ok ops"
  shows "expectation_try_from (to_wire (exp_run d ops)) = Inr (exp_run d ops)"
proof -
  let ?x = "exp_run d ops"
  note ok = exp_run_ok(1) [OF assms, of d, unfolded exp_ok_def]
  from ok have "is_finite (x_expected ?x)" "is_finite (x_mean ?x)" "is_finite (x_m2 ?x)"
    "is_finite (x_drift_up ?x)" "is_finite (x_drift_down ?x)"
    by (auto simp: accepted_def is_finite_def fin_in_def split: f64.splits)
  moreover from ok have "\<not> f64_lt (x_m2 ?x) (f64_of 0)" "\<not> f64_lt (x_drift_up ?x) (f64_of 0)"
    "\<not> f64_lt (x_drift_down ?x) (f64_of 0)"
    by (auto elim!: fin_inE)
  moreover from ok have "x_n ?x < 2 \<longrightarrow> f64_eq (x_m2 ?x) (f64_of 0)" by auto
  moreover from ok have "case x_claimed ?x of None \<Rightarrow> True | Some c \<Rightarrow> is_finite c"
    by (auto simp: accepted_def is_finite_def fin_in_def split: f64.splits option.splits)
  ultimately show ?thesis
    by (simp add: expectation_try_from_def to_wire_def Let_def split: option.splits)
qed

text \<open>An expectation never leaves the range of the values it was given: if every claim and observation
  that \<open>check\<close> lets through lies between \<open>lo\<close> and \<open>hi\<close>, so does what is expected, whatever the gain and
  for all the rounding on the way.
\<close>

theorem expected_in_hull:
  assumes "exp_ops_ok ops" and "list_all (given_in lo hi) ops" and "exp_expected (exp_run d ops) = Some e"
  shows "fin_in lo hi e"
proof -
  have "hull_ok lo hi (exp_run d ops)"
    unfolding exp_run_def using assms(1,2)
    by (intro exp_fold_hull expectation_new_ok)
      (simp_all add: exp_ops_ok_def, simp_all add: hull_ok_def first_contact_def expectation_new_def)
  then show ?thesis using assms(3)
    by (auto simp: hull_ok_def exp_expected_def first_contact_def split: if_splits)
qed

text \<open>A change of regime is seen at the third miss. After any history, three observations in a row that
  each land at least one notable unit above what was expected of them end in \<open>regime_change\<close>.
\<close>

theorem three_misses_are_drift:
  assumes "exp_ops_ok ops" and "length ops + 3 < 2 ^ 32"
    and "exp_observe v1 t1 (exp_run d ops) = Inr (x1, e1)" and "exp_observe v2 t2 x1 = Inr (x2, e2)"
    and "exp_observe v3 t3 x2 = Inr (x3, e3)" and "f64_ok v1" and "f64_ok v2" and "f64_ok v3"
    and "f64_le (scale (x_dimension (exp_run d ops))) (pe_surprise e1)"
    and "f64_le (scale (x_dimension x1)) (pe_surprise e2)"
    and "f64_le (scale (x_dimension x2)) (pe_surprise e3)"
  shows "pe_regime_change e3"
proof -
  note ok = exp_run_ok [OF assms(1), of d]
  have "unat (x_n (exp_run d ops)) + 3 < 2 ^ 32" using ok(2) assms(2) by simp
  from three_full_misses [OF ok(1) this assms(3-11)] show ?thesis .
qed

text \<open>C40. One freak delay is not a change of regime, nor are two: an observation that reports one is at least
  the third.
\<close>

theorem regime_change_needs_three:
  assumes "exp_ops_ok ops" and "length ops + 1 < 2 ^ 32" and "f64_ok v"
    and "exp_observe v tm (exp_run d ops) = Inr (x', e)" and "pe_regime_change e"
  shows "3 \<le> x_n x'"
proof (rule ccontr)
  let ?x = "exp_run d ops"
  assume "\<not> 3 \<le> x_n x'"
  note ok = exp_run_ok [OF assms(1), of d] and o = observe_Inr [OF assms(4,3)]
  have "unat (x_n ?x + 1) = unat (x_n ?x) + 1" using ok(2) assms(2) by (intro unat_succ) simp
  with \<open>\<not> 3 \<le> x_n x'\<close> have "unat (x_n ?x) < 2" by (simp add: o(2) word_le_nat_alt)
  then have "unat (x_n ?x) = 0 \<or> unat (x_n ?x) = 1" by linarith
  then have "x_n ?x = 0 \<or> x_n ?x = 1" by (simp add: word_unat_eq_iff)
  then have d: "fin_in 0 (3 / 4) (x_drift_up ?x)" "fin_in 0 (3 / 4) (x_drift_down ?x)"
    using ok(1) by (auto simp: exp_ok_def)
  from drift_steps [OF ok(1) o(1)] obtain u w z where z: "x_drift_up ?x = Fin u" "x_drift_down ?x = Fin w"
    "- 1 \<le> z" "z \<le> 1" "next_up v ?x = Fin (max 0 (min 4 (rnd (rnd (u + z) - 1 / 4))))"
    "next_down v ?x = Fin (max 0 (min 4 (rnd (rnd (w - z) - 1 / 4))))" by blast
  have low: "rnd (rnd y - 1 / 4) \<le> 3 / 2" if "y \<le> 7 / 4" for y
  proof -
    have "rnd y \<le> 7 / 4" using that rnd_quarters by (intro f64r.le_fixed) simp_all
    then show ?thesis using rnd_quarters by (intro f64r.le_fixed) simp_all
  qed
  have "u \<le> 3 / 4" "w \<le> 3 / 4" using d z(1,2) by simp_all
  then have "rnd (rnd (u + z) - 1 / 4) \<le> 3 / 2" "rnd (rnd (w - z) - 1 / 4) \<le> 3 / 2"
    using z(3,4) low [of "u + z"] low [of "w - z"] by simp_all
  then have "max 0 (min 4 (rnd (rnd (u + z) - 1 / 4))) < 2" "max 0 (min 4 (rnd (rnd (w - z) - 1 / 4))) < 2"
    by (simp_all only: max_less_iff_conj min_less_iff_disj) simp_all
  then have "\<not> 2 \<le> max 0 (min 4 (rnd (rnd (u + z) - 1 / 4)))" "\<not> 2 \<le> max 0 (min 4 (rnd (rnd (w - z) - 1 / 4)))"
    unfolding not_le .
  then have "\<not> drifting v ?x" unfolding drifting_def z(5,6) expectation_consts f64_le.simps by blast
  with assms(5) show False by (simp add: o(8))
qed

text \<open>
  The error branches: what is not a number, infinite or beyond a thousand million is refused, and a
  refusal leaves the book without a trace of the call.
\<close>

lemma observe_refuses_iff:
  "(\<exists>e. exp_observe v tm x = Inl e) \<longleftrightarrow> \<not> (\<exists>a. v = Fin a \<and> \<bar>a\<bar> \<le> 1000000000)"
  using check_Inr_iff [of v "()"] by (cases "check v") (auto simp: exp_observe_def Let_def)

lemma book_get_entry:
  assumes "bt_ok b" and "list_all (\<lambda>(_, m). bt_ok m) b"
  shows "book_get c' d' (book_entry c d f b) =
    (if c' = c \<and> d' = d then Some (f (book_slot c d b)) else book_get c' d' b)"
proof -
  have "bt_ok m" if "map_of b c = Some m" for m
    using that assms(2) by (auto simp: list_all_iff dest: map_of_SomeD)
  then show ?thesis
    by (auto simp: book_get_def book_entry_def book_slot_def map_of_bt_entry [OF assms(1)] map_of_bt_entry
        split: option.split)
qed

lemma book_observe_other:
  assumes "bt_ok b" and "list_all (\<lambda>(_, m). bt_ok m) b" and "book_observe c d v tm b = Inr (b', e)"
    and "(c', d') \<noteq> (c, d)"
  shows "book_get c' d' b' = book_get c' d' b"
  using assms(3,4) by (auto simp: book_observe_def rbind_eq_Inr_iff book_get_entry [OF assms(1,2)])

text \<open>\<open>price_delta_bps\<close>: the amounts of a \<open>Money\<close> are not zero, so the quotient is a number.\<close>

lemma price_delta_finite:
  assumes "minor agreed \<noteq> 0"
  shows "price_delta_bps quoted agreed =
    (if currency quoted = currency agreed
     then Inr (Fin (rnd (rnd (of_int ((uint (minor quoted) - uint (minor agreed)) * 10000)) /
            rnd (of_nat (unat (minor agreed))))))
     else Inl (CurrencyMismatch (currency quoted) (currency agreed)))"
proof -
  let ?d = "of_int ((uint (minor quoted) - uint (minor agreed)) * 10000) :: rat"
  define n :: rat where "n = of_nat (unat (minor agreed))"
  have u: "uint w < 2 ^ 64" "0 \<le> uint w" for w :: u64 using uint_lt2p [of w] by simp_all
  have "\<bar>uint (minor quoted) - uint (minor agreed)\<bar> \<le> 2 ^ 64"
    using u(1) [of "minor quoted"] u(1) [of "minor agreed"] u(2) [of "minor quoted"] u(2) [of "minor agreed"]
    by linarith
  then have "\<bar>(uint (minor quoted) - uint (minor agreed)) * 10000\<bar> \<le> 2 ^ 64 * 10000"
    by (simp only: abs_mult) simp
  then have "\<bar>?d\<bar> \<le> of_int (2 ^ 64 * 10000)" by (simp only: of_int_le_iff flip: of_int_abs)
  then have d: "\<bar>?d\<bar> \<le> 2 ^ 78" by (rule order_trans) simp
  have p: "rnd (2 ^ 78) = 2 ^ 78" "rnd (2 ^ 64) = 2 ^ 64" using rnd_exact [of 1 78] rnd_exact [of 1 64] by simp_all
  have r: "\<bar>rnd ?d\<bar> \<le> 2 ^ 78" by (rule f64r.abs_le [OF d p(1)])
  have "unat (minor agreed) \<le> 2 ^ 64" "1 \<le> unat (minor agreed)"
    using unat_u64_less [of "minor agreed"] assms by (simp_all add: Suc_le_eq unat_gt_0 del: unat_u64_less)
  from of_nat_mono [OF this(1), where 'a = rat] of_nat_mono [OF this(2), where 'a = rat]
  have n: "1 \<le> n" "n \<le> 2 ^ 64" by (simp_all add: n_def)
  then have rn: "1 \<le> rnd n" using f64r.ge_fixed [of 1 n] by simp
  have "\<bar>rnd ?d / rnd n\<bar> \<le> \<bar>rnd ?d\<bar>" using rn by (simp add: divide_le_eq mult_le_cancel_left1)
  also note r
  also have "(2 ^ 78 :: rat) \<le> 2 ^ 200" by simp
  finally have q: "\<bar>rnd ?d / rnd n\<bar> \<le> 2 ^ 200" .
  have "f64_of ?d = Fin (rnd ?d)" by (rule f64_of_Fin) (rule order_trans [OF d], simp)
  moreover have "f64_of_nat (unat (minor agreed)) = Fin (rnd n)"
    unfolding f64_of_nat_def n_def [symmetric] by (rule f64_of_Fin) (use n in simp)
  moreover have "rnd n \<noteq> 0" using rn by auto
  ultimately show ?thesis using f64_of_Fin [OF q]
    unfolding price_delta_bps_def Let_def n_def [symmetric] by simp
qed

section \<open>A concrete history\<close>

text \<open>A supplier who claims fifteen days and delivers in 23, 100 and 500.\<close>

definition sample_x0 :: expectation where "sample_x0 = exp_run LeadTimeDays [Claims (Fin 15)]"

definition sample_x1 :: expectation where
  "sample_x1 = exp_run LeadTimeDays [Claims (Fin 15), Seen (Fin 23) 1]"

definition sample_x2 :: expectation where
  "sample_x2 = exp_run LeadTimeDays [Claims (Fin 15), Seen (Fin 23) 1, Seen (Fin 100) 2]"

lemma sample_value_ok: "a \<in> {15, 23, 100, 500} \<Longrightarrow> f64_ok (Fin a)"
proof -
  have "(500 :: rat) < 2 powi 10" by simp
  also have "(2 powi 10 :: rat) < 2 powi 1024" by (rule power_int_strict_increasing) simp_all
  finally have "(500 :: rat) < 2 powi 1024" .
  moreover assume "a \<in> {15, 23, 100, 500}"
  ultimately show "f64_ok (Fin a)" by (auto simp: f64_ok_def simp del: power_int_numeral)
qed

lemma observe_accepts: "check v = Inr () \<Longrightarrow> \<exists>e. exp_observe v tm x = Inr (exp_step (Seen v tm) x, e)"
  by (simp add: exp_observe_def Let_def)

lemma sample_checks [simp]:
  "check (Fin 15) = Inr ()" "check (Fin 23) = Inr ()" "check (Fin 100) = Inr ()" "check (Fin 500) = Inr ()"
  by (simp_all add: check_Inr_iff)

lemma step_keeps:
  "x_dimension (exp_step op x) = x_dimension x"
  "x_claimed x \<noteq> None \<Longrightarrow> x_claimed (exp_step op x) \<noteq> None"
proof -
  show "x_dimension (exp_step op x) = x_dimension x"
    by (cases op; cases "check (op_value op)") (simp_all add: exp_observe_def exp_record_claim_def Let_def)
  show "x_claimed x \<noteq> None \<Longrightarrow> x_claimed (exp_step op x) \<noteq> None"
    by (cases op; cases "check (op_value op)") (simp_all add: exp_observe_def exp_record_claim_def Let_def)
qed

lemma far_above:
  assumes "exp_ok x" and "hull_ok lo hi x" and "\<not> first_contact x" and "accepted (Fin a)" and "hi + 3 \<le> a"
  shows "f64_le (Fin 3) (surprise (Fin a) x)"
proof -
  from assms(1) obtain e where e: "x_expected x = Fin e" "- 1000000000 \<le> e" "e \<le> 1000000000"
    unfolding exp_ok_def accepted_def by (blast elim: fin_inE)
  then have "e \<le> hi" using assms(2,3) by (simp add: hull_ok_def)
  then have "3 \<le> rnd (a - e)" using assms(5) by (intro f64r.ge_fixed) simp_all
  moreover have "\<bar>a - e\<bar> \<le> 2 ^ 200" using assms(4) e by (simp add: accepted_def abs_le_iff)
  ultimately show ?thesis using assms(3) by (simp add: surprise_def e f64_of_Fin)
qed

lemma fold_keeps:
  "x_dimension (fold exp_step ops x) = x_dimension x"
  "x_claimed x \<noteq> None \<Longrightarrow> x_claimed (fold exp_step ops x) \<noteq> None"
proof -
  show "x_dimension (fold exp_step ops x) = x_dimension x"
    by (induction ops arbitrary: x) (simp_all add: step_keeps del: exp_step.simps)
  show "x_claimed x \<noteq> None \<Longrightarrow> x_claimed (fold exp_step ops x) \<noteq> None"
  proof (induction ops arbitrary: x)
    case (Cons op ops)
    from Cons.IH [OF step_keeps(2) [OF Cons.prems]] show ?case by simp
  qed simp
qed

lemma claimed_run:
  assumes "exp_ops_ok (Claims c # ops)" and "check c = Inr ()"
  shows "x_dimension (exp_run d (Claims c # ops)) = d" and "\<not> first_contact (exp_run d (Claims c # ops))"
    and "exp_ok (exp_run d (Claims c # ops))"
    and "list_all (given_in lo hi) (Claims c # ops) \<Longrightarrow> hull_ok lo hi (exp_run d (Claims c # ops))"
proof -
  show "x_dimension (exp_run d (Claims c # ops)) = d"
    by (simp add: exp_run_def fold_keeps step_keeps del: exp_step.simps) (simp add: expectation_new_def)
  have "x_claimed (exp_step (Claims c) (expectation_new d)) \<noteq> None"
    using assms(2) by (simp add: exp_record_claim_def expectation_new_def)
  from fold_keeps(2) [OF this, of ops] show "\<not> first_contact (exp_run d (Claims c # ops))"
    by (simp add: exp_run_def first_contact_def del: exp_step.simps)
  show "exp_ok (exp_run d (Claims c # ops))" by (rule exp_run_ok(1) [OF assms(1)])
  have "hull_ok lo hi (expectation_new d)" by (simp add: hull_ok_def first_contact_def expectation_new_def)
  moreover have "unat (x_n (expectation_new d)) = 0" by (simp add: expectation_new_def)
  ultimately show "hull_ok lo hi (exp_run d (Claims c # ops))" if "list_all (given_in lo hi) (Claims c # ops)"
    using assms(1) that unfolding exp_run_def exp_ops_ok_def
    by (intro exp_fold_hull expectation_new_ok) (simp_all only: add_0)
qed

lemma sample_ops_ok:
  "exp_ops_ok [Claims (Fin 15)]" "exp_ops_ok [Claims (Fin 15), Seen (Fin 23) 1]"
  "exp_ops_ok [Claims (Fin 15), Seen (Fin 23) 1, Seen (Fin 100) 2]"
  by (simp_all add: exp_ops_ok_def sample_value_ok)

lemma sample_given:
  "list_all (given_in 15 15) [Claims (Fin 15)]" "list_all (given_in 15 23) [Claims (Fin 15), Seen (Fin 23) 1]"
  "list_all (given_in 15 100) [Claims (Fin 15), Seen (Fin 23) 1, Seen (Fin 100) 2]"
  by (simp_all add: given_in_def)

lemmas sample_0 = claimed_run [OF sample_ops_ok(1) sample_checks(1), where d = LeadTimeDays, folded sample_x0_def]

lemmas sample_1 = claimed_run [OF sample_ops_ok(2) sample_checks(1), where d = LeadTimeDays, folded sample_x1_def]

lemmas sample_2 = claimed_run [OF sample_ops_ok(3) sample_checks(1), where d = LeadTimeDays, folded sample_x2_def]

lemma sample_steps:
  "exp_step (Seen (Fin 23) 1) sample_x0 = sample_x1" "exp_step (Seen (Fin 100) 2) sample_x1 = sample_x2"
  by (simp_all only: sample_x0_def sample_x1_def sample_x2_def exp_run_def fold.simps o_apply id_apply)

lemma sample_accepted: "accepted (Fin 23)" "accepted (Fin 100)" "accepted (Fin 500)"
  by (simp_all add: accepted_def)

lemma sample_misses:
  "f64_le (Fin 3) (surprise (Fin 23) sample_x0)" "f64_le (Fin 3) (surprise (Fin 100) sample_x1)"
  "f64_le (Fin 3) (surprise (Fin 500) sample_x2)"
  by (rule far_above [OF sample_0(3) sample_0(4) [OF sample_given(1)] sample_0(2) sample_accepted(1)], simp)
    (rule far_above [OF sample_1(3) sample_1(4) [OF sample_given(2)] sample_1(2) sample_accepted(2)], simp,
     rule far_above [OF sample_2(3) sample_2(4) [OF sample_given(3)] sample_2(2) sample_accepted(3)], simp)

theorem stored_state_reloads_witness:
  "expectation_try_from (to_wire (exp_run LeadTimeDays [Claims (Fin 15), Seen (Fin 23) 1])) =
     Inr (exp_run LeadTimeDays [Claims (Fin 15), Seen (Fin 23) 1])"
  by (rule stored_state_reloads [OF sample_ops_ok(2)])

theorem expected_in_hull_witness:
  "\<exists>e. exp_expected (exp_run LeadTimeDays [Claims (Fin 15), Seen (Fin 23) 1]) = Some e \<and> fin_in 15 23 e"
proof -
  have "exp_expected (exp_run LeadTimeDays [Claims (Fin 15), Seen (Fin 23) 1]) = Some (x_expected sample_x1)"
    using sample_1(2) unfolding sample_x1_def [symmetric]
    by (auto simp: exp_expected_def first_contact_def word_gt_0)
  with expected_in_hull [OF sample_ops_ok(2) sample_given(2)] show ?thesis by blast
qed

text \<open>The three observations, and the report of the last.\<close>

lemma sample_observed:
  "\<exists>e1 e2 x3 e3. exp_observe (Fin 23) 1 sample_x0 = Inr (sample_x1, e1) \<and>
     exp_observe (Fin 100) 2 sample_x1 = Inr (sample_x2, e2) \<and> exp_observe (Fin 500) 3 sample_x2 = Inr (x3, e3) \<and>
     f64_le (scale (x_dimension sample_x0)) (pe_surprise e1) \<and>
     f64_le (scale (x_dimension sample_x1)) (pe_surprise e2) \<and>
     f64_le (scale (x_dimension sample_x2)) (pe_surprise e3)"
proof -
  obtain e1 where 1: "exp_observe (Fin 23) 1 sample_x0 = Inr (sample_x1, e1)"
    using observe_accepts [OF sample_checks(2), of 1 sample_x0] unfolding sample_steps by blast
  obtain e2 where 2: "exp_observe (Fin 100) 2 sample_x1 = Inr (sample_x2, e2)"
    using observe_accepts [OF sample_checks(3), of 2 sample_x1] unfolding sample_steps by blast
  obtain x3 e3 where 3: "exp_observe (Fin 500) 3 sample_x2 = Inr (x3, e3)"
    using observe_accepts [OF sample_checks(4), of 3 sample_x2] by blast
  have "scale LeadTimeDays = Fin 3" by (simp add: scale_value)
  with 1 2 3 sample_misses observe_Inr(9) [OF 1 sample_value_ok] observe_Inr(9) [OF 2 sample_value_ok]
    observe_Inr(9) [OF 3 sample_value_ok]
  show ?thesis by (simp add: sample_0(1) sample_1(1) sample_2(1))
qed

theorem three_misses_are_drift_witness:
  "\<exists>x3 e3. exp_observe (Fin 500) 3 sample_x2 = Inr (x3, e3) \<and> pe_regime_change e3"
proof -
  from sample_observed obtain e1 e2 x3 e3 where o: "exp_observe (Fin 23) 1 sample_x0 = Inr (sample_x1, e1)"
    "exp_observe (Fin 100) 2 sample_x1 = Inr (sample_x2, e2)" "exp_observe (Fin 500) 3 sample_x2 = Inr (x3, e3)"
    "f64_le (scale (x_dimension sample_x0)) (pe_surprise e1)"
    "f64_le (scale (x_dimension sample_x1)) (pe_surprise e2)"
    "f64_le (scale (x_dimension sample_x2)) (pe_surprise e3)" by blast
  have v: "f64_ok (Fin 23)" "f64_ok (Fin 100)" "f64_ok (Fin 500)" by (simp_all add: sample_value_ok)
  from three_misses_are_drift [OF sample_ops_ok(1) _ o(1-3) [unfolded sample_x0_def] v o(4) [unfolded sample_x0_def] o(5,6)]
  show ?thesis using o(3) by simp
qed

theorem regime_change_needs_three_witness:
  "\<exists>x3 e3. exp_observe (Fin 500) 3 sample_x2 = Inr (x3, e3) \<and> 3 \<le> x_n x3"
proof -
  from sample_observed obtain e1 e2 x3 e3 where o: "exp_observe (Fin 23) 1 sample_x0 = Inr (sample_x1, e1)"
    "exp_observe (Fin 100) 2 sample_x1 = Inr (sample_x2, e2)" "exp_observe (Fin 500) 3 sample_x2 = Inr (x3, e3)"
    "f64_le (scale (x_dimension sample_x0)) (pe_surprise e1)"
    "f64_le (scale (x_dimension sample_x1)) (pe_surprise e2)"
    "f64_le (scale (x_dimension sample_x2)) (pe_surprise e3)" by blast
  have v: "f64_ok (Fin 23)" "f64_ok (Fin 100)" "f64_ok (Fin 500)" by (simp_all add: sample_value_ok)
  have "unat (x_n sample_x0) + 3 < 2 ^ 32"
    using exp_run_ok(2) [OF sample_ops_ok(1), of LeadTimeDays] unfolding sample_x0_def by simp
  from three_full_misses [OF sample_0(3) this o(1-3) v o(4-6)] have "pe_regime_change e3" .
  with regime_change_needs_three [OF sample_ops_ok(3) _ v(3) o(3) [unfolded sample_x2_def]] o(3)
  show ?thesis by simp
qed

end
