(* ===== verification/Links.thy ===== *)
theory Links
  imports F64 BTree
begin

text \<open>
  \<open>crates/domain/src/psyche/links.rs\<close>: trust links, one per counterparty. A link moves by the
  events recorded on it, a built link absorbs part of a blow, and a rupture leaves a scar. All
  arithmetic is \<open>f64\<close>. The module is not wired to the server (its header says so); \<open>ranked\<close>, a read-only
  listing, is left out.
\<close>

section \<open>Definitions\<close>

definition base_confidence :: f64 where "base_confidence = f64_of (5 / 10)"

definition kept_promise_delta :: f64 where "kept_promise_delta = f64_of (10 / 100)"

definition broken_commitment_delta :: f64 where "broken_commitment_delta = f64_of (- 25 / 100)"

definition repeated_fault_delta :: f64 where "repeated_fault_delta = f64_of (- 10 / 100)"

definition shock_absorber :: f64 where "shock_absorber = f64_of (85 / 100)"

definition break_drop :: f64 where "break_drop = f64_of (2 / 10)"

definition breakable_from :: f64 where "breakable_from = f64_of (6 / 10)"

definition close_from :: f64 where "close_from = f64_of (65 / 100)"

definition wary_under :: f64 where "wary_under = f64_of (35 / 100)"

definition max_weight :: f64 where "max_weight = f64_of 10"

definition appraisal_close_bad :: f64 where "appraisal_close_bad = f64_of 2"

definition appraisal_wary_bad :: f64 where "appraisal_wary_bad = f64_of (5 / 10)"

definition appraisal_wary_good :: f64 where "appraisal_wary_good = f64_of (15 / 10)"

definition clamp01 :: "f64 \<Rightarrow> f64" where "clamp01 x = f64_clamp x (f64_of 0) (f64_of 1)"

datatype link_polarity = GoodEvent | BadEvent

datatype trust_event = PromiseKept | CommitmentBroken | FaultRepeated

fun event_delta :: "trust_event \<Rightarrow> f64" where
  "event_delta PromiseKept = kept_promise_delta"
| "event_delta CommitmentBroken = broken_commitment_delta"
| "event_delta FaultRepeated = repeated_fault_delta"

fun event_polarity :: "trust_event \<Rightarrow> link_polarity" where
  "event_polarity PromiseKept = GoodEvent"
| "event_polarity CommitmentBroken = BadEvent"
| "event_polarity FaultRepeated = BadEvent"

datatype standing = Close | NeutralStanding | WaryStanding

record trust_link =
  tl_confidence :: f64
  tl_broken_at :: "int option"

record appraisal =
  ap_standing :: standing
  ap_broken :: bool
  ap_factor :: f64

record link_change =
  lc_event :: trust_event
  lc_before :: f64
  lc_after :: f64
  lc_broke :: bool

datatype link_error = LinkConfidence f64

definition link_default :: trust_link where
  "link_default = \<lparr>tl_confidence = base_confidence, tl_broken_at = None\<rparr>"

definition link_is_broken :: "trust_link \<Rightarrow> bool" where
  "link_is_broken l \<longleftrightarrow> tl_broken_at l \<noteq> None"

definition link_standing :: "trust_link \<Rightarrow> standing" where
  "link_standing l =
     (if f64_le close_from (tl_confidence l) \<and> \<not> link_is_broken l then Close
      else if f64_le (tl_confidence l) wary_under then WaryStanding
      else NeutralStanding)"

definition appraise_link :: "trust_link option \<Rightarrow> link_polarity \<Rightarrow> appraisal" where
  "appraise_link link p =
     (let s = (case link of None \<Rightarrow> NeutralStanding | Some l \<Rightarrow> link_standing l);
          b = (case link of None \<Rightarrow> False | Some l \<Rightarrow> link_is_broken l);
          f = (if p = BadEvent \<and> s = Close then appraisal_close_bad
               else if p = BadEvent \<and> s = WaryStanding then appraisal_wary_bad
               else if p = GoodEvent \<and> s = WaryStanding then appraisal_wary_good
               else f64_of 1)
      in \<lparr>ap_standing = s, ap_broken = b, ap_factor = f\<rparr>)"

definition increment :: "trust_event \<Rightarrow> f64 \<Rightarrow> f64 \<Rightarrow> f64" where
  "increment ev w before =
     (let w' = (if w = NaN then f64_of 1 else f64_clamp w (f64_of 0) max_weight);
          i = f64_mul (event_delta ev) w'
      in if f64_lt i (f64_of 0)
         then f64_mul i (f64_sub (f64_of 1)
                (f64_mul (f64_mul shock_absorber (f64_max (f64_sub before base_confidence) (f64_of 0))) (f64_of 2)))
         else i)"

definition link_apply :: "trust_event \<Rightarrow> f64 \<Rightarrow> int \<Rightarrow> trust_link \<Rightarrow> trust_link \<times> link_change" where
  "link_apply ev w tm l =
     (let before = tl_confidence l;
          after = clamp01 (f64_add before (increment ev w before));
          broke = (f64_lt break_drop (f64_sub before after) \<and> f64_le breakable_from before \<and> tl_broken_at l = None)
      in (l\<lparr>tl_confidence := after, tl_broken_at := (if broke then Some tm else tl_broken_at l)\<rparr>,
          \<lparr>lc_event = ev, lc_before = before, lc_after = after, lc_broke = broke\<rparr>))"

text \<open>The stored form is the pair itself; reading it back checks the confidence.\<close>

definition link_try_from :: "f64 \<Rightarrow> int option \<Rightarrow> link_error + trust_link" where
  "link_try_from c b =
     (if \<not> is_finite c \<or> \<not> (f64_le (f64_of 0) c \<and> f64_le c (f64_of 1)) then Inl (LinkConfidence c)
      else Inr \<lparr>tl_confidence = c, tl_broken_at = b\<rparr>)"

type_synonym trust_ledger = "(slug, trust_link) btree"

definition ledger_confidence :: "slug \<Rightarrow> trust_ledger \<Rightarrow> f64" where
  "ledger_confidence c m = (case map_of m c of None \<Rightarrow> base_confidence | Some l \<Rightarrow> tl_confidence l)"

definition ledger_appraise :: "slug \<Rightarrow> link_polarity \<Rightarrow> trust_ledger \<Rightarrow> appraisal" where
  "ledger_appraise c p m = appraise_link (map_of m c) p"

definition trust_record :: "slug \<Rightarrow> trust_event \<Rightarrow> f64 \<Rightarrow> int \<Rightarrow> trust_ledger \<Rightarrow> trust_ledger \<times> link_change" where
  "trust_record c ev w tm m =
     (bt_entry c link_default (\<lambda>l. fst (link_apply ev w tm l)) m,
      snd (link_apply ev w tm (case map_of m c of None \<Rightarrow> link_default | Some l \<Rightarrow> l)))"

definition broken_links :: "trust_ledger \<Rightarrow> slug list" where
  "broken_links m = map fst (filter (\<lambda>(_, l). link_is_broken l) m)"

section \<open>Lemmas\<close>

lemma link_consts [simp]:
  "base_confidence = Fin (1 / 2)"
  "kept_promise_delta = Fin (rnd (1 / 10))"
  "broken_commitment_delta = Fin (- (1 / 4))"
  "repeated_fault_delta = Fin (- rnd (1 / 10))"
  "shock_absorber = Fin (rnd (17 / 20))"
  "max_weight = Fin 10"
  unfolding base_confidence_def kept_promise_delta_def broken_commitment_delta_def repeated_fault_delta_def
    shock_absorber_def max_weight_def
  using rnd_minus [of "1 / 10"] rnd_minus [of "1 / 4"] by (simp_all add: f64_of_Fin)

definition link_ok :: "trust_link \<Rightarrow> bool" where
  "link_ok l \<longleftrightarrow> fin_in 0 1 (tl_confidence l)"

lemma link_default_ok: "link_ok link_default"
  by (simp add: link_ok_def link_default_def)

lemma weight_range:
  assumes "f64_ok w"
  shows "fin_in 0 10 (if w = NaN then f64_of 1 else f64_clamp w (f64_of 0) max_weight)"
  using fin_in_clamp [of w 0 10] assms by simp

text \<open>A good event never lowers, a bad one never raises; both by at most ten times the delta.\<close>

lemma increment_sign:
  assumes "fin_in 0 1 before" and "f64_ok w"
  shows "\<exists>i. increment ev w before = Fin i \<and> \<bar>i\<bar> \<le> 10 \<and> (event_polarity ev = GoodEvent \<longrightarrow> 0 \<le> i) \<and>
    (event_polarity ev = BadEvent \<longrightarrow> i \<le> 0)"
proof -
  from assms(1) obtain b where b: "before = Fin b" "0 \<le> b" "b \<le> 1" by (rule fin_inE)
  define w' where "w' = (if w = NaN then f64_of 1 else f64_clamp w (f64_of 0) max_weight)"
  from weight_range [OF assms(2)] obtain v where v: "w' = Fin v" "0 \<le> v" "v \<le> 10"
    unfolding w'_def by (rule fin_inE)
  have tenth: "0 \<le> rnd (1 / 10)" "rnd (1 / 10) \<le> 1"
    using f64r.nonneg [of "1 / 10"] f64r.le_fixed [of "1 / 10" 1] by simp_all
  have "\<exists>d. event_delta ev = Fin d \<and> \<bar>d\<bar> \<le> 1 \<and> (event_polarity ev = GoodEvent \<longrightarrow> 0 \<le> d) \<and>
      (event_polarity ev = BadEvent \<longrightarrow> d \<le> 0)"
    using tenth by (cases ev) simp_all
  then obtain d where d: "event_delta ev = Fin d" "\<bar>d\<bar> \<le> 1" "event_polarity ev = GoodEvent \<longrightarrow> 0 \<le> d"
    "event_polarity ev = BadEvent \<longrightarrow> d \<le> 0" by blast
  have dv: "\<bar>d * v\<bar> \<le> 10" using mult_mono [of "\<bar>d\<bar>" 1 v 10] d(2) v by (simp add: abs_mult)
  then have i: "f64_mul (event_delta ev) w' = Fin (rnd (d * v))" "\<bar>rnd (d * v)\<bar> \<le> 10"
    using f64_of_Fin [of "d * v"] by (simp_all add: d(1) v(1) f64r.abs_le)
  have sign: "0 \<le> d \<Longrightarrow> 0 \<le> rnd (d * v)" "d \<le> 0 \<Longrightarrow> rnd (d * v) \<le> 0"
    using v(2) by (simp_all add: f64r.nonneg f64r.nonpos mult_nonpos_nonneg)
  have "fin_in (- (1 / 2)) (1 / 2) (f64_of (b - 1 / 2))"
    using b rnd_minus [of "1 / 2"] by (intro fin_in_of) simp_all
  then obtain e where e: "f64_of (b - 1 / 2) = Fin e" "e \<le> 1 / 2" by (rule fin_inE)
  let ?m = "max e 0"
  have s: "0 \<le> rnd (17 / 20)" "rnd (17 / 20) \<le> 1"
    using f64r.nonneg [of "17 / 20"] f64r.le_fixed [of "17 / 20" 1] by simp_all
  have "fin_in 0 (1 / 2) (f64_of (rnd (17 / 20) * ?m))"
    using s e mult_mono [of "rnd (17 / 20)" 1 ?m "1 / 2"] by (intro fin_in_of) simp_all
  then obtain q where q: "f64_of (rnd (17 / 20) * ?m) = Fin q" "0 \<le> q" "q \<le> 1 / 2" by (rule fin_inE)
  have "fin_in 0 1 (f64_of (q * 2))" using q by (intro fin_in_of) simp_all
  then obtain q2 where q2: "f64_of (q * 2) = Fin q2" "0 \<le> q2" "q2 \<le> 1" by (rule fin_inE)
  have "fin_in 0 1 (f64_of (1 - q2))" using q2 by (intro fin_in_of) simp_all
  then obtain f where f: "f64_of (1 - q2) = Fin f" "0 \<le> f" "f \<le> 1" by (rule fin_inE)
  let ?i = "rnd (d * v)"
  have "\<bar>?i * f\<bar> \<le> 10" using mult_mono [of "\<bar>?i\<bar>" 10 f 1] i(2) f by (simp add: abs_mult)
  then have j: "f64_of (?i * f) = Fin (rnd (?i * f))" "\<bar>rnd (?i * f)\<bar> \<le> 10"
    using f64_of_Fin [of "?i * f"] by (simp_all add: f64r.abs_le)
  have neg: "?i \<le> 0 \<Longrightarrow> rnd (?i * f) \<le> 0" using f(2) by (intro f64r.nonpos) (simp add: mult_nonpos_nonneg)
  have "increment ev w before = (if ?i < 0 then Fin (rnd (?i * f)) else Fin ?i)"
    unfolding increment_def Let_def w'_def [symmetric] i(1)
    by (simp add: b(1) e(1) q(1) q2(1) f(1) j(1))
  then show ?thesis using i(2) j(2) sign d(3,4) neg by auto
qed

lemma link_apply_moves:
  assumes "link_ok l" and "f64_ok w"
  shows "\<exists>b a. tl_confidence l = Fin b \<and> tl_confidence (fst (link_apply ev w tm l)) = Fin a \<and>
    rnd a = a \<and> 0 \<le> a \<and> a \<le> 1 \<and> (event_polarity ev = GoodEvent \<longrightarrow> b \<le> a) \<and>
    (event_polarity ev = BadEvent \<longrightarrow> a \<le> b)"
proof -
  from assms(1) obtain b where b: "tl_confidence l = Fin b" "rnd b = b" "0 \<le> b" "b \<le> 1"
    unfolding link_ok_def by (rule fin_inE)
  have "fin_in 0 1 (Fin b)" using b by simp
  from increment_sign [OF this assms(2), of ev] obtain i where i: "increment ev w (Fin b) = Fin i" "\<bar>i\<bar> \<le> 10"
    "event_polarity ev = GoodEvent \<longrightarrow> 0 \<le> i" "event_polarity ev = BadEvent \<longrightarrow> i \<le> 0" by blast
  have "f64_of (b + i) = Fin (rnd (b + i))" using b i(2) by (intro f64_of_Fin) (simp add: abs_le_iff)
  moreover have "0 \<le> i \<Longrightarrow> b \<le> rnd (b + i)" using b(2) by (intro f64r.ge_fixed) simp_all
  moreover have "i \<le> 0 \<Longrightarrow> rnd (b + i) \<le> b" using b(2) by (intro f64r.le_fixed) simp_all
  ultimately show ?thesis using b i
    by (auto simp: link_apply_def Let_def clamp01_def max_def min_def)
qed

lemma scar_stays: "tl_broken_at l = Some t \<Longrightarrow> tl_broken_at (fst (link_apply ev w tm l)) = Some t"
  by (simp add: link_apply_def Let_def)

text \<open>A history of events on one link, and the ledger that keeps the links.\<close>

type_synonym link_event = "trust_event \<times> f64 \<times> int"

definition link_run :: "link_event list \<Rightarrow> trust_link \<Rightarrow> trust_link" where
  "link_run es l = fold (\<lambda>(ev, w, tm) l. fst (link_apply ev w tm l)) es l"

lemma link_run_ok:
  "link_ok l \<Longrightarrow> list_all (\<lambda>(_, w, _). f64_ok w) es \<Longrightarrow> link_ok (link_run es l)"
proof (induction es arbitrary: l)
  case (Cons e es)
  obtain ev w tm where e: "e = (ev, w, tm)" by (cases e)
  from Cons.prems link_apply_moves [of l w ev tm] have "link_ok (fst (link_apply ev w tm l))"
    by (auto simp: e link_ok_def)
  with Cons show ?case by (simp add: e link_run_def)
qed (simp add: link_run_def)

lemma scar_is_permanent:
  assumes "lc_broke (snd (link_apply ev w tm l))"
  shows "tl_broken_at (link_run es (fst (link_apply ev w tm l))) = Some tm \<and>
    link_standing (link_run es (fst (link_apply ev w tm l))) \<noteq> Close"
proof -
  have "tl_broken_at l1 = Some tm \<Longrightarrow> tl_broken_at (link_run es l1) = Some tm" for l1
    by (induction es arbitrary: l1) (auto simp: link_run_def scar_stays)
  moreover have "tl_broken_at (fst (link_apply ev w tm l)) = Some tm"
    using assms by (simp add: link_apply_def Let_def)
  ultimately show ?thesis by (simp add: link_standing_def link_is_broken_def)
qed

text \<open>A cold counterparty cannot betray: a link below the breakable confidence never breaks.\<close>

lemma cold_link_never_breaks:
  assumes "\<not> f64_le breakable_from (tl_confidence l)"
  shows "\<not> lc_broke (snd (link_apply ev w tm l))"
  using assms by (simp add: link_apply_def Let_def)

text \<open>What is stored reads back: the check accepts exactly the confidences a link can have.\<close>

lemma link_reloads: "link_ok l \<Longrightarrow> link_try_from (tl_confidence l) (tl_broken_at l) = Inr l"
  by (auto simp: link_ok_def link_try_from_def elim!: fin_inE)

lemma trust_record_get:
  assumes "bt_ok m"
  shows "map_of (fst (trust_record c ev w tm m)) c' =
    (if c' = c then Some (fst (link_apply ev w tm (case map_of m c of None \<Rightarrow> link_default | Some l \<Rightarrow> l)))
     else map_of m c')"
  by (simp add: trust_record_def map_of_bt_entry [OF assms])

lemma ledger_confidence_range:
  assumes "bt_ok m" and "list_all (\<lambda>(_, l). link_ok l) m"
  shows "fin_in 0 1 (ledger_confidence c m)"
  using assms by (auto simp: ledger_confidence_def list_all_iff link_ok_def dest: map_of_SomeD split: option.split)

end
