(* ===== verification/Forecast.thy ===== *)
theory Forecast
  imports F64 Policy
begin

text \<open>
  \<open>crates/domain/src/forecast.rs\<close>: what a turn costs, from the rate card of a model and three
  recorded runs, and the spread of a figure over the runs. The lemmas say that the spread really
  spans every recorded run.
\<close>

section \<open>Definitions\<close>

fun rate_card :: "model_id \<Rightarrow> f64 \<times> f64" where
  "rate_card Haiku45 = (f64_of 1, f64_of 5)"
| "rate_card Sonnet5 = (f64_of 3, f64_of 15)"
| "rate_card Opus5 = (f64_of 5, f64_of 25)"
| "rate_card Fable5 = (f64_of 10, f64_of 50)"

definition month_days :: f64 where "month_days = f64_of 30"

definition floor_calls_per_turn :: f64 where "floor_calls_per_turn = f64_of 1"

record sample =
  calls_per_turn :: f64
  input_tokens_per_call :: f64
  output_tokens_per_call :: f64

definition usd_at :: "sample \<Rightarrow> f64 \<times> f64 \<Rightarrow> f64 \<Rightarrow> f64 \<Rightarrow> f64" where
  "usd_at s rates calls turns =
     f64_div
       (f64_mul (f64_mul calls turns)
         (f64_add (f64_mul (input_tokens_per_call s) (fst rates)) (f64_mul (output_tokens_per_call s) (snd rates))))
       (f64_of 1000000)"

definition usd :: "sample \<Rightarrow> model_id \<Rightarrow> f64 \<Rightarrow> f64 \<Rightarrow> f64" where
  "usd s m calls turns = usd_at s (rate_card m) calls turns"

definition recorded :: "sample list" where
  "recorded =
     [\<lparr>calls_per_turn = f64_of 8, input_tokens_per_call = f64_of (77855 / 10), output_tokens_per_call = f64_of (4001 / 10)\<rparr>,
      \<lparr>calls_per_turn = f64_of 8, input_tokens_per_call = f64_of (79822 / 10), output_tokens_per_call = f64_of (5164 / 10)\<rparr>,
      \<lparr>calls_per_turn = f64_of 8, input_tokens_per_call = f64_of (76665 / 10), output_tokens_per_call = f64_of (4427 / 10)\<rparr>]"

definition f64_largest :: f64 where "f64_largest = Fin ((2 ^ 53 - 1) * 2 powi 971)"

definition spread_of :: "sample list \<Rightarrow> (sample \<Rightarrow> f64) \<Rightarrow> f64 \<times> f64" where
  "spread_of samples f =
     fold (\<lambda>s (lo, hi). (f64_min lo (f s), f64_max hi (f s))) samples (f64_largest, f64_neg f64_largest)"

definition spread :: "(sample \<Rightarrow> f64) \<Rightarrow> f64 \<times> f64" where
  "spread f = spread_of recorded f"

section \<open>Lemmas\<close>

lemma spread_fold:
  assumes "lo \<noteq> NaN" and "hi \<noteq> NaN" and "\<And>s. s \<in> set samples \<Longrightarrow> is_finite (f s)"
  shows "(case fold (\<lambda>s (lo, hi). (f64_min lo (f s), f64_max hi (f s))) samples (lo, hi) of (l, h) \<Rightarrow>
    l \<noteq> NaN \<and> h \<noteq> NaN \<and> f64_le l lo \<and> f64_le hi h \<and> (\<forall>s\<in>set samples. f64_le l (f s) \<and> f64_le (f s) h))"
  using assms
proof (induction samples arbitrary: lo hi)
  case Nil
  then show ?case by (cases lo; cases hi) simp_all
next
  case (Cons s samples)
  have a: "f s \<noteq> NaN" using Cons.prems(3) [of s] by (auto simp: is_finite_iff)
  note lo = f64_min_max(1-3) [OF Cons.prems(1) a] and hi = f64_min_max(4-6) [OF Cons.prems(2) a]
  obtain l h where r: "fold (\<lambda>s (lo, hi). (f64_min lo (f s), f64_max hi (f s))) samples
      (f64_min lo (f s), f64_max hi (f s)) = (l, h)" by fastforce
  from Cons.IH [OF lo(1) hi(1)] Cons.prems(3)
  have ih: "l \<noteq> NaN" "h \<noteq> NaN" "f64_le l (f64_min lo (f s))" "f64_le (f64_max hi (f s)) h"
    "\<forall>s\<in>set samples. f64_le l (f s) \<and> f64_le (f s) h"
    by (simp_all add: r)
  with lo(2,3) hi(2,3) show ?case
    by (auto simp: r intro: f64_le_trans)
qed

text \<open>The spread spans what was recorded, whatever finite figure is read off a run.\<close>

lemma spread_spans:
  assumes "\<And>s. s \<in> set samples \<Longrightarrow> is_finite (f s)" and "spread_of samples f = (lo, hi)" and "s \<in> set samples"
  shows "f64_le lo (f s) \<and> f64_le (f s) hi"
  using spread_fold [of f64_largest "f64_neg f64_largest" samples f] assms
  by (auto simp: spread_of_def f64_largest_def)

end
