(* ===== verification/Transaction.thy ===== *)
theory Transaction
  imports Contracts
begin

text \<open>
  A database transaction of \<open>crates/store\<close>: a function of the tenant's rows that may panic, refuse
  or return, and the rows as its statements left them. \<open>StoreError\<close> (\<open>store/src/db.rs\<close>) is the
  error every statement can raise; a \<open>CHECK\<close> that fails is \<open>SE_Database\<close>, a unique key that is
  taken is \<open>SE_Conflict\<close>.

  \<^item> \<open>tbind\<close> is the operator \<open>?\<close> in a function that takes \<open>&mut TenantTx\<close>: the rows written
    before a refusal stay in the transaction, and it is the caller that rolls back.
  \<^item> \<open>transact\<close> is what a caller that commits on success and rolls back on refusal leaves.
  \<^item> \<open>keeps\<close>: a transaction that does not panic and keeps a property of the rows, also when it
    refuses; with one rule for each combinator.
\<close>

named_theorems txn_simps \<open>unfolding of the transaction combinators\<close>
named_theorems keeps_intros \<open>one rule for each transaction combinator\<close>

datatype store_error =
    SE_NotFound
  | SE_Conflict ustr
  | SE_Serialization
  | SE_UnknownTenant ustr
  | SE_Database

type_synonym ('s, 'e, 'a) txn = "'s \<Rightarrow> (('e + 'a) \<times> 's) option"

section \<open>The combinators\<close>

definition tret :: "'a \<Rightarrow> ('s, 'e, 'a) txn" where
  "tret x s = Some (Inr x, s)"

definition tfail :: "'e \<Rightarrow> ('s, 'e, 'a) txn" where
  "tfail e s = Some (Inl e, s)"

definition tpanic :: "('s, 'e, 'a) txn" where
  "tpanic s = None"

definition tbind :: "('s, 'e, 'a) txn \<Rightarrow> ('a \<Rightarrow> ('s, 'e, 'b) txn) \<Rightarrow> ('s, 'e, 'b) txn" where
  "tbind m f s =
     (case m s of
        None \<Rightarrow> None
      | Some (Inl e, s') \<Rightarrow> Some (Inl e, s')
      | Some (Inr x, s') \<Rightarrow> f x s')"

definition tget :: "('s \<Rightarrow> 'a) \<Rightarrow> ('s, 'e, 'a) txn" where
  "tget f s = Some (Inr (f s), s)"

definition tput :: "('s \<Rightarrow> 's) \<Rightarrow> ('s, 'e, unit) txn" where
  "tput f s = Some (Inr (), f s)"

definition tguard :: "bool \<Rightarrow> 'e \<Rightarrow> ('s, 'e, unit) txn" where
  "tguard b e = (if b then tret () else tfail e)"

definition tmap_err :: "('e \<Rightarrow> 'f) \<Rightarrow> ('s, 'e, 'a) txn \<Rightarrow> ('s, 'f, 'a) txn" where
  "tmap_err f m s = map_option (\<lambda>(r, s'). (map_err f r, s')) (m s)"

text \<open>\<open>Result::expect\<close>.\<close>

definition texpect :: "'x + 'a \<Rightarrow> ('s, 'e, 'a) txn" where
  "texpect r = (case r of Inl _ \<Rightarrow> tpanic | Inr x \<Rightarrow> tret x)"

definition transact :: "('s, 'e, 'a) txn \<Rightarrow> 's \<Rightarrow> (('e + 'a) \<times> 's) option" where
  "transact m s =
     (case m s of
        None \<Rightarrow> None
      | Some (Inl e, _) \<Rightarrow> Some (Inl e, s)
      | Some (Inr x, s') \<Rightarrow> Some (Inr x, s'))"

lemma txn_apply [simp, txn_simps]:
  "tret x s = Some (Inr x, s)"
  "tfail e s = Some (Inl e, s)"
  "tpanic s = None"
  "tget f s = Some (Inr (f s), s)"
  "tput g s = Some (Inr (), g s)"
  "tguard b e s = Some (if b then Inr () else Inl e, s)"
  "texpect (Inr x) s = Some (Inr x, s)"
  "texpect (Inl y) s = None"
  by (simp_all add: tret_def tfail_def tpanic_def tget_def tput_def tguard_def texpect_def)

lemma tbind_eq_Inr_iff:
  "tbind m f s = Some (Inr y, s'') \<longleftrightarrow>
     (\<exists>x s'. m s = Some (Inr x, s') \<and> f x s' = Some (Inr y, s''))"
  by (auto simp: tbind_def split: option.splits prod.splits sum.splits)

lemma tbind_eq_Inl_iff:
  "tbind m f s = Some (Inl e, s'') \<longleftrightarrow>
     m s = Some (Inl e, s'') \<or> (\<exists>x s'. m s = Some (Inr x, s') \<and> f x s' = Some (Inl e, s''))"
  by (auto simp: tbind_def split: option.splits prod.splits sum.splits)

lemma tbind_simps [simp, txn_simps]:
  "m s = None \<Longrightarrow> tbind m f s = None"
  "m s = Some (Inl e, s') \<Longrightarrow> tbind m f s = Some (Inl e, s')"
  "m s = Some (Inr x, s') \<Longrightarrow> tbind m f s = f x s'"
  by (simp_all add: tbind_def)

lemma tmap_err_eq_iff [simp]:
  "tmap_err f m s = Some (Inr x, s') \<longleftrightarrow> m s = Some (Inr x, s')"
  "tmap_err f m s = Some (Inl y, s') \<longleftrightarrow> (\<exists>e. m s = Some (Inl e, s') \<and> y = f e)"
  "tmap_err f m s = None \<longleftrightarrow> m s = None"
  by (auto simp: tmap_err_def map_err_def split: sum.splits)
    (metis Inl_Inr_False obj_sumE)+

lemma transact_eq_iff:
  "transact m s = Some (Inr x, s') \<longleftrightarrow> m s = Some (Inr x, s')"
  "transact m s = Some (Inl e, s') \<longleftrightarrow> s' = s \<and> (\<exists>s''. m s = Some (Inl e, s''))"
  "transact m s = None \<longleftrightarrow> m s = None"
  by (auto simp: transact_def split: option.splits prod.splits sum.splits)

section \<open>What a transaction keeps\<close>

definition keeps :: "('s \<Rightarrow> bool) \<Rightarrow> ('s, 'e, 'a) txn \<Rightarrow> bool" where
  "keeps I m \<longleftrightarrow> (\<forall>s. I s \<longrightarrow> (\<exists>r s'. m s = Some (r, s') \<and> I s'))"

lemma keepsI: "(\<And>s. I s \<Longrightarrow> \<exists>r s'. m s = Some (r, s') \<and> I s') \<Longrightarrow> keeps I m"
  by (simp add: keeps_def)

lemma keepsE:
  assumes "keeps I m" and "I s"
  obtains r s' where "m s = Some (r, s')" "I s'"
  using assms by (auto simp: keeps_def)

lemma keeps_result: "keeps I m \<Longrightarrow> I s \<Longrightarrow> m s = Some (r, s') \<Longrightarrow> I s'"
  by (auto simp: keeps_def)

lemma keeps_simple [keeps_intros]:
  "keeps I (tret x)"
  "keeps I (tfail e)"
  "keeps I (tget f)"
  "keeps I (tguard b e)"
  by (simp_all add: keeps_def)

lemma keeps_tput [keeps_intros]: "(\<And>s. I s \<Longrightarrow> I (f s)) \<Longrightarrow> keeps I (tput f)"
  by (simp add: keeps_def)

lemma keeps_tmap_err [keeps_intros]: "keeps I m \<Longrightarrow> keeps I (tmap_err f m)"
  by (fastforce simp: keeps_def tmap_err_def)

lemma keeps_tbind [keeps_intros]:
  assumes "keeps I m" and "\<And>x. keeps I (f x)"
  shows "keeps I (tbind m f)"
proof (rule keepsI)
  fix s assume "I s"
  with assms(1) obtain r s' where m: "m s = Some (r, s')" "I s'" by (rule keepsE)
  show "\<exists>r s'. tbind m f s = Some (r, s') \<and> I s'"
  proof (cases r)
    case (Inr x)
    from assms(2) [of x] m(2) show ?thesis by (rule keepsE) (use m(1) Inr in simp)
  qed (use m in simp)
qed

lemma keeps_transact:
  assumes "keeps I m"
  shows "keeps I (transact m)"
  unfolding keeps_def transact_def
  using assms by (fastforce simp: keeps_def split: option.splits prod.splits sum.splits)

end
