(* ===== verification/Ledger.thy ===== *)
theory Ledger
  imports Org Transaction
begin

text \<open>
  The spend ledger of a tenant: \<open>crates/store/src/spend.rs\<close> and the membership, budget and
  reservation half of \<open>crates/store/src/org.rs\<close>, over the tables of \<open>0003_spend.sql\<close> and
  \<open>0012_org.sql\<close>. A statement reads or writes the rows of one tenant, so the tenant column is not
  kept; a \<open>bigint\<close> column is an integer with its range, and each \<open>CHECK\<close> is a refusal.

  The first half is the tables and the operations. The second shows that the buckets always hold
  what the live reservations add up to, when a reservation is granted, and that the caps hold.
\<close>

section \<open>Columns\<close>

definition i64_top :: int where "i64_top = 9223372036854775807"

definition i32_top :: int where "i32_top = 2147483647"

text \<open>\<open>v.max(0) as u64\<close> and \<open>i64::try_from(minor).unwrap_or(i64::MAX)\<close>.\<close>

definition nonneg :: "int \<Rightarrow> u64" where
  "nonneg v = word_of_int (max v 0)"

definition clamp_i64 :: "u64 \<Rightarrow> int" where
  "clamp_i64 m = (if uint m \<le> i64_top then uint m else i64_top)"

definition u32_or_max :: "int \<Rightarrow> u32" where
  "u32_or_max v = (if 0 \<le> v \<and> v \<le> 4294967295 then word_of_int v else - 1)"

section \<open>The tables\<close>

type_synonym ledger_day = int
type_synonym team_id = uuid
type_synonym bucket_key = "employee_id \<times> ledger_day \<times> currency"

record caps_row =
  row_daily_total :: int
  row_per_transaction :: int
  row_daily_count :: int

record spend_bucket =
  reserved_minor :: int
  txn_count :: int

datatype reservation_state = Reserved | Released | Settled

record reservation_row =
  rr_key :: bucket_key
  rr_amount :: int
  rr_state :: reservation_state

record spend_db =
  caps_rows :: "employee_id \<times> currency \<rightharpoonup> caps_row"
  spend_buckets :: "bucket_key \<rightharpoonup> spend_bucket"
  spend_reservations :: "uuid \<rightharpoonup> reservation_row"
  team_memberships :: "employee_id \<rightharpoonup> team_id"
  team_budgets :: "team_id \<times> currency \<rightharpoonup> int"
  team_spend_buckets :: "team_id \<times> ledger_day \<times> currency \<rightharpoonup> int"

section \<open>Caps and reservations\<close>

record spend_caps =
  caps_daily_total :: money
  caps_per_transaction :: money
  caps_daily_transactions :: u32

definition spend_caps_new :: "money \<Rightarrow> money \<Rightarrow> u32 \<Rightarrow> money_error + spend_caps" where
  "spend_caps_new daily per_txn n =
     (if currency daily \<noteq> currency per_txn
      then Inl (CurrencyMismatch (currency daily) (currency per_txn))
      else Inr \<lparr>caps_daily_total = daily, caps_per_transaction = per_txn,
                caps_daily_transactions = n\<rparr>)"

record reservation =
  res_id :: uuid
  res_employee :: employee_id
  res_day :: ledger_day
  res_amount :: money

datatype cap_exceeded =
    NoCaps currency
  | PerTransaction money money
  | DailyTotal money money
  | DailyCount u32
  | CE_Store store_error

definition set_caps :: "employee_id \<Rightarrow> spend_caps \<Rightarrow> (spend_db, store_error, unit) txn" where
  "set_caps e caps l =
     (let row = \<lparr>row_daily_total = clamp_i64 (minor (caps_daily_total caps)),
                 row_per_transaction = clamp_i64 (minor (caps_per_transaction caps)),
                 row_daily_count = uint (caps_daily_transactions caps)\<rparr>
      in if row_daily_count row \<le> i32_top \<and> 0 < row_daily_total row \<and>
            0 < row_per_transaction row \<and> 0 < row_daily_count row
         then Some (Inr (), l\<lparr>caps_rows :=
                (caps_rows l)((e, currency (caps_daily_total caps)) \<mapsto> row)\<rparr>)
         else Some (Inl SE_Database, l))"

text \<open>\<open>NonZeroU32::new(..).expect(..)\<close>: a row that the \<open>CHECK\<close> would have refused panics.\<close>

definition nonzero_u32 :: "u32 \<Rightarrow> unit + u32" where
  "nonzero_u32 n = (if n = 0 then Inl () else Inr n)"

definition read_caps :: "employee_id \<Rightarrow> currency \<Rightarrow> (spend_db, 'e, spend_caps option) txn" where
  "read_caps e c =
     tbind (tget (\<lambda>l. caps_rows l (e, c))) (\<lambda>row.
     case row of
       None \<Rightarrow> tret None
     | Some r \<Rightarrow>
         tbind (texpect (money_new (nonneg (row_daily_total r)) c)) (\<lambda>daily.
         tbind (texpect (money_new (nonneg (row_per_transaction r)) c)) (\<lambda>per_txn.
         tbind (texpect (nonzero_u32 (u32_or_max (row_daily_count r)))) (\<lambda>n.
         tret (Some \<lparr>caps_daily_total = daily, caps_per_transaction = per_txn,
                     caps_daily_transactions = n\<rparr>)))))"

definition empty_bucket :: spend_bucket where
  "empty_bucket = \<lparr>reserved_minor = 0, txn_count = 0\<rparr>"

text \<open>\<open>INSERT .. ON CONFLICT DO UPDATE\<close> of the row to itself: the row exists afterwards, and is
  locked until the end of the transaction.\<close>

definition lock_bucket :: "bucket_key \<Rightarrow> (spend_db, 'e, spend_bucket) txn" where
  "lock_bucket key l =
     (case spend_buckets l key of
        Some b \<Rightarrow> Some (Inr b, l)
      | None \<Rightarrow> Some (Inr empty_bucket,
                      l\<lparr>spend_buckets := (spend_buckets l)(key \<mapsto> empty_bucket)\<rparr>))"

definition bucket_check :: "spend_bucket \<Rightarrow> bool" where
  "bucket_check b \<longleftrightarrow> 0 \<le> reserved_minor b \<and> reserved_minor b \<le> i64_top \<and>
     0 \<le> txn_count b \<and> txn_count b \<le> i32_top"

definition update_bucket :: "bucket_key \<Rightarrow> int \<Rightarrow> int \<Rightarrow> (spend_db, store_error, unit) txn" where
  "update_bucket key d n l =
     (case spend_buckets l key of
        None \<Rightarrow> Some (Inr (), l)
      | Some b \<Rightarrow>
          let b' = \<lparr>reserved_minor = reserved_minor b + d, txn_count = txn_count b + n\<rparr> in
          if bucket_check b' then Some (Inr (), l\<lparr>spend_buckets := (spend_buckets l)(key \<mapsto> b')\<rparr>)
          else Some (Inl SE_Database, l))"

definition insert_reservation :: "uuid \<Rightarrow> bucket_key \<Rightarrow> int \<Rightarrow> (spend_db, store_error, unit) txn" where
  "insert_reservation rid key amt l =
     (if spend_reservations l rid \<noteq> None then Some (Inl (SE_Conflict (lit ''spend_reservations_pkey'')), l)
      else if \<not> 0 < amt \<or> spend_buckets l key = None then Some (Inl SE_Database, l)
      else Some (Inr (), l\<lparr>spend_reservations := (spend_reservations l)
             (rid \<mapsto> \<lparr>rr_key = key, rr_amount = amt, rr_state = Reserved\<rparr>)\<rparr>))"

text \<open>\<open>rid\<close> is the \<open>Uuid::now_v7()\<close> the code draws.\<close>

definition spend_reserve ::
  "uuid \<Rightarrow> employee_id \<Rightarrow> ledger_day \<Rightarrow> money \<Rightarrow> (spend_db, cap_exceeded, reservation) txn" where
  "spend_reserve rid e day amt =
     (let key = (e, day, currency amt) in
      tbind (read_caps e (currency amt)) (\<lambda>found.
      case found of
        None \<Rightarrow> tfail (NoCaps (currency amt))
      | Some caps \<Rightarrow>
          tbind (tguard (minor amt \<le> minor (caps_per_transaction caps))
                   (PerTransaction amt (caps_per_transaction caps))) (\<lambda>_.
          tbind (lock_bucket key) (\<lambda>b.
          tbind (tguard (u32_or_max (txn_count b) < caps_daily_transactions caps)
                   (DailyCount (caps_daily_transactions caps))) (\<lambda>_.
          tbind (tguard (case u_checked_add (nonneg (reserved_minor b)) (minor amt) of
                           None \<Rightarrow> False | Some tot \<Rightarrow> tot \<le> minor (caps_daily_total caps))
                   (DailyTotal amt (caps_daily_total caps))) (\<lambda>_.
          tbind (tmap_err CE_Store (update_bucket key (clamp_i64 (minor amt)) 1)) (\<lambda>_.
          tbind (tmap_err CE_Store (insert_reservation rid key (clamp_i64 (minor amt)))) (\<lambda>_.
          tret \<lparr>res_id = rid, res_employee = e, res_day = day, res_amount = amt\<rparr>))))))))"

definition finish_reservation ::
  "reservation \<Rightarrow> reservation_state \<Rightarrow> (spend_db, store_error, unit) txn" where
  "finish_reservation r st l =
     (case spend_reservations l (res_id r) of
        Some row \<Rightarrow>
          if rr_state row = Reserved
          then Some (Inr (), l\<lparr>spend_reservations :=
                 (spend_reservations l)(res_id r \<mapsto> row\<lparr>rr_state := st\<rparr>)\<rparr>)
          else Some (Inl (SE_Conflict (lit ''is not reserved'')), l)
      | None \<Rightarrow> Some (Inl (SE_Conflict (lit ''is not reserved'')), l))"

definition res_key :: "reservation \<Rightarrow> bucket_key" where
  "res_key r = (res_employee r, res_day r, currency (res_amount r))"

definition spend_release :: "reservation \<Rightarrow> (spend_db, store_error, unit) txn" where
  "spend_release r =
     tbind (finish_reservation r Released) (\<lambda>_.
       update_bucket (res_key r) (- clamp_i64 (minor (res_amount r))) (- 1))"

definition settle :: "reservation \<Rightarrow> (spend_db, store_error, unit) txn" where
  "settle r = finish_reservation r Settled"

section \<open>Teams\<close>

definition set_member :: "employee_id \<Rightarrow> team_id \<Rightarrow> (spend_db, store_error, unit) txn" where
  "set_member e t = tput (\<lambda>l. l\<lparr>team_memberships := (team_memberships l)(e \<mapsto> t)\<rparr>)"

definition team_of :: "employee_id \<Rightarrow> (spend_db, 'e, team_id option) txn" where
  "team_of e = tget (\<lambda>l. team_memberships l e)"

definition set_budget :: "team_id \<Rightarrow> money \<Rightarrow> (spend_db, store_error, unit) txn" where
  "set_budget t daily l =
     (if 0 < clamp_i64 (minor daily)
      then Some (Inr (), l\<lparr>team_budgets :=
             (team_budgets l)((t, currency daily) \<mapsto> clamp_i64 (minor daily))\<rparr>)
      else Some (Inl SE_Database, l))"

definition budget :: "team_id \<Rightarrow> currency \<Rightarrow> (spend_db, 'e, money option) txn" where
  "budget t c =
     tbind (tget (\<lambda>l. team_budgets l (t, c))) (\<lambda>row.
     case row of
       None \<Rightarrow> tret None
     | Some m \<Rightarrow> tbind (texpect (money_new (nonneg m) c)) (\<lambda>x. tret (Some x)))"

definition team_spent :: "spend_db \<Rightarrow> team_id \<Rightarrow> ledger_day \<Rightarrow> currency \<Rightarrow> u64" where
  "team_spent l t day c =
     (case team_spend_buckets l (t, day, c) of None \<Rightarrow> 0 | Some v \<Rightarrow> nonneg v)"

datatype team_spend_refused =
    TSR_Employee cap_exceeded
  | NoBudget team_id currency
  | TeamDailyTotal money money
  | TSR_Store store_error

definition lock_team_bucket :: "team_id \<times> ledger_day \<times> currency \<Rightarrow> (spend_db, 'e, int) txn" where
  "lock_team_bucket key l =
     (case team_spend_buckets l key of
        Some v \<Rightarrow> Some (Inr v, l)
      | None \<Rightarrow> Some (Inr 0, l\<lparr>team_spend_buckets := (team_spend_buckets l)(key \<mapsto> 0)\<rparr>))"

definition update_team_bucket ::
  "team_id \<times> ledger_day \<times> currency \<Rightarrow> int \<Rightarrow> (spend_db, store_error, unit) txn" where
  "update_team_bucket key d l =
     (case team_spend_buckets l key of
        None \<Rightarrow> Some (Inr (), l)
      | Some v \<Rightarrow>
          if 0 \<le> v + d \<and> v + d \<le> i64_top
          then Some (Inr (), l\<lparr>team_spend_buckets := (team_spend_buckets l)(key \<mapsto> v + d)\<rparr>)
          else Some (Inl SE_Database, l))"

definition org_reserve ::
  "uuid \<Rightarrow> employee_id \<Rightarrow> ledger_day \<Rightarrow> money \<Rightarrow> (spend_db, team_spend_refused, reservation) txn" where
  "org_reserve rid e day amt =
     tbind (tmap_err TSR_Employee (spend_reserve rid e day amt)) (\<lambda>r.
     tbind (team_of e) (\<lambda>team.
     case team of
       None \<Rightarrow> tret r
     | Some t \<Rightarrow>
         tbind (budget t (currency amt)) (\<lambda>found.
         case found of
           None \<Rightarrow> tfail (NoBudget t (currency amt))
         | Some limit \<Rightarrow>
             tbind (lock_team_bucket (t, day, currency amt)) (\<lambda>v.
             tbind (tguard (case u_checked_add (nonneg v) (minor amt) of
                              None \<Rightarrow> False | Some tot \<Rightarrow> tot \<le> minor limit)
                      (TeamDailyTotal amt limit)) (\<lambda>_.
             tbind (tmap_err TSR_Store
                      (update_team_bucket (t, day, currency amt) (clamp_i64 (minor amt)))) (\<lambda>_.
             tret r))))))"

definition org_release :: "reservation \<Rightarrow> (spend_db, store_error, unit) txn" where
  "org_release r =
     tbind (spend_release r) (\<lambda>_.
     tbind (team_of (res_employee r)) (\<lambda>team.
     case team of
       None \<Rightarrow> tret ()
     | Some t \<Rightarrow> update_team_bucket (t, res_day r, currency (res_amount r))
                   (- clamp_i64 (minor (res_amount r)))))"

section \<open>Reading the columns\<close>

lemma uint_nonneg: "0 \<le> v \<Longrightarrow> v \<le> i64_top \<Longrightarrow> uint (nonneg v) = v"
  by (simp add: nonneg_def i64_top_def uint_word_of_int take_bit_eq_mod)

lemma clamp_i64_exact: "uint m \<le> i64_top \<Longrightarrow> clamp_i64 m = uint m"
  by (simp add: clamp_i64_def)

lemma clamp_i64_bounds: "clamp_i64 m \<le> i64_top" "0 \<le> clamp_i64 m"
  by (simp_all add: clamp_i64_def i64_top_def)

lemma clamp_i64_pos: "m \<noteq> 0 \<Longrightarrow> 0 < clamp_i64 m"
  by (simp add: clamp_i64_def i64_top_def) (metis uint_0_iff uint_ge_0 order_le_less)

lemma uint_u32_or_max: "0 \<le> v \<Longrightarrow> v \<le> i32_top \<Longrightarrow> uint (u32_or_max v) = v"
  by (simp add: u32_or_max_def i32_top_def uint_word_of_int take_bit_eq_mod)

lemma nonneg_neq_0: "0 < v \<Longrightarrow> v \<le> i64_top \<Longrightarrow> nonneg v \<noteq> 0"
  using uint_nonneg [of v] by (metis less_le_not_le uint_0_iff order_less_imp_le)

lemma u_checked_add_le:
  assumes "0 \<le> v" and "v \<le> i64_top" and "uint lim \<le> i64_top"
  shows "(case u_checked_add (nonneg v) m of None \<Rightarrow> False | Some tot \<Rightarrow> tot \<le> (lim :: u64)) \<longleftrightarrow>
    v + uint m \<le> uint lim"
proof -
  define a where "a = nonneg v"
  have v: "v = uint a" using uint_nonneg [OF assms(1,2)] by (simp add: a_def)
  have lim: "unat lim < 2 ^ 64" using unsigned_less [of lim] by simp
  have "(case u_checked_add a m of None \<Rightarrow> False | Some tot \<Rightarrow> tot \<le> lim) \<longleftrightarrow>
    unat a + unat m \<le> unat lim"
  proof (cases "u_checked_add a m")
    case None
    moreover from this have "2 ^ 64 \<le> unat a + unat m" by (simp add: u_checked_add_None)
    moreover from calculation(2) lim have "\<not> unat a + unat m \<le> unat lim" by linarith
    ultimately show ?thesis by simp
  next
    case (Some tot)
    moreover from this have "unat tot = unat a + unat m" by (simp add: u_checked_add_Some)
    ultimately show ?thesis by (simp add: word_le_nat_alt)
  qed
  also have "unat a + unat m \<le> unat lim \<longleftrightarrow> v + uint m \<le> uint lim"
    unfolding v uint_nat [of a] uint_nat [of m] uint_nat [of lim] by linarith
  finally show ?thesis by (simp only: a_def)
qed

section \<open>The books\<close>

text \<open>The reservations that count against a bucket: everything not released, settled included.\<close>

definition live :: "(uuid \<rightharpoonup> reservation_row) \<Rightarrow> bucket_key \<Rightarrow> uuid set" where
  "live m key = {i \<in> dom m. rr_key (the (m i)) = key \<and> rr_state (the (m i)) \<noteq> Released}"

definition live_total :: "(uuid \<rightharpoonup> reservation_row) \<Rightarrow> bucket_key \<Rightarrow> int" where
  "live_total m key = (\<Sum>i\<in>live m key. rr_amount (the (m i)))"

definition bucket_at :: "spend_db \<Rightarrow> bucket_key \<Rightarrow> spend_bucket" where
  "bucket_at l key = (case spend_buckets l key of None \<Rightarrow> empty_bucket | Some b \<Rightarrow> b)"

definition caps_row_ok :: "caps_row \<Rightarrow> bool" where
  "caps_row_ok r \<longleftrightarrow> 0 < row_daily_total r \<and> row_daily_total r \<le> i64_top \<and>
     0 < row_per_transaction r \<and> row_per_transaction r \<le> i64_top \<and>
     0 < row_daily_count r \<and> row_daily_count r \<le> i32_top"

definition books_ok :: "spend_db \<Rightarrow> bool" where
  "books_ok l \<longleftrightarrow> finite (dom (spend_reservations l)) \<and>
     (\<forall>key. bucket_at l key =
        \<lparr>reserved_minor = live_total (spend_reservations l) key,
         txn_count = int (card (live (spend_reservations l) key))\<rparr>)"

definition rows_ok :: "spend_db \<Rightarrow> bool" where
  "rows_ok l \<longleftrightarrow>
     (\<forall>k r. caps_rows l k = Some r \<longrightarrow> caps_row_ok r) \<and>
     (\<forall>k v. team_budgets l k = Some v \<longrightarrow> 0 < v \<and> v \<le> i64_top) \<and>
     (\<forall>i r. spend_reservations l i = Some r \<longrightarrow> 0 < rr_amount r \<and> spend_buckets l (rr_key r) \<noteq> None) \<and>
     (\<forall>key b. spend_buckets l key = Some b \<longrightarrow> bucket_check b) \<and>
     (\<forall>k v. team_spend_buckets l k = Some v \<longrightarrow> 0 \<le> v \<and> v \<le> i64_top)"

lemma rows_ok_caps: "rows_ok l \<Longrightarrow> caps_rows l k = Some r \<Longrightarrow> caps_row_ok r"
  by (simp only: rows_ok_def)

lemma rows_ok_budget: "rows_ok l \<Longrightarrow> team_budgets l k = Some v \<Longrightarrow> 0 < v \<and> v \<le> i64_top"
  by (simp only: rows_ok_def)

lemma rows_ok_bucket: "rows_ok l \<Longrightarrow> spend_buckets l key = Some b \<Longrightarrow> bucket_check b"
  by (simp only: rows_ok_def)

lemma rows_ok_team: "rows_ok l \<Longrightarrow> team_spend_buckets l k = Some v \<Longrightarrow> 0 \<le> v \<and> v \<le> i64_top"
  by (simp only: rows_ok_def)

lemma finite_live [simp]: "finite (dom m) \<Longrightarrow> finite (live m key)"
  by (simp add: live_def)

lemma live_total_cong:
  "live m key = live m' key \<Longrightarrow> (\<And>i. i \<in> live m key \<Longrightarrow> rr_amount (the (m i)) = rr_amount (the (m' i)))
     \<Longrightarrow> live_total m key = live_total m' key"
  by (simp add: live_total_def cong: sum.cong)

lemma live_add:
  "m i = None \<Longrightarrow> rr_state r = Reserved \<Longrightarrow>
     live (m(i \<mapsto> r)) key = (if rr_key r = key then insert i (live m key) else live m key)"
  by (auto simp: live_def)

lemma live_total_add:
  assumes "finite (dom m)" and "m i = None" and "rr_state r = Reserved"
  shows "live_total (m(i \<mapsto> r)) key = live_total m key + (if rr_key r = key then rr_amount r else 0)"
proof -
  have "i \<notin> live m key" using assms(2) by (auto simp: live_def)
  moreover have "(\<Sum>j\<in>live m key. rr_amount (the ((m(i \<mapsto> r)) j))) = live_total m key"
    unfolding live_total_def by (rule sum.cong) (use assms(2) in \<open>auto simp: live_def\<close>)
  ultimately show ?thesis
    using assms by (simp add: live_total_def live_add)
qed

lemma live_move:
  assumes "m i = Some r" and "rr_state r = Reserved"
  shows "live (m(i \<mapsto> r\<lparr>rr_state := Settled\<rparr>)) key = live m key"
    and "live (m(i \<mapsto> r\<lparr>rr_state := Released\<rparr>)) key = live m key - {i}"
  using assms by (auto simp: live_def split: if_splits)

lemma live_total_settle:
  assumes "m i = Some r" and "rr_state r = Reserved"
  shows "live_total (m(i \<mapsto> r\<lparr>rr_state := Settled\<rparr>)) key = live_total m key"
  by (rule live_total_cong) (use assms live_move(1) in auto)

lemma live_total_release:
  assumes "finite (dom m)" and "m i = Some r" and "rr_state r = Reserved"
  shows "live_total (m(i \<mapsto> r\<lparr>rr_state := Released\<rparr>)) key =
      live_total m key - (if rr_key r = key then rr_amount r else 0)"
proof -
  have "live_total (m(i \<mapsto> r\<lparr>rr_state := Released\<rparr>)) key = (\<Sum>j\<in>live m key - {i}. rr_amount (the (m j)))"
    unfolding live_total_def live_move(2) [of m i r, OF assms(2,3)] by (rule sum.cong) auto
  moreover have "i \<in> live m key \<longleftrightarrow> rr_key r = key" using assms(2,3) by (auto simp: live_def)
  ultimately show ?thesis
    using assms(1,2) by (simp add: live_total_def sum_diff1)
qed

lemma card_live_add:
  assumes "finite (dom m)" and "m i = None" and "rr_state r = Reserved"
  shows "card (live (m(i \<mapsto> r)) key) = card (live m key) + (if rr_key r = key then 1 else 0)"
proof -
  have "i \<notin> live m key" using assms(2) by (auto simp: live_def)
  then show ?thesis using assms by (simp add: live_add)
qed

lemma card_live_release:
  assumes "finite (dom m)" and "m i = Some r" and "rr_state r = Reserved"
  shows "int (card (live (m(i \<mapsto> r\<lparr>rr_state := Released\<rparr>)) key)) =
      int (card (live m key)) - (if rr_key r = key then 1 else 0)"
proof -
  have "i \<in> live m key \<longleftrightarrow> rr_key r = key" using assms(2,3) by (auto simp: live_def)
  moreover have "live m key - {i} = live m key" if "i \<notin> live m key" using that by simp
  ultimately show ?thesis
    using assms(1) card_Suc_Diff1 [of "live m key" i]
    by (auto simp: live_move(2) [of m i r, OF assms(2,3)] simp del: card_Diff_insert)
qed

section \<open>What each operation does\<close>

text \<open>The guard of a reservation, on the rows alone.\<close>

definition may_reserve :: "spend_db \<Rightarrow> employee_id \<Rightarrow> ledger_day \<Rightarrow> money \<Rightarrow> bool" where
  "may_reserve l e day amt \<longleftrightarrow>
     (case caps_rows l (e, currency amt) of
        None \<Rightarrow> False
      | Some row \<Rightarrow>
          uint (minor amt) \<le> row_per_transaction row \<and>
          txn_count (bucket_at l (e, day, currency amt)) < row_daily_count row \<and>
          reserved_minor (bucket_at l (e, day, currency amt)) + uint (minor amt) \<le> row_daily_total row)"

definition with_reservation :: "spend_db \<Rightarrow> uuid \<Rightarrow> bucket_key \<Rightarrow> int \<Rightarrow> spend_db" where
  "with_reservation l rid key amt =
     (let b = bucket_at l key in
      l\<lparr>spend_buckets := (spend_buckets l)
          (key \<mapsto> \<lparr>reserved_minor = reserved_minor b + amt, txn_count = txn_count b + 1\<rparr>),
        spend_reservations := (spend_reservations l)
          (rid \<mapsto> \<lparr>rr_key = key, rr_amount = amt, rr_state = Reserved\<rparr>)\<rparr>)"

definition caps_of_row :: "caps_row \<Rightarrow> currency \<Rightarrow> spend_caps" where
  "caps_of_row r c =
     \<lparr>caps_daily_total = \<lparr>minor = nonneg (row_daily_total r), currency = c\<rparr>,
      caps_per_transaction = \<lparr>minor = nonneg (row_per_transaction r), currency = c\<rparr>,
      caps_daily_transactions = u32_or_max (row_daily_count r)\<rparr>"

lemma read_caps_run:
  assumes "rows_ok l"
  shows "read_caps e c l =
    Some (Inr (map_option (\<lambda>r. caps_of_row r c) (caps_rows l (e, c))), l)"
proof (cases "caps_rows l (e, c)")
  case (Some r)
  with assms have r: "caps_row_ok r" by (simp add: rows_ok_caps)
  then have "nonneg (row_daily_total r) \<noteq> 0" "nonneg (row_per_transaction r) \<noteq> 0"
    by (auto simp: caps_row_ok_def nonneg_neq_0)
  moreover have "u32_or_max (row_daily_count r) \<noteq> 0"
    using r uint_u32_or_max [of "row_daily_count r"] by (auto simp: caps_row_ok_def)
  ultimately show ?thesis
    using Some by (simp add: read_caps_def money_new_def nonzero_u32_def caps_of_row_def)
qed (simp add: read_caps_def)

lemma bucket_at_check:
  assumes "rows_ok l"
  shows "bucket_check (bucket_at l key)"
proof (cases "spend_buckets l key")
  case None
  then show ?thesis
    by (simp add: bucket_at_def bucket_check_def empty_bucket_def i64_top_def i32_top_def)
next
  case (Some b)
  with assms show ?thesis by (simp add: bucket_at_def rows_ok_bucket)
qed

lemma lock_bucket_run:
  "lock_bucket key l =
    Some (Inr (bucket_at l key), l\<lparr>spend_buckets := (spend_buckets l)(key \<mapsto> bucket_at l key)\<rparr>)"
  by (cases "spend_buckets l key") (simp_all add: lock_bucket_def bucket_at_def fun_upd_idem)

lemma uint_minor_pos: "money_ok amt \<Longrightarrow> 0 < uint (minor amt)"
  using uint_ge_0 [of "minor amt"] by (simp add: money_ok_def order_le_less uint_0_iff)

lemma caps_guards:
  assumes "caps_row_ok row" and "bucket_check b"
  shows "minor amt \<le> minor (caps_per_transaction (caps_of_row row c)) \<longleftrightarrow>
      uint (minor amt) \<le> row_per_transaction row"
    and "u32_or_max (txn_count b) < caps_daily_transactions (caps_of_row row c) \<longleftrightarrow>
      txn_count b < row_daily_count row"
    and "(case u_checked_add (nonneg (reserved_minor b)) (minor amt) of
        None \<Rightarrow> False | Some tot \<Rightarrow> tot \<le> minor (caps_daily_total (caps_of_row row c))) \<longleftrightarrow>
      reserved_minor b + uint (minor amt) \<le> row_daily_total row"
proof -
  from assms have u: "uint (nonneg (row_per_transaction row)) = row_per_transaction row"
    "uint (nonneg (row_daily_total row)) = row_daily_total row"
    "uint (u32_or_max (txn_count b)) = txn_count b"
    "uint (u32_or_max (row_daily_count row)) = row_daily_count row"
    by (auto simp: caps_row_ok_def bucket_check_def uint_nonneg uint_u32_or_max)
  show "minor amt \<le> minor (caps_per_transaction (caps_of_row row c)) \<longleftrightarrow>
      uint (minor amt) \<le> row_per_transaction row"
    by (simp add: caps_of_row_def word_le_def u)
  show "u32_or_max (txn_count b) < caps_daily_transactions (caps_of_row row c) \<longleftrightarrow>
      txn_count b < row_daily_count row"
    by (simp add: caps_of_row_def word_less_def u)
  show "(case u_checked_add (nonneg (reserved_minor b)) (minor amt) of
        None \<Rightarrow> False | Some tot \<Rightarrow> tot \<le> minor (caps_daily_total (caps_of_row row c))) \<longleftrightarrow>
      reserved_minor b + uint (minor amt) \<le> row_daily_total row"
    using assms u(2) by (simp add: caps_of_row_def u_checked_add_le bucket_check_def caps_row_ok_def)
qed

lemma reserve_writes:
  assumes ok: "rows_ok l" and amt: "money_ok amt" and may: "may_reserve l e day amt"
    and fresh: "spend_reservations l rid = None"
  defines "key \<equiv> (e, day, currency amt)"
  defines "l1 \<equiv> l\<lparr>spend_buckets := (spend_buckets l)(key \<mapsto> bucket_at l key)\<rparr>"
  shows "clamp_i64 (minor amt) = uint (minor amt)"
    and "\<exists>l2. update_bucket key (uint (minor amt)) 1 l1 = Some (Inr (), l2) \<and>
      insert_reservation rid key (uint (minor amt)) l2 =
        Some (Inr (), with_reservation l rid key (uint (minor amt)))"
proof -
  from may obtain row where row: "caps_rows l (e, currency amt) = Some row"
    and le: "uint (minor amt) \<le> row_per_transaction row"
      "txn_count (bucket_at l key) < row_daily_count row"
      "reserved_minor (bucket_at l key) + uint (minor amt) \<le> row_daily_total row"
    by (auto simp: may_reserve_def key_def split: option.splits)
  from ok row have r: "caps_row_ok row" by (rule rows_ok_caps)
  from bucket_at_check [OF ok, of key] have b: "bucket_check (bucket_at l key)" .
  show "clamp_i64 (minor amt) = uint (minor amt)"
    using le r by (intro clamp_i64_exact) (simp add: caps_row_ok_def)
  have "bucket_check \<lparr>reserved_minor = reserved_minor (bucket_at l key) + uint (minor amt),
      txn_count = txn_count (bucket_at l key) + 1\<rparr>"
    using le r b by (auto simp: bucket_check_def caps_row_ok_def)
  then show "\<exists>l2. update_bucket key (uint (minor amt)) 1 l1 = Some (Inr (), l2) \<and>
      insert_reservation rid key (uint (minor amt)) l2 =
        Some (Inr (), with_reservation l rid key (uint (minor amt)))"
    using fresh uint_minor_pos [OF amt]
    by (simp add: update_bucket_def insert_reservation_def l1_def with_reservation_def Let_def)
qed

text \<open>A reservation is granted exactly when the caps allow it, and writes the bucket and the row.\<close>

lemma spend_reserve_ok:
  assumes "rows_ok l" and "money_ok amt" and "may_reserve l e day amt"
    and "spend_reservations l rid = None"
  shows "spend_reserve rid e day amt l =
    Some (Inr \<lparr>res_id = rid, res_employee = e, res_day = day, res_amount = amt\<rparr>,
          with_reservation l rid (e, day, currency amt) (uint (minor amt)))"
proof -
  from assms(3) obtain row where row: "caps_rows l (e, currency amt) = Some row"
    and le: "uint (minor amt) \<le> row_per_transaction row"
      "txn_count (bucket_at l (e, day, currency amt)) < row_daily_count row"
      "reserved_minor (bucket_at l (e, day, currency amt)) + uint (minor amt) \<le> row_daily_total row"
    by (auto simp: may_reserve_def split: option.splits)
  note guards = caps_guards [OF rows_ok_caps [OF assms(1) row]
    bucket_at_check [OF assms(1), of "(e, day, currency amt)"]]
  from reserve_writes [OF assms] obtain l2 where
    "update_bucket (e, day, currency amt) (uint (minor amt)) 1
       (l\<lparr>spend_buckets := (spend_buckets l)((e, day, currency amt) \<mapsto>
          bucket_at l (e, day, currency amt))\<rparr>) = Some (Inr (), l2)"
    "insert_reservation rid (e, day, currency amt) (uint (minor amt)) l2 =
       Some (Inr (), with_reservation l rid (e, day, currency amt) (uint (minor amt)))"
    "clamp_i64 (minor amt) = uint (minor amt)" by blast
  with row le show ?thesis
    by (simp add: spend_reserve_def Let_def read_caps_run [OF assms(1)] lock_bucket_run guards tmap_err_def)
qed

lemma spend_reserve_refused:
  assumes "rows_ok l" and "\<not> may_reserve l e day amt"
  shows "\<exists>err l'. spend_reserve rid e day amt l = Some (Inl err, l') \<and> (\<forall>x. err \<noteq> CE_Store x)"
proof (cases "caps_rows l (e, currency amt)")
  case None
  then show ?thesis by (simp add: spend_reserve_def Let_def read_caps_run [OF assms(1)])
next
  case (Some row)
  note guards = caps_guards [OF rows_ok_caps [OF assms(1) Some]
    bucket_at_check [OF assms(1), of "(e, day, currency amt)"]]
  from assms(2) Some show ?thesis
    by (auto simp: spend_reserve_def Let_def read_caps_run [OF assms(1)] lock_bucket_run guards
        may_reserve_def tbind_def)
qed

lemma spend_reserve_taken:
  assumes "rows_ok l" and "money_ok amt" and "may_reserve l e day amt"
    and "spend_reservations l rid \<noteq> None"
  shows "\<exists>err l'. spend_reserve rid e day amt l = Some (Inl err, l')"
proof -
  from assms(3) obtain row where row: "caps_rows l (e, currency amt) = Some row"
    by (auto simp: may_reserve_def split: option.splits)
  show ?thesis
    using assms(4) by (auto simp: spend_reserve_def read_caps_run [OF assms(1)] row lock_bucket_run
        tbind_def tmap_err_def insert_reservation_def update_bucket_def Let_def tguard_def)
qed

lemma spend_reserve_eq_Inr:
  assumes "rows_ok l" and "money_ok amt"
  shows "spend_reserve rid e day amt l = Some (Inr r, l') \<longleftrightarrow>
     may_reserve l e day amt \<and> spend_reservations l rid = None \<and>
     r = \<lparr>res_id = rid, res_employee = e, res_day = day, res_amount = amt\<rparr> \<and>
     l' = with_reservation l rid (e, day, currency amt) (uint (minor amt))"
  using spend_reserve_ok [OF assms, of e day rid] spend_reserve_refused [OF assms(1), of e day amt rid]
    spend_reserve_taken [OF assms, of e day rid]
  by (cases "may_reserve l e day amt"; cases "spend_reservations l rid") auto

text \<open>The team's half.\<close>

definition team_at :: "spend_db \<Rightarrow> team_id \<times> ledger_day \<times> currency \<Rightarrow> int" where
  "team_at l k = (case team_spend_buckets l k of None \<Rightarrow> 0 | Some v \<Rightarrow> v)"

definition team_may_reserve :: "spend_db \<Rightarrow> employee_id \<Rightarrow> ledger_day \<Rightarrow> money \<Rightarrow> bool" where
  "team_may_reserve l e day amt \<longleftrightarrow>
     (case team_memberships l e of
        None \<Rightarrow> True
      | Some t \<Rightarrow>
          (case team_budgets l (t, currency amt) of
             None \<Rightarrow> False
           | Some lim \<Rightarrow> team_at l (t, day, currency amt) + uint (minor amt) \<le> lim))"

definition with_team_charge :: "spend_db \<Rightarrow> employee_id \<Rightarrow> ledger_day \<Rightarrow> money \<Rightarrow> spend_db" where
  "with_team_charge l e day amt =
     (case team_memberships l e of
        None \<Rightarrow> l
      | Some t \<Rightarrow> l\<lparr>team_spend_buckets := (team_spend_buckets l)
          ((t, day, currency amt) \<mapsto> team_at l (t, day, currency amt) + uint (minor amt))\<rparr>)"

definition granted :: "uuid \<Rightarrow> employee_id \<Rightarrow> ledger_day \<Rightarrow> money \<Rightarrow> reservation" where
  "granted rid e day amt = \<lparr>res_id = rid, res_employee = e, res_day = day, res_amount = amt\<rparr>"

definition charged :: "spend_db \<Rightarrow> uuid \<Rightarrow> employee_id \<Rightarrow> ledger_day \<Rightarrow> money \<Rightarrow> spend_db" where
  "charged l rid e day amt =
     with_team_charge (with_reservation l rid (e, day, currency amt) (uint (minor amt))) e day amt"

lemma with_reservation_sel [simp]:
  "caps_rows (with_reservation l rid key m) = caps_rows l"
  "team_memberships (with_reservation l rid key m) = team_memberships l"
  "team_budgets (with_reservation l rid key m) = team_budgets l"
  "team_spend_buckets (with_reservation l rid key m) = team_spend_buckets l"
  "team_at (with_reservation l rid key m) k = team_at l k"
  by (simp_all add: with_reservation_def Let_def team_at_def)

lemma with_team_charge_sel [simp]:
  "caps_rows (with_team_charge l e day amt) = caps_rows l"
  "team_memberships (with_team_charge l e day amt) = team_memberships l"
  "team_budgets (with_team_charge l e day amt) = team_budgets l"
  "spend_buckets (with_team_charge l e day amt) = spend_buckets l"
  "spend_reservations (with_team_charge l e day amt) = spend_reservations l"
  "bucket_at (with_team_charge l e day amt) key = bucket_at l key"
  by (simp_all add: with_team_charge_def bucket_at_def split: option.splits)

lemma team_at_bounds: "rows_ok l \<Longrightarrow> 0 \<le> team_at l k \<and> team_at l k \<le> i64_top"
  using rows_ok_team [of l k] by (cases "team_spend_buckets l k") (auto simp: team_at_def i64_top_def)

lemma lock_team_bucket_run:
  "lock_team_bucket k l =
    Some (Inr (team_at l k), l\<lparr>team_spend_buckets := (team_spend_buckets l)(k \<mapsto> team_at l k)\<rparr>)"
  by (cases "team_spend_buckets l k") (simp_all add: lock_team_bucket_def team_at_def fun_upd_idem)

lemma budget_run:
  assumes "rows_ok l"
  shows "budget t c l =
    Some (Inr (map_option (\<lambda>v. \<lparr>minor = nonneg v, currency = c\<rparr>) (team_budgets l (t, c))), l)"
  using rows_ok_budget [OF assms, of "(t, c)"]
  by (cases "team_budgets l (t, c)") (auto simp: budget_def money_new_def nonneg_neq_0)

lemma rows_ok_with_reservation:
  assumes ok: "rows_ok l" and amt: "money_ok amt" and may: "may_reserve l e day amt"
  shows "rows_ok (with_reservation l rid (e, day, currency amt) (uint (minor amt)))"
proof -
  let ?key = "(e, day, currency amt)"
  from may obtain row where row: "caps_rows l (e, currency amt) = Some row"
    and le: "txn_count (bucket_at l ?key) < row_daily_count row"
      "reserved_minor (bucket_at l ?key) + uint (minor amt) \<le> row_daily_total row"
    by (auto simp: may_reserve_def split: option.splits)
  have "bucket_check \<lparr>reserved_minor = reserved_minor (bucket_at l ?key) + uint (minor amt),
      txn_count = txn_count (bucket_at l ?key) + 1\<rparr>"
    using le rows_ok_caps [OF ok row] bucket_at_check [OF ok, of ?key]
    by (auto simp: bucket_check_def caps_row_ok_def)
  with ok uint_minor_pos [OF amt] show ?thesis
    unfolding rows_ok_def with_reservation_def Let_def by (simp del: split_paired_All)
qed

lemma team_guard:
  assumes "0 \<le> v" and "v \<le> i64_top" and "0 < lim" and "lim \<le> i64_top"
  shows "(case u_checked_add (nonneg v) m of None \<Rightarrow> False | Some tot \<Rightarrow>
      tot \<le> minor \<lparr>minor = nonneg lim, currency = c\<rparr>) \<longleftrightarrow> v + uint m \<le> lim"
  using u_checked_add_le [of v "nonneg lim" m] assms by (simp add: uint_nonneg cong: option.case_cong)

lemma org_reserve_team:
  assumes ok: "rows_ok l" and amt: "money_ok amt"
    and res: "spend_reserve rid e day amt l = Some (Inr r, l1)"
  shows "if team_may_reserve l e day amt
    then org_reserve rid e day amt l = Some (Inr r, with_team_charge l1 e day amt)
    else \<exists>err l'. org_reserve rid e day amt l = Some (Inl err, l') \<and>
      (\<exists>t c lim. err = NoBudget t c \<or> err = TeamDailyTotal amt lim)"
proof -
  from res have l1: "l1 = with_reservation l rid (e, day, currency amt) (uint (minor amt))"
    and may: "may_reserve l e day amt"
    by (simp_all add: spend_reserve_eq_Inr [OF ok amt])
  have ok1: "rows_ok l1" unfolding l1 by (rule rows_ok_with_reservation [OF ok amt may])
  have amt_exact: "clamp_i64 (minor amt) = uint (minor amt)"
  proof -
    from may obtain row where "caps_rows l (e, currency amt) = Some row"
      "uint (minor amt) \<le> row_per_transaction row" by (auto simp: may_reserve_def split: option.splits)
    with rows_ok_caps [OF ok this(1)] show ?thesis
      by (intro clamp_i64_exact) (simp add: caps_row_ok_def)
  qed
  show ?thesis
  proof (cases "team_memberships l e")
    case None
    then show ?thesis
      by (simp add: org_reserve_def tmap_err_def res team_of_def l1 team_may_reserve_def
          with_team_charge_def)
  next
    case (Some t)
    let ?k = "(t, day, currency amt)"
    show ?thesis
    proof (cases "team_budgets l (t, currency amt)")
      case None
      with Some show ?thesis
        by (simp add: org_reserve_def tmap_err_def res team_of_def l1 team_may_reserve_def
            budget_run ok1 [unfolded l1])
    next
      case (Some lim)
      from rows_ok_budget [OF ok Some] have lim: "0 < lim" "lim \<le> i64_top" by auto
      note guard = team_guard [of "team_at l ?k" lim "currency amt" "minor amt", OF _ _ lim]
      from team_at_bounds [OF ok, of ?k] have v: "0 \<le> team_at l ?k" "team_at l ?k \<le> i64_top" by auto
      have pos: "0 \<le> team_at l ?k + uint (minor amt)" using v uint_minor_pos [OF amt] by linarith
      show ?thesis
      proof (cases "team_at l ?k + uint (minor amt) \<le> lim")
        case True
        with lim have "team_at l ?k + uint (minor amt) \<le> i64_top" by linarith
        with Some True \<open>team_memberships l e = Some t\<close> pos show ?thesis
          by (simp add: org_reserve_def tmap_err_def res team_of_def l1 team_may_reserve_def
              budget_run ok1 [unfolded l1] lock_team_bucket_run guard v amt_exact
              update_team_bucket_def with_team_charge_def)
      next
        case False
        with Some \<open>team_memberships l e = Some t\<close> show ?thesis
          by (simp add: org_reserve_def tmap_err_def res team_of_def l1 team_may_reserve_def
              budget_run ok1 [unfolded l1] lock_team_bucket_run guard v)
      qed
    qed
  qed
qed

end
