(* ===== verification/LedgerRuns.thy ===== *)
theory LedgerRuns
  imports Ledger
begin

text \<open>
  What the spend ledger keeps over any sequence of its operations: the buckets hold what the live
  reservations add up to, a charge never passes the caps it was granted under, a release gives back
  what was taken and happens once.
\<close>

section \<open>Reservations, granted\<close>

lemma org_reserve_eq_Inr:
  assumes "rows_ok l" and "money_ok amt"
  shows "org_reserve rid e day amt l = Some (Inr r, l') \<longleftrightarrow>
    may_reserve l e day amt \<and> team_may_reserve l e day amt \<and> spend_reservations l rid = None \<and>
    r = granted rid e day amt \<and> l' = charged l rid e day amt"
proof (cases "may_reserve l e day amt \<and> spend_reservations l rid = None")
  case True
  then have "spend_reserve rid e day amt l = Some (Inr (granted rid e day amt),
      with_reservation l rid (e, day, currency amt) (uint (minor amt)))"
    by (simp add: spend_reserve_eq_Inr [OF assms] granted_def)
  from org_reserve_team [OF assms this] True show ?thesis
    by (auto simp: charged_def split: if_splits)
next
  case False
  then have "spend_reserve rid e day amt l \<noteq> Some (Inr x, s)" for x s
    by (auto simp: spend_reserve_eq_Inr [OF assms])
  with False show ?thesis by (auto simp: org_reserve_def tbind_eq_Inr_iff)
qed

lemma spend_reserve_runs:
  assumes "rows_ok l" and "money_ok amt"
  shows "\<exists>r l'. spend_reserve rid e day amt l = Some (r, l')"
  using spend_reserve_ok [OF assms, of e day rid] spend_reserve_refused [OF assms(1), of e day amt rid]
    spend_reserve_taken [OF assms, of e day rid] by (metis not_None_eq)

lemma org_reserve_runs:
  assumes "rows_ok l" and "money_ok amt"
  obtains r l' where "org_reserve rid e day amt l = Some (r, l')"
proof -
  from spend_reserve_runs [OF assms] obtain r l' where s: "spend_reserve rid e day amt l = Some (r, l')"
    by blast
  show thesis
  proof (cases r)
    case (Inl err)
    with s have "org_reserve rid e day amt l = Some (Inl (TSR_Employee err), l')"
      by (simp add: org_reserve_def tmap_err_def)
    then show thesis by (rule that)
  next
    case (Inr x)
    from org_reserve_team [OF assms s [unfolded Inr]] that show thesis
      by (auto split: if_splits)
  qed
qed

section \<open>Reservations, given back\<close>

text \<open>A reservation that an earlier call handed out: the row under its id is its row.\<close>

definition issued :: "spend_db \<Rightarrow> reservation \<Rightarrow> bool" where
  "issued l r \<longleftrightarrow> (\<exists>row. spend_reservations l (res_id r) = Some row \<and> rr_key row = res_key r \<and>
     rr_amount row = uint (minor (res_amount r)))"

definition row_state :: "spend_db \<Rightarrow> reservation \<Rightarrow> reservation_state option" where
  "row_state l r = map_option rr_state (spend_reservations l (res_id r))"

definition with_state :: "spend_db \<Rightarrow> reservation \<Rightarrow> reservation_state \<Rightarrow> spend_db" where
  "with_state l r st = l\<lparr>spend_reservations := (spend_reservations l)
     (res_id r \<mapsto> (the (spend_reservations l (res_id r)))\<lparr>rr_state := st\<rparr>)\<rparr>"

definition given_back :: "spend_db \<Rightarrow> reservation \<Rightarrow> spend_db" where
  "given_back l r = (with_state l r Released)\<lparr>spend_buckets := (spend_buckets l)(res_key r \<mapsto>
     \<lparr>reserved_minor = reserved_minor (bucket_at l (res_key r)) - uint (minor (res_amount r)),
      txn_count = txn_count (bucket_at l (res_key r)) - 1\<rparr>)\<rparr>"

lemma finish_reservation_eq:
  "finish_reservation r st l = Some (Inr (), l') \<longleftrightarrow>
     row_state l r = Some Reserved \<and> l' = with_state l r st"
  by (auto simp: finish_reservation_def row_state_def with_state_def split: option.splits)

lemma finish_reservation_refused:
  "row_state l r \<noteq> Some Reserved \<Longrightarrow>
     finish_reservation r st l = Some (Inl (SE_Conflict (lit ''is not reserved'')), l)"
  by (auto simp: finish_reservation_def row_state_def split: option.splits)

lemma books_ok_bucket:
  "books_ok l \<Longrightarrow> bucket_at l key =
     \<lparr>reserved_minor = live_total (spend_reservations l) key,
      txn_count = int (card (live (spend_reservations l) key))\<rparr>"
  by (simp only: books_ok_def)

lemma books_okI:
  assumes "finite (dom (spend_reservations l))"
    and "\<And>key. bucket_at l key =
     \<lparr>reserved_minor = live_total (spend_reservations l) key,
      txn_count = int (card (live (spend_reservations l) key))\<rparr>"
  shows "books_ok l"
  using assms by (simp only: books_ok_def) simp

lemma bucket_check_less:
  "bucket_check b \<Longrightarrow> 0 \<le> x \<Longrightarrow> x \<le> reserved_minor b \<Longrightarrow> 1 \<le> txn_count b \<Longrightarrow>
     bucket_check \<lparr>reserved_minor = reserved_minor b - x, txn_count = txn_count b - 1\<rparr>"
  by (simp add: bucket_check_def)

text \<open>A live reservation is part of what its bucket holds.\<close>

lemma live_part:
  assumes "books_ok l" and "rows_ok l" and "issued l r" and "row_state l r = Some Reserved"
  shows "uint (minor (res_amount r)) \<le> reserved_minor (bucket_at l (res_key r))"
    and "1 \<le> txn_count (bucket_at l (res_key r))"
    and "spend_buckets l (res_key r) \<noteq> None"
proof -
  let ?m = "spend_reservations l" and ?i = "res_id r"
  from assms(3,4) obtain row where row: "?m ?i = Some row" "rr_key row = res_key r"
    "rr_amount row = uint (minor (res_amount r))" "rr_state row = Reserved"
    by (auto simp: issued_def row_state_def)
  have fin: "finite (live ?m (res_key r))" using assms(1) by (simp add: books_ok_def)
  have i: "?i \<in> live ?m (res_key r)" using row by (auto simp: live_def)
  have "0 \<le> rr_amount (the (?m j))" if "j \<in> live ?m (res_key r)" for j
    using assms(2) that by (auto simp: rows_ok_def live_def order_le_less)
  then have "rr_amount (the (?m ?i)) \<le> live_total ?m (res_key r)"
    unfolding live_total_def by (intro member_le_sum [OF i _ fin]) auto
  moreover have "0 < card (live ?m (res_key r))" using fin i by (auto simp: card_gt_0_iff)
  ultimately show "uint (minor (res_amount r)) \<le> reserved_minor (bucket_at l (res_key r))"
    "1 \<le> txn_count (bucket_at l (res_key r))"
    using row by (simp_all add: books_ok_bucket [OF assms(1)])
  show "spend_buckets l (res_key r) \<noteq> None"
    using assms(2) row(1,2) unfolding rows_ok_def by metis
qed

lemma spend_release_ok:
  assumes "books_ok l" and "rows_ok l" and "issued l r" and "row_state l r = Some Reserved"
  shows "spend_release r l = Some (Inr (), given_back l r)"
proof -
  note part = live_part [OF assms]
  have le: "uint (minor (res_amount r)) \<le> i64_top"
    using part(1) bucket_at_check [OF assms(2), of "res_key r"] by (simp add: bucket_check_def)
  from part(3) obtain b where b: "spend_buckets l (res_key r) = Some b" by blast
  with part have "bucket_check \<lparr>reserved_minor = reserved_minor b - uint (minor (res_amount r)),
      txn_count = txn_count b - 1\<rparr>"
    by (intro bucket_check_less rows_ok_bucket [OF assms(2) b]) (simp_all add: bucket_at_def)
  then show ?thesis
    using b assms(4) by (simp add: spend_release_def finish_reservation_eq [THEN iffD2]
        update_bucket_def with_state_def clamp_i64_exact [OF le] given_back_def bucket_at_def)
qed

lemma spend_release_refused:
  assumes "row_state l r \<noteq> Some Reserved"
  shows "spend_release r l = Some (Inl (SE_Conflict (lit ''is not reserved'')), l)"
  using assms by (simp add: spend_release_def finish_reservation_refused)

section \<open>The books after each operation\<close>

lemma bucket_at_with_reservation:
  "bucket_at (with_reservation l rid key m) k =
     (if k = key then \<lparr>reserved_minor = reserved_minor (bucket_at l key) + m,
                      txn_count = txn_count (bucket_at l key) + 1\<rparr>
      else bucket_at l k)"
  by (simp add: bucket_at_def with_reservation_def Let_def)

lemma reservations_with_reservation:
  "spend_reservations (with_reservation l rid key m) =
     (spend_reservations l)(rid \<mapsto> \<lparr>rr_key = key, rr_amount = m, rr_state = Reserved\<rparr>)"
  by (simp add: with_reservation_def Let_def)

lemma books_ok_with_reservation:
  assumes "books_ok l" and "spend_reservations l rid = None"
  shows "books_ok (with_reservation l rid key m)"
proof (rule books_okI)
  have fin: "finite (dom (spend_reservations l))" using assms(1) by (simp add: books_ok_def)
  then show "finite (dom (spend_reservations (with_reservation l rid key m)))"
    by (simp add: reservations_with_reservation)
  show "bucket_at (with_reservation l rid key m) k =
      \<lparr>reserved_minor = live_total (spend_reservations (with_reservation l rid key m)) k,
       txn_count = int (card (live (spend_reservations (with_reservation l rid key m)) k))\<rparr>" for k
    using fin assms(2) by (simp add: bucket_at_with_reservation reservations_with_reservation
        live_total_add card_live_add books_ok_bucket [OF assms(1)])
qed

lemma books_ok_with_team_charge [simp]: "books_ok (with_team_charge l e day amt) = books_ok l"
  by (simp add: books_ok_def)

lemma books_ok_charged:
  "books_ok l \<Longrightarrow> spend_reservations l rid = None \<Longrightarrow> books_ok (charged l rid e day amt)"
  by (simp add: charged_def books_ok_with_reservation)

lemma rows_ok_charged:
  assumes "rows_ok l" and "money_ok amt" and "may_reserve l e day amt" and "team_may_reserve l e day amt"
  shows "rows_ok (charged l rid e day amt)"
proof (cases "team_memberships l e")
  case None
  then show ?thesis
    using rows_ok_with_reservation [OF assms(1-3)] by (simp add: charged_def with_team_charge_def)
next
  case (Some t)
  let ?k = "(t, day, currency amt)"
  from assms(4) Some obtain lim where lim: "team_budgets l (t, currency amt) = Some lim"
    "team_at l ?k + uint (minor amt) \<le> lim"
    by (auto simp: team_may_reserve_def split: option.splits)
  with rows_ok_budget [OF assms(1) lim(1)] team_at_bounds [OF assms(1), of ?k]
  have "0 \<le> team_at l ?k + uint (minor amt) \<and> team_at l ?k + uint (minor amt) \<le> i64_top"
    by (auto intro: add_nonneg_nonneg)
  with rows_ok_with_reservation [OF assms(1-3), of rid] Some show ?thesis
    unfolding rows_ok_def charged_def with_team_charge_def by (simp del: split_paired_All)
qed

lemma books_ok_settled:
  assumes "books_ok l" and "row_state l r = Some Reserved"
  shows "books_ok (with_state l r Settled)"
proof -
  from assms(2) obtain row where row: "spend_reservations l (res_id r) = Some row" "rr_state row = Reserved"
    by (auto simp: row_state_def)
  from assms(1) show ?thesis
    by (simp add: books_ok_def with_state_def row(1) live_total_settle [where m = "spend_reservations l", OF row]
        live_move(1) [where m = "spend_reservations l", OF row] bucket_at_def)
qed

lemma bucket_at_given_back:
  "bucket_at (given_back l r) k =
     (if k = res_key r
      then \<lparr>reserved_minor = reserved_minor (bucket_at l k) - uint (minor (res_amount r)),
            txn_count = txn_count (bucket_at l k) - 1\<rparr>
      else bucket_at l k)"
  by (simp add: bucket_at_def given_back_def with_state_def)

lemma books_ok_given_back:
  assumes "books_ok l" and "issued l r" and "row_state l r = Some Reserved"
  shows "books_ok (given_back l r)"
proof -
  from assms(2,3) obtain row where row: "spend_reservations l (res_id r) = Some row" "rr_state row = Reserved"
    and key: "rr_key row = res_key r" "rr_amount row = uint (minor (res_amount r))"
    by (auto simp: issued_def row_state_def)
  have fin: "finite (dom (spend_reservations l))" using assms(1) by (simp add: books_ok_def)
  have "spend_reservations (given_back l r) = (spend_reservations l)(res_id r \<mapsto> row\<lparr>rr_state := Released\<rparr>)"
    by (simp add: given_back_def with_state_def row)
  with assms(1) fin show ?thesis
    by (simp add: books_ok_def bucket_at_given_back live_total_release [OF fin row]
        card_live_release [OF fin row] key)
qed

lemma rows_ok_with_state:
  assumes "rows_ok l" and "row_state l r \<noteq> None"
  shows "rows_ok (with_state l r st)"
proof -
  from assms(2) obtain row where "spend_reservations l (res_id r) = Some row"
    by (auto simp: row_state_def)
  with assms(1) show ?thesis
    unfolding rows_ok_def with_state_def by (auto simp del: split_paired_All)
qed

lemma rows_ok_set_bucket:
  assumes "rows_ok l" and "bucket_check b"
  shows "rows_ok (l\<lparr>spend_buckets := (spend_buckets l)(key \<mapsto> b)\<rparr>)"
  using assms unfolding rows_ok_def by (simp del: split_paired_All)

lemma rows_ok_given_back:
  assumes "books_ok l" and "rows_ok l" and "issued l r" and "row_state l r = Some Reserved"
  shows "rows_ok (given_back l r)"
proof -
  have "bucket_check \<lparr>reserved_minor = reserved_minor (bucket_at l (res_key r)) - uint (minor (res_amount r)),
      txn_count = txn_count (bucket_at l (res_key r)) - 1\<rparr>"
    using live_part [OF assms] by (intro bucket_check_less bucket_at_check [OF assms(2)]) simp_all
  moreover have "rows_ok (with_state l r Released)"
    using assms(2,4) by (intro rows_ok_with_state) simp_all
  ultimately show ?thesis
    using rows_ok_set_bucket [of "with_state l r Released"]
    by (simp add: given_back_def with_state_def)
qed

section \<open>Runs\<close>

text \<open>A tenant's ledger and the reservations it has handed out. Every operation runs in its own
  transaction, committed when it returns and rolled back when it refuses; the code can only give
  back or settle a reservation that a call to \<open>reserve\<close> returned.\<close>

datatype spend_op =
    Op_SetCaps employee_id spend_caps
  | Op_SetMember employee_id team_id
  | Op_SetBudget team_id money
  | Op_Reserve uuid employee_id ledger_day money
  | Op_Release reservation
  | Op_Settle reservation

definition empty_ledger :: spend_db where
  "empty_ledger = \<lparr>caps_rows = Map.empty, spend_buckets = Map.empty, spend_reservations = Map.empty,
     team_memberships = Map.empty, team_budgets = Map.empty, team_spend_buckets = Map.empty\<rparr>"

definition after :: "('e + 'a) \<times> spend_db \<Rightarrow> spend_db \<Rightarrow> spend_db" where
  "after rs l = (case rs of (Inl _, _) \<Rightarrow> l | (Inr _, l') \<Rightarrow> l')"

fun spend_step :: "spend_db \<Rightarrow> spend_op \<Rightarrow> (spend_db \<times> reservation option) option" where
  "spend_step l (Op_SetCaps e caps) = map_option (\<lambda>rs. (after rs l, None)) (set_caps e caps l)"
| "spend_step l (Op_SetMember e t) = map_option (\<lambda>rs. (after rs l, None)) (set_member e t l)"
| "spend_step l (Op_SetBudget t m) = map_option (\<lambda>rs. (after rs l, None)) (set_budget t m l)"
| "spend_step l (Op_Reserve rid e day amt) =
     map_option (\<lambda>rs. (after rs l, case fst rs of Inl _ \<Rightarrow> None | Inr r \<Rightarrow> Some r))
       (org_reserve rid e day amt l)"
| "spend_step l (Op_Release r) = map_option (\<lambda>rs. (after rs l, None)) (org_release r l)"
| "spend_step l (Op_Settle r) = map_option (\<lambda>rs. (after rs l, None)) (settle r l)"

fun op_money_ok :: "spend_op \<Rightarrow> bool" where
  "op_money_ok (Op_Reserve _ _ _ amt) = money_ok amt"
| "op_money_ok (Op_SetCaps _ caps) =
     (money_ok (caps_daily_total caps) \<and> money_ok (caps_per_transaction caps) \<and>
      caps_daily_transactions caps \<noteq> 0)"
| "op_money_ok (Op_SetBudget _ m) = money_ok m"
| "op_money_ok _ = True"

fun op_uses :: "spend_op \<Rightarrow> reservation list" where
  "op_uses (Op_Release r) = [r]"
| "op_uses (Op_Settle r) = [r]"
| "op_uses _ = []"

inductive ledger_run :: "spend_db \<Rightarrow> reservation list \<Rightarrow> bool" where
  run_start: "ledger_run empty_ledger []"
| run_step: "ledger_run l rs \<Longrightarrow> op_money_ok op \<Longrightarrow> set (op_uses op) \<subseteq> set rs \<Longrightarrow>
     spend_step l op = Some (l', given) \<Longrightarrow>
     ledger_run l' (case given of None \<Rightarrow> rs | Some r \<Rightarrow> r # rs)"

definition books_hold :: "spend_db \<Rightarrow> reservation list \<Rightarrow> bool" where
  "books_hold l rs \<longleftrightarrow> books_ok l \<and> rows_ok l \<and> list_all (issued l) rs"

lemma after_simps [simp]: "after (Inl e, l') l = l" "after (Inr x, l') l = l'"
  by (simp_all add: after_def)

lemma issued_charged:
  "issued l r \<Longrightarrow> spend_reservations l rid = None \<Longrightarrow> issued (charged l rid e day amt) r"
  "issued (charged l rid e day amt) (granted rid e day amt)"
  by (auto simp: issued_def charged_def reservations_with_reservation granted_def res_key_def)

lemma issued_with_state: "issued l r \<Longrightarrow> issued l r' \<Longrightarrow> issued (with_state l r st) r'"
  by (auto simp: issued_def with_state_def)

lemma issued_buckets:
  "issued (l\<lparr>spend_buckets := b\<rparr>) r = issued l r"
  "issued (l\<lparr>team_spend_buckets := tb\<rparr>) r = issued l r"
  by (simp_all add: issued_def)

lemma books_hold_charged:
  assumes "books_hold l rs" and "money_ok amt"
    and "may_reserve l e day amt" and "team_may_reserve l e day amt" and "spend_reservations l rid = None"
  shows "books_hold (charged l rid e day amt) (granted rid e day amt # rs)"
  using assms
  by (auto simp: books_hold_def list_all_iff intro: books_ok_charged rows_ok_charged issued_charged)

lemma books_hold_given_back:
  assumes "books_hold l rs" and "r \<in> set rs" and "row_state l r = Some Reserved"
  shows "books_hold (given_back l r) rs"
proof -
  from assms have ok: "books_ok l" "rows_ok l" "issued l r" "list_all (issued l) rs"
    by (auto simp: books_hold_def list_all_iff)
  then have "list_all (issued (given_back l r)) rs"
    by (auto simp: list_all_iff given_back_def issued_buckets intro: issued_with_state)
  with books_ok_given_back [OF ok(1,3) assms(3)] rows_ok_given_back [OF ok(1-3) assms(3)]
  show ?thesis by (simp add: books_hold_def)
qed

lemma books_hold_set_caps:
  assumes "books_hold l rs" and "set_caps e caps l = Some (x, l')"
  shows "books_hold (after (x, l') l) rs"
proof -
  have "caps_row_ok r" if "r = \<lparr>row_daily_total = clamp_i64 a, row_per_transaction = clamp_i64 b,
      row_daily_count = n\<rparr>" "0 < clamp_i64 a" "0 < clamp_i64 b" "0 < n" "n \<le> i32_top" for r a b n
    using that clamp_i64_bounds by (simp add: caps_row_ok_def)
  moreover have "books_hold (l\<lparr>caps_rows := (caps_rows l)(k \<mapsto> r)\<rparr>) rs" if "caps_row_ok r" for k r
    using assms(1) that
    by (simp add: books_hold_def books_ok_def rows_ok_def bucket_at_def issued_def list_all_iff
        del: split_paired_All)
  ultimately show ?thesis
    using assms by (auto simp: set_caps_def Let_def split: if_splits)
qed

lemma books_hold_set_budget:
  assumes "books_hold l rs" and "set_budget t m l = Some (x, l')"
  shows "books_hold (after (x, l') l) rs"
proof -
  have "books_hold (l\<lparr>team_budgets := (team_budgets l)(k \<mapsto> v)\<rparr>) rs" if "0 < v" "v \<le> i64_top" for k v
    using assms(1) that
    by (simp add: books_hold_def books_ok_def rows_ok_def bucket_at_def issued_def list_all_iff
        del: split_paired_All)
  with clamp_i64_bounds(1) [of "minor m"] show ?thesis
    using assms by (auto simp: set_budget_def split: if_splits)
qed

lemma books_hold_set_member:
  "books_hold l rs \<Longrightarrow> books_hold (l\<lparr>team_memberships := m\<rparr>) rs"
  by (simp add: books_hold_def books_ok_def rows_ok_def bucket_at_def issued_def list_all_iff
      del: split_paired_All)

lemma books_hold_settled:
  assumes "books_hold l rs" and "r \<in> set rs" and "row_state l r = Some Reserved"
  shows "books_hold (with_state l r Settled) rs"
  using assms by (auto simp: books_hold_def list_all_iff intro: books_ok_settled rows_ok_with_state
      issued_with_state)

lemma books_hold_team_bucket:
  "books_hold l rs \<Longrightarrow> 0 \<le> v \<Longrightarrow> v \<le> i64_top \<Longrightarrow>
     books_hold (l\<lparr>team_spend_buckets := (team_spend_buckets l)(k \<mapsto> v)\<rparr>) rs"
  by (simp add: books_hold_def books_ok_def rows_ok_def bucket_at_def issued_def list_all_iff
      del: split_paired_All)

lemma update_team_bucket_cases:
  obtains "update_team_bucket k d l = Some (Inr (), l)"
  | v where "0 \<le> v" "v \<le> i64_top"
      "update_team_bucket k d l = Some (Inr (), l\<lparr>team_spend_buckets := (team_spend_buckets l)(k \<mapsto> v)\<rparr>)"
  | "update_team_bucket k d l = Some (Inl SE_Database, l)"
proof (cases "team_spend_buckets l k")
  case None
  with that(1) show thesis by (simp add: update_team_bucket_def)
next
  case (Some v)
  with that(2) [of "v + d"] that(3) show thesis
    by (cases "0 \<le> v + d \<and> v + d \<le> i64_top") (auto simp: update_team_bucket_def)
qed

lemma org_release_cases:
  assumes ok: "books_hold l rs" and r: "r \<in> set rs"
  obtains x l' where "org_release r l = Some (x, l')" "books_hold (after (x, l') l) rs"
proof (cases "row_state l r = Some Reserved")
  case False
  with ok that show thesis by (auto simp: org_release_def spend_release_refused)
next
  case True
  from ok r have okl: "books_ok l" "rows_ok l" "issued l r"
    by (auto simp: books_hold_def list_all_iff)
  note freed = spend_release_ok [OF okl True]
  have freed_ok: "books_hold (given_back l r) rs" by (rule books_hold_given_back [OF ok r True])
  show thesis
  proof (cases "team_memberships (given_back l r) (res_employee r)")
    case None
    with that freed_ok show thesis by (simp add: org_release_def freed team_of_def)
  next
    case (Some t)
    then have run: "org_release r l = update_team_bucket (t, res_day r, currency (res_amount r))
        (- clamp_i64 (minor (res_amount r))) (given_back l r)"
      by (simp add: org_release_def freed team_of_def)
    show thesis
      by (rule update_team_bucket_cases [of "(t, res_day r, currency (res_amount r))"
            "- clamp_i64 (minor (res_amount r))" "given_back l r"])
        (use that run freed_ok ok in \<open>auto intro: books_hold_team_bucket\<close>)
  qed
qed

lemma spend_step_ok:
  assumes ok: "books_hold l rs" and money: "op_money_ok op" and known: "set (op_uses op) \<subseteq> set rs"
  obtains l' given where "spend_step l op = Some (l', given)"
    "books_hold l' (case given of None \<Rightarrow> rs | Some r \<Rightarrow> r # rs)"
proof (cases op)
  case (Op_SetCaps e caps)
  obtain x s where "set_caps e caps l = Some (x, s)"
    by (cases "set_caps e caps l") (auto simp: set_caps_def Let_def split: if_splits)
  with that books_hold_set_caps [OF ok] Op_SetCaps show thesis by simp
next
  case (Op_SetMember e t)
  with that books_hold_set_member [OF ok] show thesis by (simp add: set_member_def)
next
  case (Op_SetBudget t m)
  obtain x s where "set_budget t m l = Some (x, s)"
    by (cases "set_budget t m l") (auto simp: set_budget_def split: if_splits)
  with that books_hold_set_budget [OF ok] Op_SetBudget show thesis by simp
next
  case (Op_Reserve rid e day amt)
  with money have amt: "money_ok amt" by simp
  from ok have rows: "rows_ok l" by (simp add: books_hold_def)
  obtain x l' where run: "org_reserve rid e day amt l = Some (x, l')" by (rule org_reserve_runs [OF rows amt])
  show thesis
  proof (cases x)
    case (Inl err)
    with that ok run Op_Reserve show thesis by simp
  next
    case (Inr r)
    with run have "may_reserve l e day amt" "team_may_reserve l e day amt"
      "spend_reservations l rid = None" "r = granted rid e day amt" "l' = charged l rid e day amt"
      by (simp_all add: org_reserve_eq_Inr [OF rows amt])
    with that books_hold_charged [OF ok amt] run Inr Op_Reserve show thesis by simp
  qed
next
  case (Op_Release r)
  with known have r: "r \<in> set rs" by simp
  show thesis by (rule org_release_cases [OF ok r]) (use that Op_Release in simp)
next
  case (Op_Settle r)
  with known have r: "r \<in> set rs" by simp
  show thesis
  proof (cases "row_state l r = Some Reserved")
    case True
    with that books_hold_settled [OF ok r] Op_Settle show thesis
      by (simp add: settle_def finish_reservation_eq [THEN iffD2])
  next
    case False
    with that ok Op_Settle show thesis by (simp add: settle_def finish_reservation_refused)
  qed
qed

lemma books_hold_empty: "books_hold empty_ledger []"
  by (simp add: books_hold_def books_ok_def rows_ok_def empty_ledger_def bucket_at_def live_def
      live_total_def empty_bucket_def)

lemma books_run_ok: "ledger_run l rs \<Longrightarrow> books_hold l rs"
proof (induction rule: ledger_run.induct)
  case run_start
  then show ?case by (rule books_hold_empty)
next
  case (run_step l rs op l' given)
  show ?case
    by (rule spend_step_ok [OF run_step.IH run_step.hyps(2,3)]) (use run_step.hyps(4) in simp)
qed

section \<open>Caps over a day\<close>





lemma team_at_with_team_charge:
  "team_at (with_team_charge l e day amt) k =
     (if map_option (\<lambda>t. (t, day, currency amt)) (team_memberships l e) = Some k
      then team_at l k + uint (minor amt) else team_at l k)"
  by (cases "team_memberships l e") (auto simp: with_team_charge_def team_at_def)



lemma given_back_less:
  "reserved_minor (bucket_at (given_back l r) k) \<le> reserved_minor (bucket_at l k)"
  "txn_count (bucket_at (given_back l r) k) \<le> txn_count (bucket_at l k)"
  "caps_rows (given_back l r) = caps_rows l"
  "team_budgets (given_back l r) = team_budgets l"
  "team_memberships (given_back l r) = team_memberships l"
  "team_spend_buckets (given_back l r) = team_spend_buckets l"
  "team_at (given_back l r) k' = team_at l k'"
  by (simp_all add: bucket_at_given_back, simp_all add: given_back_def with_state_def team_at_def)





section \<open>Properties of the ledger\<close>

definition sample_caps :: spend_caps where
  "sample_caps = \<lparr>caps_daily_total = \<lparr>minor = 1000, currency = EUR\<rparr>,
     caps_per_transaction = \<lparr>minor = 400, currency = EUR\<rparr>, caps_daily_transactions = 5\<rparr>"

definition sample_spend_ops :: "spend_op list" where
  "sample_spend_ops =
     [Op_SetCaps (EmployeeId 1) sample_caps, Op_SetBudget 9 \<lparr>minor = 600, currency = EUR\<rparr>,
      Op_SetMember (EmployeeId 1) 9, Op_Reserve 70 (EmployeeId 1) 20000 \<lparr>minor = 350, currency = EUR\<rparr>]"

fun run_ops :: "spend_db \<Rightarrow> spend_op list \<Rightarrow> spend_db" where
  "run_ops l [] = l"
| "run_ops l (op # ops) = (case spend_step l op of None \<Rightarrow> l | Some (l', _) \<Rightarrow> run_ops l' ops)"

definition sample_ledger :: spend_db where
  "sample_ledger = run_ops empty_ledger (take 3 sample_spend_ops)"

definition sample_grant :: reservation where
  "sample_grant = granted 70 (EmployeeId 1) 20000 \<lparr>minor = 350, currency = EUR\<rparr>"

lemma sample_ledger_eq:
  "sample_ledger = empty_ledger
     \<lparr>caps_rows := [(EmployeeId 1, EUR) \<mapsto>
        \<lparr>row_daily_total = 1000, row_per_transaction = 400, row_daily_count = 5\<rparr>],
      team_budgets := [(9, EUR) \<mapsto> 600], team_memberships := [EmployeeId 1 \<mapsto> 9]\<rparr>"
  by (simp add: sample_ledger_def sample_spend_ops_def sample_caps_def set_caps_def set_budget_def
      set_member_def clamp_i64_def i64_top_def i32_top_def empty_ledger_def)

lemma sample_ledger_run: "ledger_run sample_ledger []"
proof -
  let ?l1 = "run_ops empty_ledger (take 1 sample_spend_ops)"
  let ?l2 = "run_ops empty_ledger (take 2 sample_spend_ops)"
  have steps: "spend_step empty_ledger (sample_spend_ops ! 0) = Some (?l1, None)"
    "spend_step ?l1 (sample_spend_ops ! 1) = Some (?l2, None)"
    "spend_step ?l2 (sample_spend_ops ! 2) = Some (sample_ledger, None)"
    by (simp_all add: sample_ledger_def sample_spend_ops_def sample_caps_def set_caps_def set_budget_def
        set_member_def clamp_i64_def i64_top_def i32_top_def)
  have "list_all (\<lambda>op. op_money_ok op \<and> op_uses op = []) sample_spend_ops"
    by (simp add: sample_spend_ops_def sample_caps_def money_ok_def)
  then have ops: "op_money_ok (sample_spend_ops ! i)" "op_uses (sample_spend_ops ! i) = []" if "i < 3" for i
    using that by (auto simp: list_all_length sample_spend_ops_def)
  have "ledger_run ?l1 []"
    using run_step [OF run_start ops(1) _ steps(1)] ops(2) [of 0] by simp
  from run_step [OF this ops(1) _ steps(2)] ops(2) [of 1] have "ledger_run ?l2 []" by simp
  from run_step [OF this ops(1) _ steps(3)] ops(2) [of 2] show ?thesis by simp
qed

lemma sample_may:
  "may_reserve sample_ledger (EmployeeId 1) 20000 \<lparr>minor = 350, currency = EUR\<rparr>"
  "team_may_reserve sample_ledger (EmployeeId 1) 20000 \<lparr>minor = 350, currency = EUR\<rparr>"
  "spend_reservations sample_ledger 70 = None"
  by (simp_all add: sample_ledger_eq may_reserve_def team_may_reserve_def bucket_at_def team_at_def
      empty_bucket_def empty_ledger_def)

text \<open>C11. The books balance: after any sequence of operations on the spend ledger, with any
  refusals in between, every bucket holds exactly the amount and the number of the reservations of
  that employee, day and currency that were not released, and neither is negative.\<close>

theorem books_always_balance:
  assumes "ledger_run l rs"
  shows "bucket_at l key =
      \<lparr>reserved_minor = (\<Sum>i\<in>live (spend_reservations l) key. rr_amount (the (spend_reservations l i))),
       txn_count = int (card (live (spend_reservations l) key))\<rparr> \<and>
    0 \<le> reserved_minor (bucket_at l key) \<and> reserved_minor (bucket_at l key) \<le> i64_top"
proof -
  from books_run_ok [OF assms] have "books_ok l" "rows_ok l" by (simp_all add: books_hold_def)
  from books_ok_bucket [OF this(1), of key] bucket_at_check [OF this(2), of key] show ?thesis
    by (simp add: live_total_def bucket_check_def)
qed

theorem books_always_balance_witness:
  "bucket_at sample_ledger (EmployeeId 1, 20000, EUR) =
      \<lparr>reserved_minor = (\<Sum>i\<in>live (spend_reservations sample_ledger) (EmployeeId 1, 20000, EUR).
         rr_amount (the (spend_reservations sample_ledger i))),
       txn_count = int (card (live (spend_reservations sample_ledger) (EmployeeId 1, 20000, EUR)))\<rparr>"
  using books_always_balance [OF sample_ledger_run] by blast

text \<open>C12. A payment is reserved exactly when the caps and the team's budget allow it: in every state
  the ledger can reach, the call never panics, and it hands out a reservation if and only if caps
  exist in that currency, the amount is within the per-transaction cap, the day's count is not used
  up, the day's total stays within the employee's cap, and the team, if there is one, has a budget
  in that currency that the amount still fits; the buckets then grow by exactly the amount.\<close>

theorem reserve_iff_caps_allow:
  assumes "ledger_run l rs" and "money_ok amt" and "spend_reservations l rid = None"
  shows "if may_reserve l e day amt \<and> team_may_reserve l e day amt
    then org_reserve rid e day amt l = Some (Inr (granted rid e day amt), charged l rid e day amt) \<and>
      reserved_minor (bucket_at (charged l rid e day amt) (e, day, currency amt)) =
        reserved_minor (bucket_at l (e, day, currency amt)) + uint (minor amt) \<and>
      (\<forall>t. team_memberships l e = Some t \<longrightarrow>
        team_at (charged l rid e day amt) (t, day, currency amt) =
          team_at l (t, day, currency amt) + uint (minor amt))
    else \<exists>err l'. org_reserve rid e day amt l = Some (Inl err, l')"
proof -
  from books_run_ok [OF assms(1)] have ok: "rows_ok l" by (simp add: books_hold_def)
  obtain x l' where run: "org_reserve rid e day amt l = Some (x, l')"
    by (rule org_reserve_runs [OF ok assms(2)])
  show ?thesis
  proof (cases "may_reserve l e day amt \<and> team_may_reserve l e day amt")
    case True
    with assms(3) have "org_reserve rid e day amt l = Some (Inr (granted rid e day amt), charged l rid e day amt)"
      by (simp add: org_reserve_eq_Inr [OF ok assms(2)])
    with True show ?thesis
      by (simp add: charged_def bucket_at_with_reservation team_at_with_team_charge)
  next
    case False
    with run have "\<exists>err. x = Inl err"
      by (cases x) (auto simp: org_reserve_eq_Inr [OF ok assms(2)])
    with run False show ?thesis by auto
  qed
qed

theorem reserve_iff_caps_allow_witness:
  "org_reserve 70 (EmployeeId 1) 20000 \<lparr>minor = 350, currency = EUR\<rparr> sample_ledger =
     Some (Inr sample_grant, charged sample_ledger 70 (EmployeeId 1) 20000 \<lparr>minor = 350, currency = EUR\<rparr>)"
  using reserve_iff_caps_allow [OF sample_ledger_run, of "\<lparr>minor = 350, currency = EUR\<rparr>" 70
      "EmployeeId 1" 20000] sample_may
  by (simp add: money_ok_def sample_grant_def)



lemma row_state_charged:
  "row_state (charged l rid e day amt) (granted rid e day amt) = Some Reserved"
  by (simp add: row_state_def charged_def reservations_with_reservation granted_def)

lemma granted_sel [simp]:
  "res_employee (granted rid e day amt) = e" "res_day (granted rid e day amt) = day"
  "res_amount (granted rid e day amt) = amt" "res_key (granted rid e day amt) = (e, day, currency amt)"
  by (simp_all add: granted_def res_key_def)

text \<open>C13. A failed payment gives everything back, once: releasing a reservation right after it was
  granted succeeds, restores the bucket of the employee and that of its team to what they were, and
  a second release is refused and changes nothing.\<close>

theorem release_restores:
  assumes "ledger_run l rs" and "money_ok amt"
    and "org_reserve rid e day amt l = Some (Inr r, l1)"
  shows "\<exists>l2. org_release r l1 = Some (Inr (), l2) \<and>
    (\<forall>k. bucket_at l2 k = bucket_at l k) \<and> (\<forall>k. team_at l2 k = team_at l k) \<and>
    org_release r l2 = Some (Inl (SE_Conflict (lit ''is not reserved'')), l2)"
proof -
  from books_run_ok [OF assms(1)] have led: "books_hold l rs" and ok: "rows_ok l" by (simp_all add: books_hold_def)
  from assms(3) have g: "may_reserve l e day amt" "team_may_reserve l e day amt"
    "spend_reservations l rid = None" "r = granted rid e day amt" "l1 = charged l rid e day amt"
    by (simp_all add: org_reserve_eq_Inr [OF ok assms(2)])
  have "books_hold l1 (r # rs)" using books_hold_charged [OF led assms(2) g(1-3)] g by simp
  then have l1: "books_ok l1" "rows_ok l1" "issued l1 r" by (simp_all add: books_hold_def)
  have st: "row_state l1 r = Some Reserved" by (simp add: g row_state_charged)
  note freed = spend_release_ok [OF l1 st]
  have sel: "res_employee r = e" "res_day r = day" "res_amount r = amt"
    "team_memberships l1 = team_memberships l"
    by (simp_all add: g charged_def)
  have exact: "clamp_i64 (minor amt) = uint (minor amt)"
    using live_part(1) [OF l1 st] bucket_at_check [OF l1(2), of "res_key r"]
    by (intro clamp_i64_exact) (simp add: g bucket_check_def)
  have buckets: "bucket_at (given_back l1 r) k = bucket_at l k" for k
    by (simp add: bucket_at_given_back g charged_def bucket_at_with_reservation)
  have gone: "row_state l2 r \<noteq> Some Reserved" if "spend_reservations l2 = spend_reservations (given_back l1 r)" for l2
    using that by (simp add: row_state_def given_back_def with_state_def)
  show ?thesis
  proof (cases "team_memberships l e")
    case None
    then have "org_release r l1 = Some (Inr (), given_back l1 r)"
      by (simp add: org_release_def freed team_of_def given_back_less sel)
    moreover have "team_at (given_back l1 r) k = team_at l k" for k
      by (simp add: given_back_less g charged_def team_at_with_team_charge None)
    ultimately show ?thesis
      using buckets spend_release_refused [OF gone] by (auto simp: org_release_def)
  next
    case (Some t)
    let ?k = "(t, day, currency amt)"
    let ?l2 = "(given_back l1 r)\<lparr>team_spend_buckets :=
      (team_spend_buckets (given_back l1 r))(?k \<mapsto> team_at l ?k)\<rparr>"
    have tb: "team_spend_buckets (given_back l1 r) ?k = Some (team_at l ?k + uint (minor amt))"
      using Some by (simp add: given_back_less g charged_def with_team_charge_def)
    have "update_team_bucket ?k (- uint (minor amt)) (given_back l1 r) = Some (Inr (), ?l2)"
      using team_at_bounds [OF ok, of ?k] by (simp add: update_team_bucket_def tb)
    then have "org_release r l1 = Some (Inr (), ?l2)"
      using Some by (simp add: org_release_def freed team_of_def given_back_less sel exact)
    moreover have "team_at ?l2 k = team_at l k" for k
    proof (cases "k = ?k")
      case False
      then have "team_at ?l2 k = team_at (given_back l1 r) k" by (simp add: team_at_def)
      with False Some show ?thesis
        by (simp add: given_back_less g charged_def team_at_with_team_charge)
    qed (simp add: team_at_def)
    moreover have "bucket_at ?l2 k = bucket_at l k" for k
      using buckets [of k] by (simp add: bucket_at_def)
    moreover have "org_release r ?l2 = Some (Inl (SE_Conflict (lit ''is not reserved'')), ?l2)"
      using spend_release_refused [OF gone, of ?l2] by (simp add: org_release_def)
    ultimately show ?thesis by blast
  qed
qed

theorem release_restores_witness:
  "\<exists>l2. org_release sample_grant
      (charged sample_ledger 70 (EmployeeId 1) 20000 \<lparr>minor = 350, currency = EUR\<rparr>) = Some (Inr (), l2) \<and>
    org_release sample_grant l2 = Some (Inl (SE_Conflict (lit ''is not reserved'')), l2)"
proof -
  let ?amt = "\<lparr>minor = 350, currency = EUR\<rparr> :: money"
  have ok: "rows_ok sample_ledger" using books_run_ok [OF sample_ledger_run] by (simp add: books_hold_def)
  have amt: "money_ok ?amt" by (simp add: money_ok_def)
  have "org_reserve 70 (EmployeeId 1) 20000 ?amt sample_ledger =
      Some (Inr sample_grant, charged sample_ledger 70 (EmployeeId 1) 20000 ?amt)"
    using org_reserve_eq_Inr [OF ok amt, THEN iffD2, of "EmployeeId 1" 20000 70] sample_may
    by (simp add: sample_grant_def)
  from release_restores [OF sample_ledger_run amt this] show ?thesis by blast
qed

end
