(* ===== verification/Outreach.thy ===== *)
theory Outreach
  imports Ledger "HOL-Library.AList"
begin

text \<open>
  The contact budget of \<open>crates/store/src/outreach.rs\<close>: how many strangers an employee may approach
  in a day, and the warming schedule that releases only part of that number for a tenant enrolled
  in \<open>outreach_warmup\<close>.

  The table \<open>outreach_buckets\<close> is an association list from employee and day to the contacts taken,
  \<open>outreach_warmup\<close> the one row of the tenant, and the \<open>mail_refused\<close> rows of the audit log are a
  list. \<open>midnight\<close> stands for the calendar's first instant of a day.
\<close>

record outreach_db =
  outreach_buckets :: "((employee_id \<times> ledger_day) \<times> int) list"
  outreach_warmup :: "(ledger_day \<times> bool) option"
  mail_refused :: "(timestamp \<times> bool) list"

datatype contact_budget_error =
    NoContactBudget
  | ContactsExhausted u32 u32
  | ContactsWarming u32 u32 u32
  | CB_Store store_error

fun contact_budget_code :: "contact_budget_error \<Rightarrow> ustr" where
  "contact_budget_code NoContactBudget = lit ''no_contact_budget''"
| "contact_budget_code (ContactsExhausted _ _) = lit ''contact_budget_exhausted''"
| "contact_budget_code (ContactsWarming _ _ _) = lit ''sending_domain_warming''"
| "contact_budget_code (CB_Store _) = lit ''unavailable''"

definition window_days :: int where "window_days = 30"

definition approaches_since :: "outreach_db \<Rightarrow> ledger_day \<Rightarrow> int" where
  "approaches_since d since = (\<Sum>((e, day), n)\<leftarrow>outreach_buckets d. if since \<le> day then n else 0)"

definition u64_or :: "u64 \<Rightarrow> int \<Rightarrow> u64" where
  "u64_or fallback v = (if 0 \<le> v \<and> v < 18446744073709551616 then word_of_int v else fallback)"

definition warmup_value ::
  "(ledger_day \<Rightarrow> timestamp) \<Rightarrow> outreach_db \<Rightarrow> ledger_day \<Rightarrow> effective_policy \<Rightarrow> u32 option" where
  "warmup_value midnight d day p =
     (case outreach_warmup d of
        None \<Rightarrow> None
      | Some (started, confirmed) \<Rightarrow>
          let since = day - window_days;
              refusals = length (filter (\<lambda>(at_time, permanent). midnight since \<le> at_time \<and> permanent)
                (mail_refused d));
              ever = length (mail_refused d);
              measured = measure_deliverability (u64_or 0 (approaches_since d since))
                (u64_or (- 1) (int refusals)) (confirmed \<or> 0 < ever)
          in Some (warmup_allowance p (day - started) measured))"

definition warmup_release ::
  "(ledger_day \<Rightarrow> timestamp) \<Rightarrow> ledger_day \<Rightarrow> effective_policy \<Rightarrow> (outreach_db, 'e, u32 option) txn" where
  "warmup_release midnight day p = tget (\<lambda>d. warmup_value midnight d day p)"

definition contacts_at :: "outreach_db \<Rightarrow> employee_id \<Rightarrow> ledger_day \<Rightarrow> int" where
  "contacts_at d e day = (case map_of (outreach_buckets d) (e, day) of None \<Rightarrow> 0 | Some n \<Rightarrow> n)"

definition lock_contacts :: "employee_id \<Rightarrow> ledger_day \<Rightarrow> (outreach_db, 'e, int) txn" where
  "lock_contacts e day d =
     Some (Inr (contacts_at d e day),
           d\<lparr>outreach_buckets := AList.update (e, day) (contacts_at d e day) (outreach_buckets d)\<rparr>)"

definition add_contacts :: "employee_id \<Rightarrow> ledger_day \<Rightarrow> int \<Rightarrow> (outreach_db, store_error, unit) txn" where
  "add_contacts e day n d =
     (let v = contacts_at d e day + n in
      if 0 \<le> v \<and> v \<le> i32_top
      then Some (Inr (), d\<lparr>outreach_buckets := AList.update (e, day) v (outreach_buckets d)\<rparr>)
      else Some (Inl SE_Database, d))"

text \<open>Why a seat is held to what it is held to.\<close>

definition why_held :: "u32 \<Rightarrow> u32 \<Rightarrow> u32 \<Rightarrow> contact_budget_error option" where
  "why_held written eff taken =
     (if written = 0 then Some NoContactBudget
      else if eff < written then Some (ContactsWarming eff written taken)
      else if eff \<le> taken then Some (ContactsExhausted written taken)
      else None)"

definition i32_or_max :: "u32 \<Rightarrow> int" where
  "i32_or_max n = (if uint n \<le> i32_top then uint n else i32_top)"

definition released :: "u32 \<Rightarrow> u32 option \<Rightarrow> u32" where
  "released limit release = (case release of None \<Rightarrow> limit | Some r \<Rightarrow> min r limit)"

definition outreach_reserve ::
  "(ledger_day \<Rightarrow> timestamp) \<Rightarrow> employee_id \<Rightarrow> ledger_day \<Rightarrow> effective_policy \<Rightarrow> u32 \<Rightarrow>
   (outreach_db, contact_budget_error, u32) txn" where
  "outreach_reserve midnight e day p want =
     (if want = 0 then tret 0
      else
        let limit = max_new_contacts_per_day (limits p) in
        if limit = 0 then tfail NoContactBudget
        else
          tbind (lock_contacts e day) (\<lambda>taken_row.
          tbind (warmup_release midnight day p) (\<lambda>release.
          let taken = u32_or_max taken_row;
              allowed = released limit release;
              granted = min want (u_saturating_sub allowed taken)
          in if granted = 0
             then tfail (case why_held limit allowed taken of
                           Some err \<Rightarrow> err | None \<Rightarrow> ContactsExhausted limit taken)
             else
               tbind (tmap_err CB_Store (add_contacts e day (i32_or_max granted))) (\<lambda>_.
               tret granted))))"

record contact_ceiling =
  ceiling_effective :: u32
  ceiling_why :: "contact_budget_error option"

definition outreach_ceiling ::
  "(ledger_day \<Rightarrow> timestamp) \<Rightarrow> ledger_day \<Rightarrow> effective_policy \<Rightarrow> u32 \<Rightarrow>
   (outreach_db, store_error, contact_ceiling) txn" where
  "outreach_ceiling midnight day p taken =
     (let written = max_new_contacts_per_day (limits p) in
      if written = 0 then tret \<lparr>ceiling_effective = 0, ceiling_why = why_held 0 0 taken\<rparr>
      else
        tbind (warmup_release midnight day p) (\<lambda>release.
        let eff = released written release in
        tret \<lparr>ceiling_effective = eff, ceiling_why = why_held written eff taken\<rparr>))"

definition warming_since :: "(outreach_db, 'e, ledger_day option) txn" where
  "warming_since = tget (\<lambda>d. map_option fst (outreach_warmup d))"

definition taken_today :: "employee_id \<Rightarrow> ledger_day \<Rightarrow> (outreach_db, 'e, u32) txn" where
  "taken_today e day = tget (\<lambda>d.
     case map_of (outreach_buckets d) (e, day) of
       None \<Rightarrow> 0
     | Some t \<Rightarrow> if 0 \<le> t \<and> t \<le> 4294967295 then word_of_int t else 0)"

section \<open>What a reservation of contacts does\<close>

definition contacts_ok :: "outreach_db \<Rightarrow> bool" where
  "contacts_ok d \<longleftrightarrow> (\<forall>e day. 0 \<le> contacts_at d e day \<and> contacts_at d e day \<le> i32_top)"

definition allowed_today ::
  "(ledger_day \<Rightarrow> timestamp) \<Rightarrow> outreach_db \<Rightarrow> employee_id \<Rightarrow> ledger_day \<Rightarrow> effective_policy \<Rightarrow> u32" where
  "allowed_today midnight d e day p =
     released (max_new_contacts_per_day (limits p))
       (warmup_value midnight
          (d\<lparr>outreach_buckets := AList.update (e, day) (contacts_at d e day) (outreach_buckets d)\<rparr>) day p)"

lemma contacts_at_update [simp]:
  "contacts_at (d\<lparr>outreach_buckets := AList.update (e, day) v (outreach_buckets d)\<rparr>) e' day' =
     (if (e', day') = (e, day) then v else contacts_at d e' day')"
  by (simp add: contacts_at_def update_conv')

lemma released_le: "released limit r \<le> limit"
  by (cases r) (simp_all add: released_def)

lemma unat_u32_or_max: "0 \<le> v \<Longrightarrow> v \<le> i32_top \<Longrightarrow> unat (u32_or_max v) = nat v"
  using uint_u32_or_max [of v] by (simp add: unat_eq_nat_uint)

lemma unat_saturating_sub: "unat (u_saturating_sub a (b :: 'a::len word)) = unat a - unat b"
  by (auto simp: u_saturating_sub_def unat_sub word_le_nat_alt)

lemma unat_min: "unat (min a (b :: 'a::len word)) = min (unat a) (unat b)"
  by (simp add: min_def word_le_nat_alt)

text \<open>The number of contacts granted, on the rows alone.\<close>

definition grant_of ::
  "(ledger_day \<Rightarrow> timestamp) \<Rightarrow> outreach_db \<Rightarrow> employee_id \<Rightarrow> ledger_day \<Rightarrow> effective_policy \<Rightarrow> u32 \<Rightarrow> nat" where
  "grant_of midnight d e day p want =
     min (unat want) (unat (allowed_today midnight d e day p) - nat (contacts_at d e day))"

lemma outreach_reserve_refused:
  assumes ok: "contacts_ok d" and want: "want \<noteq> 0" and none: "grant_of midnight d e day p want = 0"
  shows "\<exists>d'. outreach_reserve midnight e day p want d =
    Some (Inl (the (why_held (max_new_contacts_per_day (limits p)) (allowed_today midnight d e day p)
        (u32_or_max (contacts_at d e day)))), d') \<and>
    why_held (max_new_contacts_per_day (limits p)) (allowed_today midnight d e day p)
        (u32_or_max (contacts_at d e day)) \<noteq> None"
proof (cases "max_new_contacts_per_day (limits p) = 0")
  case True
  with want show ?thesis by (simp add: outreach_reserve_def why_held_def)
next
  case False
  let ?d = "d\<lparr>outreach_buckets := AList.update (e, day) (contacts_at d e day) (outreach_buckets d)\<rparr>"
  define r where "r = warmup_value midnight ?d day p"
  then have r: "warmup_release midnight day p ?d = Some (Inr r, ?d)" by (simp add: warmup_release_def)
  have bounds: "0 \<le> contacts_at d e day" "contacts_at d e day \<le> i32_top"
    using ok by (simp_all add: contacts_ok_def)
  have allowed: "allowed_today midnight d e day p = released (max_new_contacts_per_day (limits p)) r"
    by (simp add: allowed_today_def r_def)
  have "unat (min want (u_saturating_sub (allowed_today midnight d e day p) (u32_or_max (contacts_at d e day))))
      = grant_of midnight d e day p want"
    by (simp add: grant_of_def unat_min unat_saturating_sub unat_u32_or_max bounds)
  with none have zero: "min want (u_saturating_sub (allowed_today midnight d e day p)
      (u32_or_max (contacts_at d e day))) = 0"
    by (simp add: unat_eq_zero)
  have "allowed_today midnight d e day p \<le> u32_or_max (contacts_at d e day)"
  proof -
    from none want have "unat (allowed_today midnight d e day p) \<le> unat (u32_or_max (contacts_at d e day))"
      by (auto simp: grant_of_def min_def unat_u32_or_max bounds unat_eq_zero split: if_splits)
    then show ?thesis by (simp add: word_le_nat_alt)
  qed
  with False have "why_held (max_new_contacts_per_day (limits p)) (allowed_today midnight d e day p)
      (u32_or_max (contacts_at d e day)) \<noteq> None"
    by (auto simp: why_held_def)
  with False want zero show ?thesis
    by (auto simp: outreach_reserve_def Let_def lock_contacts_def r allowed [symmetric])
qed

lemma outreach_reserve_granted:
  assumes ok: "contacts_ok d" and some: "0 < grant_of midnight d e day p want"
    and fits: "int (unat (max_new_contacts_per_day (limits p))) \<le> i32_top"
  shows "outreach_reserve midnight e day p want d =
    Some (Inr (of_nat (grant_of midnight d e day p want)),
      d\<lparr>outreach_buckets := AList.update (e, day)
          (contacts_at d e day + int (grant_of midnight d e day p want)) (outreach_buckets d)\<rparr>)"
    and "contacts_at d e day + int (grant_of midnight d e day p want) \<le>
      int (unat (allowed_today midnight d e day p))"
proof -
  let ?d = "d\<lparr>outreach_buckets := AList.update (e, day) (contacts_at d e day) (outreach_buckets d)\<rparr>"
  let ?a = "allowed_today midnight d e day p" and ?g = "grant_of midnight d e day p want"
  let ?w = "min want (u_saturating_sub ?a (u32_or_max (contacts_at d e day)))"
  define r where "r = warmup_value midnight ?d day p"
  then have r: "warmup_release midnight day p ?d = Some (Inr r, ?d)" by (simp add: warmup_release_def)
  have bounds: "0 \<le> contacts_at d e day" "contacts_at d e day \<le> i32_top"
    using ok by (simp_all add: contacts_ok_def)
  have allowed: "?a = released (max_new_contacts_per_day (limits p)) r"
    by (simp add: allowed_today_def r_def)
  then have "unat ?a \<le> unat (max_new_contacts_per_day (limits p))"
    using released_le by (simp add: word_le_nat_alt [symmetric])
  moreover show le: "contacts_at d e day + int ?g \<le> int (unat ?a)"
  proof -
    have "?g \<le> unat ?a - nat (contacts_at d e day)" by (simp add: grant_of_def)
    with some bounds show ?thesis by linarith
  qed
  ultimately have sum: "contacts_at d e day + int ?g \<le> i32_top"
    using fits by linarith
  have g: "unat ?w = ?g"
    by (simp add: grant_of_def unat_min unat_saturating_sub unat_u32_or_max bounds)
  then have w: "?w = of_nat ?g" by (simp flip: g)
  from g some have "?w \<noteq> 0" by (metis less_irrefl unat_0)
  moreover from some have "want \<noteq> 0" by (auto simp: grant_of_def)
  moreover from some have "max_new_contacts_per_day (limits p) \<noteq> 0"
    using le bounds released_le [of "max_new_contacts_per_day (limits p)" r] by (auto simp: allowed)
  moreover have "i32_or_max ?w = int ?g"
    using sum bounds by (simp add: i32_or_max_def uint_nat g del: of_nat_unat)
  moreover have "AList.update (e, day) v (AList.update (e, day) u xs) = AList.update (e, day) v xs" for u v xs
    by (induction xs) auto
  ultimately show "outreach_reserve midnight e day p want d =
    Some (Inr (of_nat ?g),
      d\<lparr>outreach_buckets := AList.update (e, day) (contacts_at d e day + int ?g) (outreach_buckets d)\<rparr>)"
    using sum bounds
    by (simp add: outreach_reserve_def Let_def lock_contacts_def r allowed [symmetric] tmap_err_def
        add_contacts_def w [symmetric])
qed

section \<open>What the ceiling says and what a reservation does\<close>

lemma update_same: "map_of xs k = Some v \<Longrightarrow> AList.update k v xs = xs"
  by (induction xs) auto

lemma update_new: "map_of xs k = None \<Longrightarrow> AList.update k v xs = xs @ [(k, v)]"
  by (induction xs) (auto split: if_splits)

lemma approaches_since_locked:
  "approaches_since (d\<lparr>outreach_buckets := AList.update (e, day) (contacts_at d e day) (outreach_buckets d)\<rparr>) since
     = approaches_since d since"
  by (cases "map_of (outreach_buckets d) (e, day)")
    (simp_all add: contacts_at_def update_same update_new approaches_since_def)

lemma allowed_today_eq:
  "allowed_today midnight d e day p =
     released (max_new_contacts_per_day (limits p)) (warmup_value midnight d day p)"
  by (cases "outreach_warmup d") (auto simp: allowed_today_def warmup_value_def approaches_since_locked Let_def)

lemma contacts_ok_locked:
  "contacts_ok d \<Longrightarrow> 0 \<le> v \<Longrightarrow> v \<le> i32_top \<Longrightarrow>
     contacts_ok (d\<lparr>outreach_buckets := AList.update (e, day) v (outreach_buckets d)\<rparr>)"
  by (simp add: contacts_ok_def)

text \<open>A policy whose number fits the column it was read from.\<close>

definition contacts_fit :: "effective_policy \<Rightarrow> bool" where
  "contacts_fit p \<longleftrightarrow> int (unat (max_new_contacts_per_day (limits p))) \<le> i32_top"

text \<open>The requests of an employee over a day, each in its own transaction, and how many contacts
  they were granted together.\<close>

fun contacts_of_day ::
  "(ledger_day \<Rightarrow> timestamp) \<Rightarrow> employee_id \<Rightarrow> ledger_day \<Rightarrow> (effective_policy \<times> u32) list \<Rightarrow>
   outreach_db \<Rightarrow> (nat \<times> outreach_db) option" where
  "contacts_of_day midnight e day [] d = Some (0, d)"
| "contacts_of_day midnight e day ((p, want) # reqs) d =
     (case transact (outreach_reserve midnight e day p want) d of
        None \<Rightarrow> None
      | Some (Inl _, d') \<Rightarrow> contacts_of_day midnight e day reqs d'
      | Some (Inr n, d') \<Rightarrow>
          map_option (\<lambda>(m, d''). (unat n + m, d'')) (contacts_of_day midnight e day reqs d'))"

lemma outreach_reserve_step:
  assumes ok: "contacts_ok d" and fits: "contacts_fit p" and lim: "max_new_contacts_per_day (limits p) \<le> lim"
    and top: "int (unat lim) \<le> i32_top" and within_lim: "contacts_at d e day \<le> int (unat lim)"
  obtains r d' where "transact (outreach_reserve midnight e day p want) d = Some (r, d')"
    "contacts_ok d'" "contacts_at d' e day \<le> int (unat lim)"
    "contacts_at d' e day = contacts_at d e day + (case r of Inl _ \<Rightarrow> 0 | Inr n \<Rightarrow> int (unat n))"
proof (cases "want = 0")
  case True
  with that [of "Inr 0" d] ok within_lim show thesis
    by (simp add: outreach_reserve_def transact_def)
next
  case want: False
  show thesis
  proof (cases "grant_of midnight d e day p want = 0")
    case True
    from outreach_reserve_refused [OF ok want True] that ok within_lim show thesis
      by (fastforce simp: transact_def)
  next
    case False
    let ?g = "grant_of midnight d e day p want"
    from False have pos: "0 < ?g" by simp
    from fits have fits': "int (unat (max_new_contacts_per_day (limits p))) \<le> i32_top"
      by (simp only: contacts_fit_def)
    note grant = outreach_reserve_granted [OF ok pos fits']
    let ?d = "d\<lparr>outreach_buckets := AList.update (e, day) (contacts_at d e day + int ?g) (outreach_buckets d)\<rparr>"
    have "allowed_today midnight d e day p \<le> lim"
      unfolding allowed_today_def by (rule order_trans [OF released_le lim])
    then have "unat (allowed_today midnight d e day p) \<le> unat lim" by (simp only: word_le_nat_alt)
    with grant(2) have le: "contacts_at d e day + int ?g \<le> int (unat lim)" by linarith
    have "unat want < 2 ^ 32" using unat_eq_less [of want, OF refl] by simp
    moreover have "?g \<le> unat want" by (simp add: grant_of_def)
    ultimately have "?g < 2 ^ 32" by linarith
    then have unat: "unat (of_nat ?g :: u32) = ?g" by (simp add: unat_of_nat take_bit_nat_eq_self)
    have "0 \<le> contacts_at d e day" using ok by (simp add: contacts_ok_def)
    then have next_ok: "contacts_ok ?d" using le top by (intro contacts_ok_locked [OF ok]) auto
    have run: "transact (outreach_reserve midnight e day p want) d = Some (Inr (of_nat ?g), ?d)"
      by (simp add: transact_def grant(1))
    show thesis by (rule that [OF run next_ok]) (simp_all only: contacts_at_update le unat if_True sum.case simp_thms)
  qed
qed

lemma contacts_of_day_bound:
  assumes "contacts_ok d" and "list_all (\<lambda>(p, want). contacts_fit p \<and> max_new_contacts_per_day (limits p) \<le> lim) reqs"
    and "int (unat lim) \<le> i32_top" and "contacts_at d e day \<le> int (unat lim)"
  shows "\<exists>n d'. contacts_of_day midnight e day reqs d = Some (n, d') \<and>
    contacts_at d' e day = contacts_at d e day + int n \<and> contacts_at d' e day \<le> int (unat lim)"
  using assms
proof (induction reqs arbitrary: d)
  case (Cons req reqs)
  obtain p want where req: "req = (p, want)" by (cases req)
  with Cons.prems have p: "contacts_fit p" "max_new_contacts_per_day (limits p) \<le> lim"
    and rest: "list_all (\<lambda>(p, want). contacts_fit p \<and> max_new_contacts_per_day (limits p) \<le> lim) reqs"
    by auto
  obtain r d1 where step: "transact (outreach_reserve midnight e day p want) d = Some (r, d1)"
    "contacts_ok d1" "contacts_at d1 e day \<le> int (unat lim)"
    "contacts_at d1 e day = contacts_at d e day + (case r of Inl _ \<Rightarrow> 0 | Inr n \<Rightarrow> int (unat n))"
    by (rule outreach_reserve_step [OF Cons.prems(1) p Cons.prems(3,4)])
  from Cons.IH [OF step(2) rest Cons.prems(3) step(3)] step(1,4) show ?case
    by (cases r) (auto simp: req)
qed simp

section \<open>Properties of the contact budget\<close>

text \<open>C16. The contact budget is a ceiling: whatever an employee asks for over a day, in however many
  requests and under whichever policies none of which allows more than a number, the contacts it is
  granted, together with those already taken, never pass that number, warming or not, and the
  bucket counts exactly what was granted.\<close>

theorem contacts_of_day_within_limit:
  assumes "contacts_ok d" and "list_all (\<lambda>(p, want). contacts_fit p \<and> max_new_contacts_per_day (limits p) \<le> lim) reqs"
    and "int (unat lim) \<le> i32_top" and "contacts_at d e day \<le> int (unat lim)"
  shows "\<exists>n d'. contacts_of_day midnight e day reqs d = Some (n, d') \<and>
    contacts_at d' e day = contacts_at d e day + int n \<and>
    contacts_at d e day + int n \<le> int (unat lim)"
proof -
  from contacts_of_day_bound [OF assms] obtain n d' where
    "contacts_of_day midnight e day reqs d = Some (n, d')"
    "contacts_at d' e day = contacts_at d e day + int n" "contacts_at d' e day \<le> int (unat lim)" by blast
  then show ?thesis by auto
qed

definition sample_outreach :: outreach_db where
  "sample_outreach = \<lparr>outreach_buckets = [((EmployeeId 1, 19999), 40)],
     outreach_warmup = Some (19990, True), mail_refused = []\<rparr>"

definition sample_seller :: effective_policy where
  "sample_seller = EffectivePolicy (policy_default\<lparr>max_new_contacts_per_day := 20\<rparr>)"

theorem contacts_of_day_within_limit_witness:
  "\<exists>n d'. contacts_of_day (\<lambda>day. day * 86400) (EmployeeId 1) 20000
      [(sample_seller, 8), (sample_seller, 8), (sample_seller, 8)] sample_outreach = Some (n, d') \<and> n \<le> 20"
proof -
  have ok: "contacts_ok sample_outreach"
    by (simp add: contacts_ok_def contacts_at_def sample_outreach_def i32_top_def)
  have zero: "contacts_at sample_outreach (EmployeeId 1) 20000 = 0"
    by (simp add: contacts_at_def sample_outreach_def)
  have lim: "unat (20 :: u32) = 20" by simp
  have "contacts_fit sample_seller \<and> max_new_contacts_per_day (limits sample_seller) \<le> 20"
    by (simp add: contacts_fit_def sample_seller_def i32_top_def lim del: of_nat_unat)
  then have "list_all (\<lambda>(p, want). contacts_fit p \<and> max_new_contacts_per_day (limits p) \<le> 20)
      [(sample_seller, 8), (sample_seller, 8), (sample_seller, 8 :: u32)]" by simp
  from contacts_of_day_within_limit [OF ok this, of "EmployeeId 1" 20000 "\<lambda>day. day * 86400"] zero show ?thesis
    by (fastforce simp: i32_top_def)
qed

text \<open>C17. A refusal says why: when a request for one contact is refused, the reason is exactly the one
  the page that shows the ceiling gives for the same day, policy and count; and where that page
  gives no reason, the request is granted.\<close>

theorem refusal_is_the_ceilings_reason:
  assumes "contacts_ok d" and "contacts_fit p"
  shows "\<exists>c r d'. outreach_ceiling midnight day p (u32_or_max (contacts_at d e day)) d = Some (Inr c, d) \<and>
    outreach_reserve midnight e day p 1 d = Some (r, d') \<and>
    (\<forall>err. r = Inl err \<longrightarrow> ceiling_why c = Some err) \<and>
    (ceiling_why c = None \<longrightarrow> r = Inr 1)"
proof -
  let ?a = "allowed_today midnight d e day p" and ?t = "u32_or_max (contacts_at d e day)"
  let ?lim = "max_new_contacts_per_day (limits p)"
  obtain c where c: "outreach_ceiling midnight day p ?t d = Some (Inr c, d)" "ceiling_why c = why_held ?lim ?a ?t"
    by (cases "?lim = 0") (auto simp: outreach_ceiling_def Let_def warmup_release_def allowed_today_eq why_held_def)
  show ?thesis
  proof (cases "grant_of midnight d e day p 1 = 0")
    case True
    from outreach_reserve_refused [OF assms(1) _ True] c show ?thesis by fastforce
  next
    case False
    then have one: "grant_of midnight d e day p 1 = 1" "0 < grant_of midnight d e day p 1"
      by (simp_all add: grant_of_def)
    from assms(2) have "int (unat ?lim) \<le> i32_top" by (simp only: contacts_fit_def)
    from outreach_reserve_granted(1) [OF assms(1) one(2) this] one(1) c show ?thesis by simp
  qed
qed

theorem refusal_is_the_ceilings_reason_witness:
  "\<exists>c. outreach_ceiling (\<lambda>day. day * 86400) 20000 sample_seller 0 sample_outreach = Some (Inr c, sample_outreach)"
proof -
  have ok: "contacts_ok sample_outreach"
    by (simp add: contacts_ok_def contacts_at_def sample_outreach_def i32_top_def)
  have fit: "contacts_fit sample_seller"
    by (simp add: contacts_fit_def sample_seller_def i32_top_def del: of_nat_unat)
  have zero: "u32_or_max (contacts_at sample_outreach (EmployeeId 1) 20000) = 0"
    by (simp add: contacts_at_def sample_outreach_def u32_or_max_def)
  from refusal_is_the_ceilings_reason [OF ok fit, of "\<lambda>day. day * 86400" 20000 "EmployeeId 1", unfolded zero]
  show ?thesis by blast
qed

end
