(* ===== verification/CanonicalJson.thy ===== *)
theory CanonicalJson
  imports Transaction "HOL-Library.List_Lexorder"
begin

text \<open>
  The canonical form of \<open>crates/store/src/approvals.rs\<close>: a JSON value printed with its object keys
  in ascending order and its numbers as integers, so that an action has one spelling that can be
  hashed. \<open>json_value\<close> is \<open>serde_json::Value\<close>; \<open>esc\<close> stands for \<open>serde_json::to_string\<close> on a string, and
  what the proofs rely on of it is that a printed string ends where it says it does.

  The last sections show that the canonical form determines the value up to the order of its keys.
\<close>

datatype json_value =
    JNull
  | JBool bool
  | JPos u64
  | JNeg int
  | JFloat ustr
  | JString ustr
  | JArray "json_value list"
  | JObject "(ustr \<times> json_value) list"

datatype approval_error =
    AE_Store store_error
  | ActionMismatch ustr ustr
  | BadNonce
  | AlreadyDecided ustr
  | AE_Expired
  | AE_NotFound
  | ExpiresInThePast
  | NotCanonical ustr
  | AmountOutOfRange

fun all_results :: "('e + 'a) list \<Rightarrow> 'e + 'a list" where
  "all_results [] = Inr []"
| "all_results (r # rs) = rbind r (\<lambda>x. rbind (all_results rs) (\<lambda>xs. Inr (x # xs)))"

definition write_field :: "(ustr \<Rightarrow> ustr) \<Rightarrow> ustr \<times> (approval_error + ustr) \<Rightarrow> approval_error + ustr" where
  "write_field esc kr = rbind (snd kr) (\<lambda>w. Inr (esc (fst kr) @ 58 # w))"

primrec write_canonical :: "(ustr \<Rightarrow> ustr) \<Rightarrow> json_value \<Rightarrow> approval_error + ustr" where
  "write_canonical esc JNull = Inr (lit ''null'')"
| "write_canonical esc (JBool b) = Inr (if b then lit ''true'' else lit ''false'')"
| "write_canonical esc (JPos u) = Inr (show_word u)"
| "write_canonical esc (JNeg i) = Inr (show_int i)"
| "write_canonical esc (JFloat t) = Inl (NotCanonical (lit ''non-integer number '' @ t))"
| "write_canonical esc (JString s) = Inr (esc s)"
| "write_canonical esc (JArray xs) =
     rbind (all_results (map (write_canonical esc) xs)) (\<lambda>ws. Inr (91 # join [44] ws @ [93]))"
| "write_canonical esc (JObject kvs) =
     rbind (all_results (map (write_field esc)
              (sort_key fst (map (map_prod id (write_canonical esc)) kvs))))
       (\<lambda>ws. Inr (123 # join [44] ws @ [125]))"

section \<open>Printed pieces end where they say\<close>

definition stops :: "ustr \<Rightarrow> bool" where
  "stops r \<longleftrightarrow> r = [] \<or> \<not> is_ascii_digit (hd r)"

lemma stops_simps [simp]: "stops []" "stops (c # r) \<longleftrightarrow> \<not> is_ascii_digit c"
  by (simp_all add: stops_def)

lemma takeWhile_digits:
  "list_all is_ascii_digit a \<Longrightarrow> stops r \<Longrightarrow> takeWhile is_ascii_digit (a @ r) = a"
  by (cases r) (auto simp: list_all_iff takeWhile_append2)

lemma digits_end:
  assumes "list_all is_ascii_digit a" and "list_all is_ascii_digit b" and "stops r" and "stops r'"
    and "a @ r = b @ r'"
  shows "a = b \<and> r = r'"
proof -
  have "a = b" using takeWhile_digits [OF assms(1,3)] takeWhile_digits [OF assms(2,4)] assms(5) by simp
  with assms(5) show ?thesis by simp
qed

lemma all_results_Inr: "all_results rs = Inr ws \<longleftrightarrow> rs = map Inr ws"
  by (induction rs arbitrary: ws) (auto simp: rbind_eq_Inr_iff Cons_eq_map_conv)

lemma join_Cons_append:
  "join [44] (w # ws) @ t = w @ (if ws = [] then t else 44 # join [44] ws @ t)"
  by (cases ws) simp_all

lemma join_head: "w \<noteq> [] \<Longrightarrow> hd (join [44] (w # ws) @ t) = hd w"
  by (cases w) (simp_all only: join_Cons_append append_Cons list.sel simp_thms)

lemma join_end:
  assumes unique: "\<And>w w' r r'. w \<in> set ws \<Longrightarrow> w' \<in> set ws' \<Longrightarrow> stops r \<Longrightarrow> stops r' \<Longrightarrow>
      w @ r = w' @ r' \<Longrightarrow> w = w' \<and> r = r'"
    and heads: "\<And>w. w \<in> set ws \<or> w \<in> set ws' \<Longrightarrow> w \<noteq> [] \<and> hd w \<noteq> e"
    and e: "\<not> is_ascii_digit e" "e \<noteq> 44"
    and eq: "join [44] ws @ e # r = join [44] ws' @ e # r'"
  shows "ws = ws' \<and> r = r'"
  using unique heads eq
proof (induction ws arbitrary: ws')
  case Nil
  show ?case
  proof (cases ws')
    case Nil
    with Nil.prems(3) show ?thesis by simp
  next
    case (Cons w us)
    with Nil.prems(2) [of w] have w: "w \<noteq> []" "hd w \<noteq> e" by auto
    from Nil.prems(3) Cons have "hd (join [44] (w # us) @ e # r') = e" by (simp only: join.simps(1)) (metis append_Nil list.sel(1))
    with join_head [OF w(1)] w(2) show ?thesis by simp
  qed
next
  case (Cons w ws)
  have w: "w \<noteq> []" "hd w \<noteq> e" using Cons.prems(2) [of w] by auto
  show ?case
  proof (cases ws')
    case Nil
    with Cons.prems(3) have "hd (join [44] (w # ws) @ e # r) = e" by (simp only: join.simps(1)) simp
    with join_head [OF w(1)] w(2) show ?thesis by simp
  next
    case (Cons w' us')
    define t where "t = (if ws = [] then e # r else 44 # join [44] ws @ e # r)"
    define t' where "t' = (if us' = [] then e # r' else 44 # join [44] us' @ e # r')"
    have "stops t" "stops t'" using e(1) by (simp_all add: t_def t'_def is_ascii_digit_def)
    moreover have "w @ t = w' @ t'"
      using Cons.prems(3) unfolding Cons join_Cons_append t_def t'_def .
    moreover have "w \<in> set (w # ws)" "w' \<in> set ws'" using Cons by simp_all
    ultimately have ww: "w = w'" and tt: "t = t'"
      using Cons.prems(1) by blast+
    show ?thesis
    proof (cases "ws = [] \<or> us' = []")
      case True
      with tt e(2) have "ws = [] \<and> us' = [] \<and> r = r'"
        unfolding t_def t'_def by (cases "ws = []"; cases "us' = []") simp_all
      with ww Cons show ?thesis by simp
    next
      case False
      with tt have eq: "join [44] ws @ e # r = join [44] us' @ e # r'" by (simp add: t_def t'_def)
      have "ws = us' \<and> r = r'"
      proof (rule Cons.IH [OF _ _ eq])
        show "w0 = w1 \<and> r0 = r1" if "w0 \<in> set ws" "w1 \<in> set us'" "stops r0" "stops r1" "w0 @ r0 = w1 @ r1"
          for w0 w1 r0 r1
          by (rule Cons.prems(1)) (use that Cons in simp_all)
        show "w0 \<noteq> [] \<and> hd w0 \<noteq> e" if "w0 \<in> set ws \<or> w0 \<in> set us'" for w0
          by (rule Cons.prems(2)) (use that Cons in auto)
      qed
      with ww Cons show ?thesis by simp
    qed
  qed
qed

text \<open>The law of the printer of strings.\<close>

definition strings_end :: "(ustr \<Rightarrow> ustr) \<Rightarrow> bool" where
  "strings_end esc \<longleftrightarrow> (\<forall>s. \<exists>t. esc s = 34 # t) \<and>
     (\<forall>s s' r r'. esc s @ r = esc s' @ r' \<longrightarrow> s = s' \<and> r = r')"

lemma strings_endD:
  assumes "strings_end esc"
  shows "esc s \<noteq> []" and "hd (esc s) = 34" and "esc s @ r = esc s' @ r' \<Longrightarrow> s = s' \<and> r = r'"
  using assms unfolding strings_end_def by (metis list.distinct(1), metis list.sel(1), metis)

section \<open>Canonical values\<close>

primrec canon :: "json_value \<Rightarrow> json_value" where
  "canon JNull = JNull"
| "canon (JBool b) = JBool b"
| "canon (JPos u) = JPos u"
| "canon (JNeg i) = JNeg i"
| "canon (JFloat t) = JFloat t"
| "canon (JString s) = JString s"
| "canon (JArray xs) = JArray (map canon xs)"
| "canon (JObject kvs) = JObject (sort_key fst (map (map_prod id canon) kvs))"

text \<open>A negative number is negative: \<open>as_u64\<close> is tried first.\<close>

primrec json_ok :: "json_value \<Rightarrow> bool" where
  "json_ok JNull = True"
| "json_ok (JBool b) = True"
| "json_ok (JPos u) = True"
| "json_ok (JNeg i) = (i < 0)"
| "json_ok (JFloat t) = True"
| "json_ok (JString s) = True"
| "json_ok (JArray xs) = list_all json_ok xs"
| "json_ok (JObject kvs) = list_all (\<lambda>(k, ok). ok) (map (map_prod id json_ok) kvs)"

lemma insort_key_map_prod:
  "insort_key fst (map_prod id f x) (map (map_prod id f) xs) = map (map_prod id f) (insort_key fst x xs)"
  by (induction xs) auto

lemma sort_key_map_prod:
  "sort_key fst (map (map_prod id f) xs) = map (map_prod id f) (sort_key fst xs)"
  by (induction xs) (simp_all add: insort_key_map_prod [unfolded id_def] id_def)

definition opens :: "json_value \<Rightarrow> nat set" where
  "opens v = (case v of
      JNull \<Rightarrow> {110} | JBool b \<Rightarrow> (if b then {116} else {102})
    | JPos u \<Rightarrow> {c. is_ascii_digit c} | JNeg i \<Rightarrow> {45} | JFloat t \<Rightarrow> {}
    | JString s \<Rightarrow> {34} | JArray xs \<Rightarrow> {91} | JObject kvs \<Rightarrow> {123})"

lemma write_opens:
  assumes "strings_end esc" and "json_ok v" and "write_canonical esc v = Inr w"
  shows "w \<noteq> [] \<and> hd w \<in> opens v"
proof -
  have "is_ascii_digit (hd (show_nat n))" for n using show_nat_head_digit [of n] by auto
  then show ?thesis
    using assms(2,3) strings_endD(1,2) [OF assms(1)]
    by (cases v) (auto simp: rbind_eq_Inr_iff opens_def show_int_def show_word_def split: if_splits)
qed

text \<open>Two printed values that begin with the same character are of the same shape.\<close>

fun shape :: "json_value \<Rightarrow> nat" where
  "shape JNull = 0"
| "shape (JBool b) = (if b then 1 else 2)"
| "shape (JPos u) = 3"
| "shape (JNeg i) = 4"
| "shape (JFloat t) = 5"
| "shape (JString s) = 6"
| "shape (JArray xs) = 7"
| "shape (JObject kvs) = 8"

lemma opens_shape:
  assumes "c \<in> opens v" and "c \<in> opens v'"
  shows "shape v = shape v'"
proof -
  have "shape u = (if c = 110 then 0 else if c = 116 then 1 else if c = 102 then 2
      else if is_ascii_digit c then 3 else if c = 45 then 4 else if c = 34 then 6
      else if c = 91 then 7 else 8)" if "c \<in> opens u" for u
    using that by (cases u) (auto simp: opens_def is_ascii_digit_def split: if_splits)
  from this [OF assms(1)] this [OF assms(2)] show ?thesis by simp
qed

definition decodes :: "(ustr \<Rightarrow> ustr) \<Rightarrow> json_value \<Rightarrow> bool" where
  "decodes esc v \<longleftrightarrow> (\<forall>v' w w' r r'. json_ok v \<longrightarrow> json_ok v' \<longrightarrow>
     write_canonical esc v = Inr w \<longrightarrow> write_canonical esc v' = Inr w' \<longrightarrow>
     stops r \<longrightarrow> stops r' \<longrightarrow> w @ r = w' @ r' \<longrightarrow> canon v = canon v' \<and> w = w' \<and> r = r')"

lemma decodesD:
  "decodes esc v \<Longrightarrow> json_ok v \<Longrightarrow> json_ok v' \<Longrightarrow> write_canonical esc v = Inr w \<Longrightarrow>
     write_canonical esc v' = Inr w' \<Longrightarrow> stops r \<Longrightarrow> stops r' \<Longrightarrow> w @ r = w' @ r' \<Longrightarrow>
     canon v = canon v' \<and> w = w' \<and> r = r'"
  unfolding decodes_def by blast

lemma decodesI:
  assumes esc: "strings_end esc"
    and same: "\<And>v' w w' r r'. shape v' = shape v \<Longrightarrow> json_ok v \<Longrightarrow> json_ok v' \<Longrightarrow>
      write_canonical esc v = Inr w \<Longrightarrow> write_canonical esc v' = Inr w' \<Longrightarrow> stops r \<Longrightarrow> stops r' \<Longrightarrow>
      w @ r = w' @ r' \<Longrightarrow> canon v = canon v' \<and> w = w' \<and> r = r'"
  shows "decodes esc v"
  unfolding decodes_def
proof (intro allI impI)
  fix v' w w' r r'
  assume *: "json_ok v" "json_ok v'" "write_canonical esc v = Inr w" "write_canonical esc v' = Inr w'"
    "stops r" "stops r'" "w @ r = w' @ r'"
  from write_opens [OF esc *(1,3)] write_opens [OF esc *(2,4)] have "w \<noteq> []" "w' \<noteq> []"
    "hd w \<in> opens v" "hd w' \<in> opens v'" by auto
  moreover from this *(7) have "hd w = hd w'" by (metis hd_append2)
  ultimately have "shape v' = shape v" using opens_shape by metis
  from same [OF this *] show "canon v = canon v' \<and> w = w' \<and> r = r'" .
qed

lemma show_int_digits: "i < 0 \<Longrightarrow> show_int i = 45 # show_nat (nat (- i))"
  by (simp add: show_int_def)

lemma show_nat_inj: "show_nat n = show_nat m \<Longrightarrow> n = m"
  by (metis dec_val_show_nat)

lemma decodes_JPos: "strings_end esc \<Longrightarrow> decodes esc (JPos u)"
proof (rule decodesI)
  fix v' w w' r r'
  assume "shape v' = shape (JPos u)" and w: "write_canonical esc (JPos u) = Inr w"
    "write_canonical esc v' = Inr w'" "stops r" "stops r'" "w @ r = w' @ r'"
  then obtain u' where v': "v' = JPos u'" by (cases v') (auto split: if_splits)
  then have ws: "w = show_nat (unat u)" "w' = show_nat (unat u')" using w by (auto simp: show_word_def)
  have "show_nat (unat u) = show_nat (unat u') \<and> r = r'"
    using w(3-5) unfolding ws by (intro digits_end show_nat_digits)
  then have "unat u = unat u' \<and> r = r'" using show_nat_inj by blast
  then show "canon (JPos u) = canon v' \<and> w = w' \<and> r = r'" using w v' by (auto simp: word_unat_eq_iff)
qed

lemma decodes_JNeg: "strings_end esc \<Longrightarrow> decodes esc (JNeg i)"
proof (rule decodesI)
  fix v' w w' r r'
  assume "shape v' = shape (JNeg i)" "json_ok (JNeg i)" "json_ok v'" and
    w: "write_canonical esc (JNeg i) = Inr w"
    "write_canonical esc v' = Inr w'" "stops r" "stops r'" "w @ r = w' @ r'"
  then obtain j where v': "v' = JNeg j" "j < 0" "i < 0" by (cases v') (auto split: if_splits)
  then have ws: "w = 45 # show_nat (nat (- i))" "w' = 45 # show_nat (nat (- j))"
    using w by (auto simp: show_int_digits)
  have "show_nat (nat (- i)) = show_nat (nat (- j)) \<and> r = r'"
    using w(3-5) unfolding ws by (intro digits_end show_nat_digits) simp_all
  then have "i = j \<and> r = r'" using show_nat_inj [of "nat (- i)" "nat (- j)"] v' by auto
  then show "canon (JNeg i) = canon v' \<and> w = w' \<and> r = r'" using w v' by auto
qed

lemma map_Inr_inj: "map Inr xs = map Inr ys \<longleftrightarrow> xs = ys"
  by (simp add: inj_map_eq_map)

lemma decodes_JArray:
  assumes esc: "strings_end esc" and IH: "\<And>x. x \<in> set xs \<Longrightarrow> decodes esc x"
  shows "decodes esc (JArray xs)"
proof (rule decodesI [OF esc])
  fix v' w w' r r'
  assume "shape v' = shape (JArray xs)" and ok: "json_ok (JArray xs)" "json_ok v'" and
    w: "write_canonical esc (JArray xs) = Inr w" "write_canonical esc v' = Inr w'"
    and stop: "stops r" "stops r'" and eq: "w @ r = w' @ r'"
  then obtain xs' where v': "v' = JArray xs'" by (cases v') (auto split: if_splits)
  from w v' obtain ws ws' where ws: "map (write_canonical esc) xs = map Inr ws"
    "map (write_canonical esc) xs' = map Inr ws'"
    "w = 91 # join [44] ws @ [93]" "w' = 91 # join [44] ws' @ [93]"
    by (auto simp: rbind_eq_Inr_iff all_results_Inr)
  have len: "length xs = length ws" "length xs' = length ws'"
    using ws(1,2) map_eq_imp_length_eq by blast+
  have piece: "write_canonical esc (xs ! i) = Inr (ws ! i)" if "i < length ws" for i
    using ws(1) that len by (metis nth_map)
  have piece': "write_canonical esc (xs' ! i) = Inr (ws' ! i)" if "i < length ws'" for i
    using ws(2) that len by (metis nth_map)
  have oks: "json_ok (xs ! i)" if "i < length ws" for i using ok(1) that len by (simp add: list_all_length)
  have oks': "json_ok (xs' ! i)" if "i < length ws'" for i using ok(2) v' that len by (simp add: list_all_length)
  have "ws = ws' \<and> r = r'"
  proof (rule join_end [where e = 93])
    fix u u' s s'
    assume *: "u \<in> set ws" "u' \<in> set ws'" "stops s" "stops s'" "u @ s = u' @ s'"
    then obtain i j where i: "i < length ws" "u = ws ! i" and j: "j < length ws'" "u' = ws' ! j"
      by (metis in_set_conv_nth)
    have "decodes esc (xs ! i)" using IH i len by simp
    from decodesD [OF this oks [OF i(1)] oks' [OF j(1)] piece [OF i(1)] piece' [OF j(1)] *(3,4)] *(5) i j
    show "u = u' \<and> s = s'" by simp
  next
    fix u assume "u \<in> set ws \<or> u \<in> set ws'"
    then obtain x where "json_ok x" "write_canonical esc x = Inr u"
      using piece piece' oks oks' by (metis in_set_conv_nth)
    from write_opens [OF esc this] this show "u \<noteq> [] \<and> hd u \<noteq> 93"
      by (cases x) (auto simp: opens_def is_ascii_digit_def split: if_splits)
  qed (use eq ws(3,4) in \<open>simp_all add: is_ascii_digit_def\<close>)
  moreover from this have "map canon xs = map canon xs'"
  proof (intro nth_equalityI)
    fix i assume "i < length (map canon xs)"
    then have i: "i < length ws" using len by simp
    with calculation have i': "i < length ws'" by simp
    have "decodes esc (xs ! i)" using IH i len by simp
    from decodesD [OF this oks [OF i] oks' [OF i'] piece [OF i] piece' [OF i'], of "[]" "[]"]
    show "map canon xs ! i = map canon xs' ! i" using calculation i i' len by simp
  qed (use len calculation in simp)
  ultimately show "canon (JArray xs) = canon v' \<and> w = w' \<and> r = r'" using v' ws by simp
qed

lemma write_fields_Inr:
  "all_results (map (write_field esc) (sort_key fst (map (map_prod id (write_canonical esc)) kvs))) = Inr ws
     \<longleftrightarrow> map (\<lambda>kv. write_field esc (fst kv, write_canonical esc (snd kv))) (sort_key fst kvs) = map Inr ws"
proof -
  have "map_prod id g kv = (fst kv, g (snd kv))" for g :: "json_value \<Rightarrow> approval_error + ustr" and kv :: "ustr \<times> json_value"
    by (cases kv) simp
  then show ?thesis by (simp add: all_results_Inr sort_key_map_prod comp_def)
qed

lemma json_ok_JObject: "json_ok (JObject kvs) \<longleftrightarrow> (\<forall>kv\<in>set kvs. json_ok (snd kv))"
  by (auto simp: list_all_iff)

lemma decodes_JObject:
  assumes esc: "strings_end esc" and IH: "\<And>kv. kv \<in> set kvs \<Longrightarrow> decodes esc (snd kv)"
  shows "decodes esc (JObject kvs)"
proof (rule decodesI [OF esc])
  fix v' w w' r r'
  assume "shape v' = shape (JObject kvs)" and ok: "json_ok (JObject kvs)" "json_ok v'" and
    w: "write_canonical esc (JObject kvs) = Inr w" "write_canonical esc v' = Inr w'"
    and stop: "stops r" "stops r'" and eq: "w @ r = w' @ r'"
  then obtain kvs' where v': "v' = JObject kvs'" by (cases v') (auto split: if_splits)
  define xs where "xs = sort_key fst kvs"
  define xs' where "xs' = sort_key fst kvs'"
  define field where "field kv = write_field esc (fst kv, write_canonical esc (snd kv))" for kv
  have field_eq: "field = (\<lambda>kv. write_field esc (fst kv, write_canonical esc (snd kv)))"
    by (simp add: field_def fun_eq_iff)
  from w v' obtain ws ws' where ws: "map field xs = map Inr ws" "map field xs' = map Inr ws'"
    "w = 123 # join [44] ws @ [125]" "w' = 123 # join [44] ws' @ [125]"
    by (auto simp: rbind_eq_Inr_iff write_fields_Inr xs_def xs'_def field_eq)
  have len: "length xs = length ws" "length xs' = length ws'"
    using ws(1,2) map_eq_imp_length_eq by blast+
  have field_Inr: "\<exists>u. write_canonical esc (snd kv) = Inr u \<and> z = esc (fst kv) @ 58 # u"
    if "field kv = Inr z" for kv z
    using that by (auto simp: field_def write_field_def rbind_eq_Inr_iff)
  have piece: "field (xs ! i) = Inr (ws ! i)" if "i < length ws" for i
    using ws(1) that len by (metis nth_map)
  have piece': "field (xs' ! i) = Inr (ws' ! i)" if "i < length ws'" for i
    using ws(2) that len by (metis nth_map)
  have "xs ! i \<in> set kvs" if "i < length ws" for i
    using that len by (metis nth_mem set_sort xs_def)
  then have oks: "json_ok (snd (xs ! i))" "decodes esc (snd (xs ! i))" if "i < length ws" for i
    using ok(1) that IH unfolding json_ok_JObject by blast+
  have "xs' ! i \<in> set kvs'" if "i < length ws'" for i
    using that len by (metis nth_mem set_sort xs'_def)
  then have oks': "json_ok (snd (xs' ! i))" if "i < length ws'" for i
    using ok(2) that unfolding v' json_ok_JObject by blast
  have pair: "fst (xs ! i) = fst (xs' ! j) \<and> canon (snd (xs ! i)) = canon (snd (xs' ! j)) \<and>
      ws ! i = ws' ! j \<and> s = s'"
    if ij: "i < length ws" "j < length ws'" and st: "stops s" "stops s'" and e: "ws ! i @ s = ws' ! j @ s'" for i j s s'
  proof -
    from field_Inr [OF piece [OF ij(1)]] obtain u where u: "write_canonical esc (snd (xs ! i)) = Inr u"
      "ws ! i = esc (fst (xs ! i)) @ 58 # u" by blast
    from field_Inr [OF piece' [OF ij(2)]] obtain u' where u': "write_canonical esc (snd (xs' ! j)) = Inr u'"
      "ws' ! j = esc (fst (xs' ! j)) @ 58 # u'" by blast
    from e u(2) u'(2) have "esc (fst (xs ! i)) @ 58 # u @ s = esc (fst (xs' ! j)) @ 58 # u' @ s'" by simp
    from strings_endD(3) [OF esc this] have "fst (xs ! i) = fst (xs' ! j)" "u @ s = u' @ s'" by auto
    with decodesD [OF oks(2,1) [OF ij(1)] oks' [OF ij(2)] u(1) u'(1) st] u(2) u'(2) show ?thesis by simp
  qed
  have "ws = ws' \<and> r = r'"
  proof (rule join_end [where e = 125])
    fix u u' s s'
    assume *: "u \<in> set ws" "u' \<in> set ws'" "stops s" "stops s'" "u @ s = u' @ s'"
    then obtain i j where "i < length ws" "u = ws ! i" "j < length ws'" "u' = ws' ! j"
      by (metis in_set_conv_nth)
    with pair [of i j s s'] * show "u = u' \<and> s = s'" by simp
  next
    fix u assume "u \<in> set ws \<or> u \<in> set ws'"
    then obtain kv where "field kv = Inr u" using piece piece' by (metis in_set_conv_nth)
    with field_Inr strings_endD(1,2) [OF esc] show "u \<noteq> [] \<and> hd u \<noteq> 125"
      by (metis append_is_Nil_conv hd_append2 numeral_eq_iff semiring_norm(86) verit_eq_simplify(14))
  qed (use eq ws(3,4) in \<open>simp_all add: is_ascii_digit_def\<close>)
  moreover from this have "map (map_prod id canon) xs = map (map_prod id canon) xs'"
  proof (intro nth_equalityI)
    fix i assume "i < length (map (map_prod id canon) xs)"
    then have i: "i < length ws" using len by simp
    with calculation have i': "i < length ws'" by simp
    have "ws ! i @ [] = ws' ! i @ []" using calculation by simp
    from pair [OF i i' _ _ this] show "map (map_prod id canon) xs ! i = map (map_prod id canon) xs' ! i"
      using i i' len by (cases "xs ! i"; cases "xs' ! i") simp
  qed (use len calculation in simp)
  ultimately show "canon (JObject kvs) = canon v' \<and> w = w' \<and> r = r'"
    using v' ws by (simp add: sort_key_map_prod xs_def xs'_def)
qed

lemma decodes_all:
  assumes esc: "strings_end esc"
  shows "decodes esc v"
proof (induction v)
  case JNull
  show ?case
  proof (rule decodesI [OF esc])
    fix v' w w' r r'
    assume "shape v' = shape JNull" "write_canonical esc JNull = Inr w" "write_canonical esc v' = Inr w'"
      "w @ r = w' @ r'"
    then show "canon JNull = canon v' \<and> w = w' \<and> r = r'" by (cases v') (auto split: if_splits)
  qed
next
  case (JBool b)
  show ?case
  proof (rule decodesI [OF esc])
    fix v' w w' r r'
    assume "shape v' = shape (JBool b)" "write_canonical esc (JBool b) = Inr w"
      "write_canonical esc v' = Inr w'" "w @ r = w' @ r'"
    then show "canon (JBool b) = canon v' \<and> w = w' \<and> r = r'" by (cases v') (auto split: if_splits)
  qed
next
  case (JFloat t)
  then show ?case by (simp add: decodes_def)
next
  case (JString s)
  show ?case
  proof (rule decodesI [OF esc])
    fix v' w w' r r'
    assume "shape v' = shape (JString s)" and *: "write_canonical esc (JString s) = Inr w"
      "write_canonical esc v' = Inr w'" "w @ r = w' @ r'"
    then obtain s' where "v' = JString s'" by (cases v') (auto split: if_splits)
    with * strings_endD(3) [OF esc, of s r s' r'] show "canon (JString s) = canon v' \<and> w = w' \<and> r = r'"
      by auto
  qed
next
  case (JObject kvs)
  then show ?case by (intro decodes_JObject [OF esc]) (metis prod.collapse snds.intros)
qed (use decodes_JPos decodes_JNeg decodes_JArray esc in blast)+

text \<open>Two values have the same canonical form only if they are the same up to the order of keys.\<close>

lemma write_canonical_inj:
  assumes "strings_end esc" and "json_ok v" and "json_ok v'"
    and "write_canonical esc v = Inr w" and "write_canonical esc v' = Inr w"
  shows "canon v = canon v'"
  using decodesD [OF decodes_all [OF assms(1)] assms(2-5), of "[]" "[]"] by simp

section \<open>The escapes of JSON\<close>

text \<open>The printer of strings of RFC 8259 with the short escapes, an instance of the law.\<close>

definition hex_digit :: "nat \<Rightarrow> nat" where
  "hex_digit d = (if d < 10 then 48 + d else 87 + d)"

definition json_escape_char :: "nat \<Rightarrow> ustr" where
  "json_escape_char c =
     (if c = 34 then [92, 34] else if c = 92 then [92, 92] else if c = 8 then [92, 98]
      else if c = 9 then [92, 116] else if c = 10 then [92, 110] else if c = 12 then [92, 102]
      else if c = 13 then [92, 114]
      else if c < 32 then [92, 117, 48, 48, hex_digit (c div 16), hex_digit (c mod 16)]
      else [c])"

definition json_escape :: "ustr \<Rightarrow> ustr" where
  "json_escape s = 34 # concat (map json_escape_char s) @ [34]"

lemma hex_digit_inj: "d < 16 \<Longrightarrow> d' < 16 \<Longrightarrow> hex_digit d = hex_digit d' \<Longrightarrow> d = d'"
  by (auto simp: hex_digit_def split: if_splits)

lemma json_escape_char_head: "json_escape_char c \<noteq> []" "hd (json_escape_char c) \<noteq> 34"
  by (simp_all add: json_escape_char_def)

lemma json_escape_char_end:
  assumes "json_escape_char c @ r = json_escape_char c' @ r'"
  shows "c = c' \<and> r = r'"
proof -
  have hex: "c = c'" if "c < 32" "c' < 32" "hex_digit (c div 16) = hex_digit (c' div 16)"
    "hex_digit (c mod 16) = hex_digit (c' mod 16)"
  proof -
    from that have "c div 16 = c' div 16" "c mod 16 = c' mod 16" by (auto intro: hex_digit_inj)
    then show ?thesis by (metis div_mult_mod_eq)
  qed
  show ?thesis
    using assms hex unfolding json_escape_char_def
    by (cases "c < 32"; cases "c' < 32") (simp_all split: if_splits)
qed

lemma json_escape_body_end:
  "concat (map json_escape_char s) @ 34 # r = concat (map json_escape_char s') @ 34 # r' \<Longrightarrow> s = s' \<and> r = r'"
proof (induction s arbitrary: s')
  case Nil
  show ?case
  proof (cases s')
    case (Cons c t)
    with Nil show ?thesis using json_escape_char_head [of c] by (cases "json_escape_char c") auto
  qed (use Nil in simp)
next
  case (Cons c s)
  show ?case
  proof (cases s')
    case Nil
    with Cons.prems show ?thesis using json_escape_char_head [of c] by (cases "json_escape_char c") auto
  next
    case (Cons c' t)
    from Cons.prems have "json_escape_char c @ (concat (map json_escape_char s) @ 34 # r) =
        json_escape_char c' @ (concat (map json_escape_char t) @ 34 # r')"
      by (simp add: Cons)
    from json_escape_char_end [OF this] Cons.IH [of t] Cons show ?thesis by simp
  qed
qed

lemma strings_end_json_escape: "strings_end json_escape"
  by (auto simp: strings_end_def json_escape_def dest: json_escape_body_end)

end
