(* ===== verification/Approvals.thy ===== *)
theory Approvals
  imports CanonicalJson Gate Ledger
begin

text \<open>
  Approvals, \<open>crates/store/src/approvals.rs\<close>, with the refusal of
  \<open>apps/server/src/routes/approvals.rs\<close>: an action that needs a human is filed with the hash of
  its canonical form and a nonce, and is later redeemed by presenting the nonce and the action again.

  Parameters: \<open>esc\<close> prints a JSON string, \<open>show_uuid\<close> a UUID, \<open>sha\<close> is the hexadecimal SHA-256 of a
  text; the identifier and the nonce that a call draws are arguments.
\<close>

section \<open>The canonical form of an action\<close>

definition jstr :: "string \<Rightarrow> ustr \<Rightarrow> ustr \<times> json_value" where
  "jstr k s = (lit k, JString s)"

definition money_value :: "money \<Rightarrow> json_value" where
  "money_value m = JObject [(lit ''minor'', JPos (minor m)), jstr ''currency'' (code (currency m))]"

fun scope_value :: "(uuid \<Rightarrow> ustr) \<Rightarrow> data_scope \<Rightarrow> json_value" where
  "scope_value show_uuid (Conversation i) =
     JObject [jstr ''scope'' (lit ''conversation''), jstr ''id'' (show_uuid (conversation_uuid i))]"
| "scope_value show_uuid (AllForEmployee i) =
     JObject [jstr ''scope'' (lit ''all_for_employee''), jstr ''id'' (show_uuid (employee_uuid i))]"

definition tool_value :: "mcp_tool \<Rightarrow> json_value" where
  "tool_value t = JObject [jstr ''server'' (slug_str (mcp_server t)), jstr ''name'' (slug_str (mcp_name t))]"

text \<open>What the variant carries, under the names of its fields.\<close>

fun action_fields :: "(uuid \<Rightarrow> ustr) \<Rightarrow> action \<Rightarrow> (ustr \<times> json_value) list" where
  "action_fields show_uuid (EmailSend to) = [jstr ''to'' (email_display to)]"
| "action_fields show_uuid (SmsSend to) = [jstr ''to'' (e164_str to)]"
| "action_fields show_uuid (WhatsappSend to) = [jstr ''to'' (e164_str to)]"
| "action_fields show_uuid (CallPlace to) = [jstr ''to'' (e164_str to)]"
| "action_fields show_uuid (BrowserRead d) = [jstr ''domain'' (domain_str d)]"
| "action_fields show_uuid (BrowserWrite d) = [jstr ''domain'' (domain_str d)]"
| "action_fields show_uuid (FileUpload d) = [jstr ''domain'' (domain_str d)]"
| "action_fields show_uuid (McpCall t) = [(lit ''tool'', tool_value t)]"
| "action_fields show_uuid (A2aSend d) = [jstr ''peer'' (domain_str d)]"
| "action_fields show_uuid (PaymentCreate amt payee) =
     [(lit ''amount'', money_value amt), jstr ''payee'' payee]"
| "action_fields show_uuid (InvoiceIssue amt) = [(lit ''amount'', money_value amt)]"
| "action_fields show_uuid (QuoteIssue amt) = [(lit ''amount'', money_value amt)]"
| "action_fields show_uuid (ContractSign title) = [jstr ''title'' title]"
| "action_fields show_uuid (CredentialChange s) = [jstr ''secret'' (secret_ref_display show_uuid s)]"
| "action_fields show_uuid (DataDelete sc) = [(lit ''scope'', scope_value show_uuid sc)]"
| "action_fields show_uuid (CharterSet e) = [jstr ''subordinate'' (show_uuid (employee_uuid e))]"
| "action_fields show_uuid (InternalSend s) = [jstr ''to'' (slug_str s)]"
| "action_fields show_uuid AppointmentBook = []"

text \<open>\<open>serde_json::to_value\<close> on an \<open>Action\<close>: the tag \<open>action\<close>, then the fields.\<close>

definition action_value :: "(uuid \<Rightarrow> ustr) \<Rightarrow> action \<Rightarrow> json_value" where
  "action_value show_uuid a =
     JObject (jstr ''action'' (action_kind_str (kind a)) # action_fields show_uuid a)"

definition canonical_json :: "(ustr \<Rightarrow> ustr) \<Rightarrow> (uuid \<Rightarrow> ustr) \<Rightarrow> action \<Rightarrow> approval_error + ustr" where
  "canonical_json esc show_uuid a = write_canonical esc (action_value show_uuid a)"

section \<open>The table\<close>

datatype approval_id = ApprovalId uuid

record approval_row =
  ap_employee :: "employee_id option"
  ap_kind :: ustr
  ap_action :: ustr
  ap_hash :: ustr
  ap_nonce :: ustr
  ap_requested_by :: ustr
  ap_required_role :: ustr
  ap_draft :: "ustr option"
  ap_reason :: "ustr option"
  ap_risk :: ustr
  ap_state :: ustr
  ap_amount :: "(int \<times> ustr) option"
  ap_requested_at :: timestamp
  ap_expires_at :: "timestamp option"
  ap_decided_at :: "timestamp option"
  ap_decided_by :: "ustr option"
  ap_decision_note :: "ustr option"

type_synonym approvals = "approval_id \<rightharpoonup> approval_row"

definition state_pending :: ustr where "state_pending = lit ''pending''"

definition state_redeemed :: ustr where "state_redeemed = lit ''redeemed''"

definition state_denied :: ustr where "state_denied = lit ''denied''"

record new_approval =
  na_employee :: "employee_id option"
  na_action :: action
  na_requested_by :: ustr
  na_required_role :: ustr
  na_reason :: "ustr option"
  na_expires_at :: timestamp

record requested =
  rq_id :: approval_id
  rq_nonce :: ustr
  rq_action_hash :: ustr

record redeemed =
  rd_approval :: approval_id
  rd_employee :: "employee_id option"
  rd_action_hash :: ustr
  rd_decided_at :: timestamp

definition approval_amount :: "action \<Rightarrow> approval_error + (int \<times> ustr) option" where
  "approval_amount a =
     (case a of
        PaymentCreate amt _ \<Rightarrow>
          if uint (minor amt) \<le> i64_top then Inr (Some (uint (minor amt), code (currency amt)))
          else Inl AmountOutOfRange
      | _ \<Rightarrow> Inr None)"

definition approval_create ::
  "(ustr \<Rightarrow> ustr) \<Rightarrow> (uuid \<Rightarrow> ustr) \<Rightarrow> (ustr \<Rightarrow> ustr) \<Rightarrow> approval_id \<Rightarrow> ustr \<Rightarrow> new_approval \<Rightarrow> timestamp \<Rightarrow>
   (approvals, approval_error, requested) txn" where
  "approval_create esc show_uuid sha i nonce req tm t =
     (if na_expires_at req \<le> tm then Some (Inl ExpiresInThePast, t)
      else case canonical_json esc show_uuid (na_action req) of
        Inl e \<Rightarrow> Some (Inl e, t)
      | Inr canonical \<Rightarrow>
        (case approval_amount (na_action req) of
           Inl e \<Rightarrow> Some (Inl e, t)
         | Inr amt \<Rightarrow>
           if t i \<noteq> None then Some (Inl (AE_Store (SE_Conflict (lit ''approvals_pkey''))), t)
           else if amt \<noteq> None \<and> fst (the amt) \<le> 0 then Some (Inl (AE_Store SE_Database), t)
           else Some (Inr \<lparr>rq_id = i, rq_nonce = nonce, rq_action_hash = sha canonical\<rparr>,
             t(i \<mapsto> \<lparr>ap_employee = na_employee req, ap_kind = action_kind_str (kind (na_action req)),
                     ap_action = canonical, ap_hash = sha canonical, ap_nonce = nonce,
                     ap_requested_by = na_requested_by req, ap_required_role = na_required_role req,
                     ap_draft = None, ap_reason = na_reason req,
                     ap_risk = (if is_high (action_risk (na_action req)) then lit ''high'' else lit ''low''),
                     ap_state = state_pending, ap_amount = amt, ap_requested_at = tm,
                     ap_expires_at = Some (na_expires_at req), ap_decided_at = None,
                     ap_decided_by = None, ap_decision_note = None\<rparr>))))"

definition attach_draft :: "approval_id \<Rightarrow> ustr \<Rightarrow> (approvals, store_error, bool) txn" where
  "attach_draft i draft t =
     (case t i of
        Some row \<Rightarrow>
          if ap_state row = state_pending \<and> ap_draft row = None
          then Some (Inr True, t(i \<mapsto> row\<lparr>ap_draft := Some draft\<rparr>))
          else Some (Inr False, t)
      | None \<Rightarrow> Some (Inr False, t))"

definition expired :: "approval_row \<Rightarrow> timestamp \<Rightarrow> bool" where
  "expired row db_now \<longleftrightarrow> (case ap_expires_at row of None \<Rightarrow> True | Some x \<Rightarrow> x \<le> db_now)"

text \<open>One conditional \<open>UPDATE\<close>, and a second read that only names the reason.\<close>

definition approval_redeem ::
  "(ustr \<Rightarrow> ustr) \<Rightarrow> (uuid \<Rightarrow> ustr) \<Rightarrow> (ustr \<Rightarrow> ustr) \<Rightarrow> approval_id \<Rightarrow> ustr \<Rightarrow> action \<Rightarrow> ustr \<Rightarrow> timestamp \<Rightarrow>
   (approvals, approval_error, redeemed) txn" where
  "approval_redeem esc show_uuid sha i nonce a decided_by db_now t =
     (case canonical_json esc show_uuid a of
        Inl e \<Rightarrow> Some (Inl e, t)
      | Inr canonical \<Rightarrow>
        (case t i of
           None \<Rightarrow> Some (Inl AE_NotFound, t)
         | Some row \<Rightarrow>
           if ap_state row = state_pending \<and> \<not> expired row db_now \<and> ap_nonce row = nonce \<and>
              ap_hash row = sha canonical
           then Some (Inr \<lparr>rd_approval = i, rd_employee = ap_employee row,
                           rd_action_hash = ap_hash row, rd_decided_at = db_now\<rparr>,
                  t(i \<mapsto> row\<lparr>ap_state := state_redeemed, ap_decided_at := Some db_now,
                            ap_decided_by := Some decided_by\<rparr>))
           else if ap_nonce row \<noteq> nonce then Some (Inl BadNonce, t)
           else if ap_hash row \<noteq> sha canonical then Some (Inl (ActionMismatch (ap_hash row) (sha canonical)), t)
           else if ap_state row \<noteq> state_pending then Some (Inl (AlreadyDecided (ap_state row)), t)
           else if expired row db_now then Some (Inl AE_Expired, t)
           else Some (Inl (AE_Store (SE_Conflict
                  (lit ''approvals.redeem matched no row for an unexplained reason''))), t)))"

text \<open>The \<open>UPDATE\<close> of the route that refuses; \<open>false\<close> is its answer 409.\<close>

definition approval_deny ::
  "approval_id \<Rightarrow> ustr \<Rightarrow> ustr option \<Rightarrow> timestamp \<Rightarrow> (approvals, store_error, bool) txn" where
  "approval_deny i decided_by note tm t =
     (case t i of
        Some row \<Rightarrow>
          if ap_state row = state_pending
          then Some (Inr True, t(i \<mapsto> row\<lparr>ap_state := state_denied, ap_decided_at := Some tm,
                                          ap_decided_by := Some decided_by, ap_decision_note := note\<rparr>))
          else Some (Inr False, t)
      | None \<Rightarrow> Some (Inr False, t))"

section \<open>An action has one canonical form\<close>

text \<open>Printed UUIDs are distinct and hold no slash; the local part of an address holds no \<open>@\<close>.\<close>

definition uuids_print :: "(uuid \<Rightarrow> ustr) \<Rightarrow> bool" where
  "uuids_print show_uuid \<longleftrightarrow> inj show_uuid \<and> (\<forall>u. 47 \<notin> set (show_uuid u))"

fun action_text_ok :: "action \<Rightarrow> bool" where
  "action_text_ok (EmailSend to) = email_ok to"
| "action_text_ok _ = True"

lemma map_of_sort_key:
  assumes "distinct (map fst xs)"
  shows "map_of (sort_key fst xs) = map_of xs"
proof -
  have "distinct (map fst (sort_key fst xs))" using assms by (simp add: distinct_map)
  then have "map_of (sort_key fst xs) k = Some v \<longleftrightarrow> map_of xs k = Some v" for k v
    using assms by simp
  then show ?thesis by (metis ext not_None_eq)
qed

lemma canon_lookup:
  assumes "canon (JObject xs) = canon (JObject ys)" and "distinct (map fst xs)" and "distinct (map fst ys)"
  shows "map_option canon (map_of xs k) = map_option canon (map_of ys k)"
proof -
  let ?c = "map (map_prod id canon)"
  have look: "map_of (sort_key fst (?c zs)) = map_of (?c zs)" if "distinct (map fst zs)" for zs
    by (rule map_of_sort_key) (use that in \<open>simp add: comp_def\<close>)
  have opt: "map_of (?c zs) k = map_option canon (map_of zs k)" for zs
    by (induction zs) auto
  from assms(1) have "map_of (sort_key fst (?c xs)) k = map_of (sort_key fst (?c ys)) k" by simp
  then show ?thesis using look [OF assms(2)] look [OF assms(3)] opt by simp
qed

lemma action_kind_str_inj: "action_kind_str a = action_kind_str b \<Longrightarrow> a = b"
  by (cases a; cases b) simp_all

lemma action_value_distinct:
  "distinct (map fst (jstr ''action'' s # action_fields show_uuid a))"
  by (cases a) (simp_all add: jstr_def)

lemma action_value_fields:
  assumes "canon (action_value show_uuid a) = canon (action_value show_uuid b)"
  shows "kind a = kind b"
    and "map_option canon (map_of (action_fields show_uuid a) k) =
      map_option canon (map_of (action_fields show_uuid b) k) \<or> k = lit ''action''"
proof -
  note look = canon_lookup [OF assms [unfolded action_value_def] action_value_distinct action_value_distinct]
  from look [of "lit ''action''"] show "kind a = kind b"
    by (auto simp: jstr_def intro: action_kind_str_inj)
  show "map_option canon (map_of (action_fields show_uuid a) k) =
      map_option canon (map_of (action_fields show_uuid b) k) \<or> k = lit ''action''"
    using look [of k] by (cases "k = lit ''action''") (simp_all add: jstr_def del: lit_simps)
qed

lemma currency_code_inj: "code c = code d \<Longrightarrow> c = d"
  by (cases c; cases d) simp_all

lemma money_value_inj:
  assumes "canon (money_value m) = canon (money_value n)"
  shows "m = n"
proof -
  note look = canon_lookup [OF assms [unfolded money_value_def]]
  from look [of "lit ''minor''"] look [of "lit ''currency''"] have "minor m = minor n" "code (currency m) = code (currency n)"
    by (simp_all add: jstr_def)
  then show ?thesis using currency_code_inj by (cases m; cases n) auto
qed

lemma slug_eq: "slug_str a = slug_str b \<longleftrightarrow> a = b"
  by (cases a; cases b) simp

lemma tool_value_inj: "canon (tool_value t) = canon (tool_value u) \<Longrightarrow> t = u"
proof -
  assume "canon (tool_value t) = canon (tool_value u)"
  note look = canon_lookup [OF this [unfolded tool_value_def]]
  from look [of "lit ''server''"] look [of "lit ''name''"] show "t = u"
    by (cases t; cases u) (simp add: jstr_def slug_eq)
qed

lemma uuids_print_inj: "uuids_print show_uuid \<Longrightarrow> show_uuid u = show_uuid v \<longleftrightarrow> u = v"
  by (auto simp: uuids_print_def inj_def)

lemma scope_value_inj:
  assumes "uuids_print show_uuid" and "canon (scope_value show_uuid a) = canon (scope_value show_uuid b)"
  shows "a = b"
proof -
  obtain xs ys where v: "scope_value show_uuid a = JObject xs" "scope_value show_uuid b = JObject ys"
    "distinct (map fst xs)" "distinct (map fst ys)"
    by (cases a; cases b) (auto simp: jstr_def)
  note look = canon_lookup [OF assms(2) [unfolded v] v(3,4)]
  from look [of "lit ''scope''"] look [of "lit ''id''"] v(1,2) show ?thesis
    by (cases a; cases b; rename_tac i j; case_tac i; case_tac j)
      (auto simp: jstr_def uuids_print_inj [OF assms(1)])
qed

lemma append_sep_inj:
  fixes c :: nat
  assumes "c \<notin> set x" and "c \<notin> set y" and "x @ c # t = y @ c # u"
  shows "x = y \<and> t = u"
proof -
  have "Some (x, t) = Some (y, u)"
    using split_once_append [OF assms(1), of t] split_once_append [OF assms(2), of u]
    by (simp only: assms(3))
  then show ?thesis by simp
qed

lemma email_display_inj:
  assumes "email_ok e" and "email_ok e'" and "email_display e = email_display e'"
  shows "e = e'"
proof -
  have "64 \<notin> set (local_part x)" if "email_ok x" for x
    using that by (auto simp: email_ok_def list_all_iff local_char_def is_ascii_upper_def is_ascii_lower_def
        is_ascii_digit_def)
  from append_sep_inj [OF this [OF assms(1)] this [OF assms(2)]] assms(3)
  have "local_part e = local_part e'" "domain_str (email_domain e) = domain_str (email_domain e')"
    by (auto simp: email_display_def)
  then show ?thesis by (cases e; cases e') (simp add: domain.expand)
qed

lemma secret_ref_display_inj:
  assumes "uuids_print show_uuid" and "secret_ref_display show_uuid a = secret_ref_display show_uuid b"
  shows "a = b"
proof -
  let ?t = "\<lambda>r. show_uuid (tenant_uuid (sr_tenant r))" and ?e = "\<lambda>r. show_uuid (employee_uuid (sr_employee r))"
  have no: "47 \<notin> set (show_uuid u)" for u using assms(1) by (simp add: uuids_print_def)
  from assms(2) have "?t a @ 47 # (drop 1 (lit ''/employee/'') @ ?e a @ 47 # sr_name a) =
      ?t b @ 47 # (drop 1 (lit ''/employee/'') @ ?e b @ 47 # sr_name b)"
    by (simp add: secret_ref_display_def)
  from append_sep_inj [OF no no this] have t: "?t a = ?t b" and r: "?e a @ 47 # sr_name a = ?e b @ 47 # sr_name b"
    by auto
  from append_sep_inj [OF no no r] t show ?thesis
    by (cases a; cases b) (auto simp: uuids_print_inj [OF assms(1)] intro: tenant_id.expand employee_id.expand)
qed

lemma action_value_inj:
  assumes u: "uuids_print show_uuid" and ok: "action_text_ok a" "action_text_ok b"
    and eq: "canon (action_value show_uuid a) = canon (action_value show_uuid b)"
  shows "a = b"
proof -
  let ?f = "\<lambda>x k. map_option canon (map_of (action_fields show_uuid x) k)"
  note k = action_value_fields(1) [OF eq]
  have f: "?f a k = ?f b k" if "k \<noteq> lit ''action''" for k
    using action_value_fields(2) [OF eq, of k] that by blast
  show ?thesis
  proof (cases a)
    case (EmailSend x)
    with k obtain y where "b = EmailSend y" by (cases b) simp_all
    with EmailSend ok f [of "lit ''to''"] show ?thesis by (auto simp: jstr_def intro: email_display_inj)
  next
    case (SmsSend x)
    with k obtain y where "b = SmsSend y" by (cases b) simp_all
    with SmsSend f [of "lit ''to''"] show ?thesis by (auto simp: jstr_def e164.expand)
  next
    case (WhatsappSend x)
    with k obtain y where "b = WhatsappSend y" by (cases b) simp_all
    with WhatsappSend f [of "lit ''to''"] show ?thesis by (auto simp: jstr_def e164.expand)
  next
    case (CallPlace x)
    with k obtain y where "b = CallPlace y" by (cases b) simp_all
    with CallPlace f [of "lit ''to''"] show ?thesis by (auto simp: jstr_def e164.expand)
  next
    case (BrowserRead x)
    with k obtain y where "b = BrowserRead y" by (cases b) simp_all
    with BrowserRead f [of "lit ''domain''"] show ?thesis by (auto simp: jstr_def domain.expand)
  next
    case (BrowserWrite x)
    with k obtain y where "b = BrowserWrite y" by (cases b) simp_all
    with BrowserWrite f [of "lit ''domain''"] show ?thesis by (auto simp: jstr_def domain.expand)
  next
    case (FileUpload x)
    with k obtain y where "b = FileUpload y" by (cases b) simp_all
    with FileUpload f [of "lit ''domain''"] show ?thesis by (auto simp: jstr_def domain.expand)
  next
    case (McpCall x)
    with k obtain y where "b = McpCall y" by (cases b) simp_all
    with McpCall f [of "lit ''tool''"] show ?thesis by (auto intro: tool_value_inj)
  next
    case (A2aSend x)
    with k obtain y where "b = A2aSend y" by (cases b) simp_all
    with A2aSend f [of "lit ''peer''"] show ?thesis by (auto simp: jstr_def domain.expand)
  next
    case (PaymentCreate x p)
    with k obtain y q where "b = PaymentCreate y q" by (cases b) simp_all
    with PaymentCreate f [of "lit ''amount''"] f [of "lit ''payee''"] show ?thesis
      by (auto simp: jstr_def intro: money_value_inj)
  next
    case (InvoiceIssue x)
    with k obtain y where "b = InvoiceIssue y" by (cases b) simp_all
    with InvoiceIssue f [of "lit ''amount''"] show ?thesis by (auto intro: money_value_inj)
  next
    case (QuoteIssue x)
    with k obtain y where "b = QuoteIssue y" by (cases b) simp_all
    with QuoteIssue f [of "lit ''amount''"] show ?thesis by (auto intro: money_value_inj)
  next
    case (ContractSign x)
    with k obtain y where "b = ContractSign y" by (cases b) simp_all
    with ContractSign f [of "lit ''title''"] show ?thesis by (auto simp: jstr_def)
  next
    case (CredentialChange x)
    with k obtain y where "b = CredentialChange y" by (cases b) simp_all
    with CredentialChange f [of "lit ''secret''"] show ?thesis
      by (auto simp: jstr_def intro: secret_ref_display_inj [OF u])
  next
    case (DataDelete x)
    with k obtain y where "b = DataDelete y" by (cases b) simp_all
    with DataDelete f [of "lit ''scope''"] show ?thesis by (auto intro: scope_value_inj [OF u])
  next
    case (CharterSet x)
    with k obtain y where "b = CharterSet y" by (cases b) simp_all
    with CharterSet f [of "lit ''subordinate''"] show ?thesis
      by (auto simp: jstr_def uuids_print_inj [OF u] employee_id.expand)
  next
    case (InternalSend x)
    with k obtain y where "b = InternalSend y" by (cases b) simp_all
    with InternalSend f [of "lit ''to''"] show ?thesis by (auto simp: jstr_def slug_eq)
  next
    case AppointmentBook
    with k show ?thesis by (cases b) simp_all
  qed
qed

section \<open>Every action has a canonical form\<close>

primrec no_float :: "json_value \<Rightarrow> bool" where
  "no_float JNull = True"
| "no_float (JBool b) = True"
| "no_float (JPos u) = True"
| "no_float (JNeg i) = True"
| "no_float (JFloat t) = False"
| "no_float (JString s) = True"
| "no_float (JArray xs) = list_all no_float xs"
| "no_float (JObject kvs) = list_all (\<lambda>(k, ok). ok) (map (map_prod id no_float) kvs)"

lemma no_float_JObject: "no_float (JObject kvs) \<longleftrightarrow> (\<forall>kv\<in>set kvs. no_float (snd kv))"
  by (auto simp: list_all_iff)

lemma all_results_total: "(\<And>r. r \<in> set rs \<Longrightarrow> \<exists>w. r = Inr w) \<Longrightarrow> \<exists>ws. all_results rs = Inr ws"
proof (induction rs)
  case (Cons r rs)
  then obtain w ws where "r = Inr w" "all_results rs = Inr ws" by (metis list.set_intros)
  then show ?case by simp
qed simp

lemma write_canonical_total: "no_float v \<Longrightarrow> \<exists>w. write_canonical esc v = Inr w"
proof (induction v)
  case (JArray xs)
  then have "\<exists>ws. all_results (map (write_canonical esc) xs) = Inr ws"
    by (intro all_results_total) (auto simp: list_all_iff)
  then show ?case by auto
next
  case (JObject kvs)
  let ?field = "\<lambda>kv. write_field esc (fst kv, write_canonical esc (snd kv))"
  have "\<exists>w. ?field kv = Inr w" if "kv \<in> set kvs" for kv
  proof -
    from JObject.prems that have "no_float (snd kv)" unfolding no_float_JObject by blast
    with JObject.IH [of kv "snd kv"] that obtain w where "write_canonical esc (snd kv) = Inr w"
      by (metis prod.collapse snds.intros)
    then show ?thesis by (simp add: write_field_def)
  qed
  then have "\<exists>ws. all_results (map ?field (sort_key fst kvs)) = Inr ws"
    by (intro all_results_total) auto
  then obtain ws where "map ?field (sort_key fst kvs) = map Inr ws" by (auto simp: all_results_Inr)
  then show ?case using write_fields_Inr [of esc kvs ws] by auto
qed simp_all

lemma action_value_ok: "no_float (action_value show_uuid a)" "json_ok (action_value show_uuid a)"
proof -
  have "no_float (scope_value show_uuid sc)" "json_ok (scope_value show_uuid sc)" for sc
    by (cases sc; simp add: jstr_def)+
  then show "no_float (action_value show_uuid a)" "json_ok (action_value show_uuid a)"
    by (cases a; simp add: action_value_def jstr_def money_value_def tool_value_def)+
qed

lemma canonical_json_total:
  obtains w where "canonical_json esc show_uuid a = Inr w"
  using write_canonical_total [OF action_value_ok(1)] unfolding canonical_json_def by blast

lemma canonical_json_inj:
  assumes "strings_end esc" and "uuids_print show_uuid" and "action_text_ok a" and "action_text_ok b"
    and "canonical_json esc show_uuid a = Inr w" and "canonical_json esc show_uuid b = Inr w"
  shows "a = b"
  using action_value_inj [OF assms(2-4)]
    write_canonical_inj [OF assms(1) action_value_ok(2) action_value_ok(2)
      assms(5,6) [unfolded canonical_json_def]] by blast

section \<open>Runs of the approvals table\<close>

datatype approval_op =
    AO_Create approval_id ustr new_approval timestamp
  | AO_Attach approval_id ustr
  | AO_Redeem approval_id ustr action ustr timestamp
  | AO_Deny approval_id ustr "ustr option" timestamp

text \<open>The table after an operation, and the action it authorised, if it did.\<close>

fun approval_step ::
  "(ustr \<Rightarrow> ustr) \<Rightarrow> (uuid \<Rightarrow> ustr) \<Rightarrow> (ustr \<Rightarrow> ustr) \<Rightarrow> approval_op \<Rightarrow> approvals \<Rightarrow>
   (approvals \<times> (approval_id \<times> action) option) option" where
  "approval_step esc show_uuid sha (AO_Create i nonce req tm) t =
     map_option (\<lambda>(r, t'). (t', None)) (transact (approval_create esc show_uuid sha i nonce req tm) t)"
| "approval_step esc show_uuid sha (AO_Attach i draft) t =
     map_option (\<lambda>(r, t'). (t', None)) (transact (attach_draft i draft) t)"
| "approval_step esc show_uuid sha (AO_Redeem i nonce a by_whom tm) t =
     map_option (\<lambda>(r, t'). (t', case r of Inl _ \<Rightarrow> None | Inr _ \<Rightarrow> Some (i, a)))
       (transact (approval_redeem esc show_uuid sha i nonce a by_whom tm) t)"
| "approval_step esc show_uuid sha (AO_Deny i by_whom note tm) t =
     map_option (\<lambda>(r, t'). (t', None)) (transact (approval_deny i by_whom note tm) t)"

fun redemptions ::
  "(ustr \<Rightarrow> ustr) \<Rightarrow> (uuid \<Rightarrow> ustr) \<Rightarrow> (ustr \<Rightarrow> ustr) \<Rightarrow> approval_op list \<Rightarrow> approvals \<Rightarrow>
   (approval_id \<times> action) list" where
  "redemptions esc show_uuid sha [] t = []"
| "redemptions esc show_uuid sha (op # ops) t =
     (case approval_step esc show_uuid sha op t of
        None \<Rightarrow> []
      | Some (t', given) \<Rightarrow>
          (case given of None \<Rightarrow> [] | Some g \<Rightarrow> [g]) @ redemptions esc show_uuid sha ops t')"

lemma approval_redeem_Inr:
  "approval_redeem esc show_uuid sha i nonce a by_whom tm t = Some (Inr r, t') \<longleftrightarrow>
     (\<exists>row w. t i = Some row \<and> canonical_json esc show_uuid a = Inr w \<and> ap_state row = state_pending \<and>
        \<not> expired row tm \<and> ap_nonce row = nonce \<and> ap_hash row = sha w \<and>
        r = \<lparr>rd_approval = i, rd_employee = ap_employee row, rd_action_hash = ap_hash row,
             rd_decided_at = tm\<rparr> \<and>
        t' = t(i \<mapsto> row\<lparr>ap_state := state_redeemed, ap_decided_at := Some tm,
                        ap_decided_by := Some by_whom\<rparr>))"
  by (cases "canonical_json esc show_uuid a"; cases "t i") (auto simp: approval_redeem_def)

lemma approval_redeem_Inl:
  "approval_redeem esc show_uuid sha i nonce a by_whom tm t = Some (Inl e, t') \<Longrightarrow> t' = t"
  by (cases "canonical_json esc show_uuid a"; cases "t i") (auto simp: approval_redeem_def split: if_splits)

lemma approval_create_cases:
  assumes "approval_create esc show_uuid sha i nonce req tm t = Some (r, t')"
  shows "t' = t \<or> (t i = None \<and> (\<exists>row w. t' = t(i \<mapsto> row) \<and>
    canonical_json esc show_uuid (na_action req) = Inr w \<and> ap_hash row = sha w \<and>
    ap_nonce row = nonce \<and> ap_state row = state_pending))"
  using assms by (auto simp: approval_create_def split: if_splits sum.splits)

lemma attach_draft_cases:
  assumes "attach_draft i draft t = Some (r, t')"
  shows "t' = t \<or> (\<exists>row. t i = Some row \<and> ap_state row = state_pending \<and> t' = t(i \<mapsto> row\<lparr>ap_draft := Some draft\<rparr>))"
  using assms by (auto simp: attach_draft_def split: if_splits option.splits)

lemma approval_deny_cases:
  assumes "approval_deny i by_whom note tm t = Some (r, t')"
  shows "t' = t \<or> (\<exists>row. t i = Some row \<and> ap_state row = state_pending \<and>
    t' = t(i \<mapsto> row\<lparr>ap_state := state_denied, ap_decided_at := Some tm,
      ap_decided_by := Some by_whom, ap_decision_note := note\<rparr>))"
  using assms by (auto simp: approval_deny_def split: if_splits option.splits)

lemma approval_ops_run:
  "\<exists>r t'. approval_create esc show_uuid sha i nonce req tm t = Some (r, t')"
  "\<exists>r t'. attach_draft i draft t = Some (r, t')"
  "\<exists>r t'. approval_redeem esc show_uuid sha i nonce a by_whom tm t = Some (r, t')"
  "\<exists>r t'. approval_deny i by_whom note tm t = Some (r, t')"
  by (auto simp: approval_create_def attach_draft_def approval_redeem_def approval_deny_def
      split: sum.splits option.splits)

definition row_kept :: "approval_row \<Rightarrow> approval_row \<Rightarrow> bool" where
  "row_kept row row' \<longleftrightarrow> ap_hash row' = ap_hash row \<and> ap_nonce row' = ap_nonce row"

lemma row_keptI: "ap_hash row' = ap_hash row \<Longrightarrow> ap_nonce row' = ap_nonce row \<Longrightarrow> row_kept row row'"
  by (simp add: row_kept_def)

text \<open>What each step does to the table: nothing, a new pending row, or a change of a pending row.\<close>

lemma approval_step_cases:
  assumes "approval_step esc show_uuid sha op t = Some (t', given)"
  shows "(t' = t \<and> given = None) \<or>
    (\<exists>i nonce req tm row w. op = AO_Create i nonce req tm \<and> t i = None \<and> t' = t(i \<mapsto> row) \<and>
       given = None \<and> canonical_json esc show_uuid (na_action req) = Inr w \<and> ap_hash row = sha w \<and>
       ap_nonce row = nonce) \<or>
    (\<exists>i row row'. t i = Some row \<and> ap_state row = state_pending \<and> t' = t(i \<mapsto> row') \<and>
       row_kept row row' \<and>
       (given = None \<or> (\<exists>nonce a by_whom tm w. op = AO_Redeem i nonce a by_whom tm \<and> given = Some (i, a) \<and>
          ap_state row' = state_redeemed \<and> canonical_json esc show_uuid a = Inr w \<and> ap_hash row = sha w \<and>
          ap_nonce row = nonce)))"
proof (cases op)
  case (AO_Create i nonce req tm)
  obtain r u where run: "approval_create esc show_uuid sha i nonce req tm t = Some (r, u)"
    using approval_ops_run(1) by blast
  with assms AO_Create approval_create_cases [OF run] show ?thesis
    by (cases r) (auto simp: transact_def)
next
  case (AO_Attach i draft)
  obtain r u where run: "attach_draft i draft t = Some (r, u)" using approval_ops_run(2) by blast
  have t': "t' = (case r of Inl _ \<Rightarrow> t | Inr _ \<Rightarrow> u)" "given = None"
    using assms run by (cases r; simp add: AO_Attach transact_def)+
  from attach_draft_cases [OF run] show ?thesis
  proof (elim disjE exE conjE)
    assume "u = t"
    with t' show ?thesis by (cases r) simp_all
  next
    fix row assume row: "t i = Some row" "ap_state row = state_pending"
      "u = t(i \<mapsto> row\<lparr>ap_draft := Some draft\<rparr>)"
    let ?row = "row\<lparr>ap_draft := Some draft\<rparr>"
    have kept: "row_kept row ?row" by (rule row_keptI) simp_all
    show ?thesis
    proof (cases r)
      case (Inl e)
      with t' show ?thesis by simp
    next
      case (Inr x)
      with t' row(3) have "t' = t(i \<mapsto> ?row)" by simp
      with row(1,2) t'(2) kept show ?thesis by blast
    qed
  qed
next
  case (AO_Redeem i nonce a by_whom tm)
  obtain r u where run: "approval_redeem esc show_uuid sha i nonce a by_whom tm t = Some (r, u)"
    using approval_ops_run(3) by blast
  show ?thesis
  proof (cases r)
    case (Inl e)
    with assms AO_Redeem run show ?thesis by (simp add: transact_def)
  next
    case (Inr x)
    with run have "\<exists>row w. t i = Some row \<and> canonical_json esc show_uuid a = Inr w \<and>
        ap_state row = state_pending \<and> ap_nonce row = nonce \<and> ap_hash row = sha w \<and>
        u = t(i \<mapsto> row\<lparr>ap_state := state_redeemed, ap_decided_at := Some tm,
                        ap_decided_by := Some by_whom\<rparr>)"
      by (auto simp: approval_redeem_Inr)
    moreover have "t' = u" "given = Some (i, a)" using assms AO_Redeem run Inr by (simp_all add: transact_def)
    ultimately show ?thesis using AO_Redeem by (fastforce simp: row_kept_def)
  qed
next
  case (AO_Deny i by_whom why tm)
  obtain r u where run: "approval_deny i by_whom why tm t = Some (r, u)" using approval_ops_run(4) by blast
  have t': "t' = (case r of Inl _ \<Rightarrow> t | Inr _ \<Rightarrow> u)" "given = None"
    using assms run by (cases r; simp add: AO_Deny transact_def)+
  from approval_deny_cases [OF run] show ?thesis
  proof (elim disjE exE conjE)
    assume "u = t"
    with t' show ?thesis by (cases r) simp_all
  next
    fix row assume row: "t i = Some row" "ap_state row = state_pending"
      "u = t(i \<mapsto> row\<lparr>ap_state := state_denied, ap_decided_at := Some tm,
      ap_decided_by := Some by_whom, ap_decision_note := why\<rparr>)"
    let ?row = "row\<lparr>ap_state := state_denied, ap_decided_at := Some tm,
      ap_decided_by := Some by_whom, ap_decision_note := why\<rparr>"
    have kept: "row_kept row ?row" by (rule row_keptI) simp_all
    show ?thesis
    proof (cases r)
      case (Inl e)
      with t' show ?thesis by simp
    next
      case (Inr x)
      with t' row(3) have "t' = t(i \<mapsto> ?row)" by simp
      with row(1,2) t'(2) kept show ?thesis by blast
    qed
  qed
qed


text \<open>A decided row stays decided, and is never redeemed again.\<close>

definition decided :: "approvals \<Rightarrow> approval_id \<Rightarrow> bool" where
  "decided t i \<longleftrightarrow> (\<exists>row. t i = Some row \<and> ap_state row \<noteq> state_pending)"

lemma states_differ: "state_redeemed \<noteq> state_pending" "state_denied \<noteq> state_pending"
  by (simp_all add: state_redeemed_def state_denied_def state_pending_def)

lemma decided_step:
  assumes "approval_step esc show_uuid sha op t = Some (t', given)" and "decided t i"
  shows "decided t' i" and "\<And>a. given \<noteq> Some (i, a)"
  using approval_step_cases [OF assms(1)] assms(2) by (auto simp: decided_def)

lemma redeemed_decided:
  assumes "approval_step esc show_uuid sha op t = Some (t', Some (i, a))"
  shows "decided t' i"
  using approval_step_cases [OF assms] states_differ by (auto simp: decided_def)

lemma redemptions_undecided:
  "(i, a) \<in> set (redemptions esc show_uuid sha ops t) \<Longrightarrow> \<not> decided t i"
proof (induction ops arbitrary: t)
  case (Cons op ops)
  show ?case
  proof
    assume d: "decided t i"
    from Cons.prems obtain t' given where step: "approval_step esc show_uuid sha op t = Some (t', given)"
      by (cases "approval_step esc show_uuid sha op t") auto
    from decided_step [OF step d] Cons.prems step Cons.IH [of t'] show False
      by (auto split: option.splits)
  qed
qed simp

lemma redemptions_distinct: "distinct (map fst (redemptions esc show_uuid sha ops t))"
proof (induction ops arbitrary: t)
  case (Cons op ops)
  show ?case
  proof (cases "approval_step esc show_uuid sha op t")
    case (Some r)
    obtain t' given where r: "r = (t', given)" by (cases r)
    show ?thesis
    proof (cases given)
      case (Some g)
      then have "decided t' (fst g)"
        using redeemed_decided [of esc show_uuid sha op t t' "fst g" "snd g"] \<open>_ = Some r\<close> r by simp
      then have "fst g \<notin> fst ` set (redemptions esc show_uuid sha ops t')"
        using redemptions_undecided by fastforce
      with Some r \<open>_ = Some r\<close> Cons.IH [of t'] show ?thesis by simp
    qed (use r Some Cons.IH [of t'] in simp)
  qed simp
qed simp

text \<open>Every row was filed by a call that hashed its own action.\<close>

definition filed_by ::
  "(ustr \<Rightarrow> ustr) \<Rightarrow> (uuid \<Rightarrow> ustr) \<Rightarrow> (ustr \<Rightarrow> ustr) \<Rightarrow> approval_op set \<Rightarrow> approvals \<Rightarrow> bool" where
  "filed_by esc show_uuid sha S t \<longleftrightarrow>
     (\<forall>i row. t i = Some row \<longrightarrow>
        (\<exists>req tm w. AO_Create i (ap_nonce row) req tm \<in> S \<and>
           canonical_json esc show_uuid (na_action req) = Inr w \<and> ap_hash row = sha w))"

lemma filed_kept:
  assumes "filed_by esc show_uuid sha S t" and "t i = Some row" and "row_kept row row'"
  shows "filed_by esc show_uuid sha S (t(i \<mapsto> row'))"
  using assms unfolding filed_by_def row_kept_def by (metis fun_upd_apply option.inject)

lemma filed_step:
  assumes step: "approval_step esc show_uuid sha op t = Some (t', given)"
    and filed_by: "filed_by esc show_uuid sha S t" and "op \<in> S"
  shows "filed_by esc show_uuid sha S t'"
proof -
  have "filed_by esc show_uuid sha S (t(i \<mapsto> row))"
    if "op = AO_Create i nonce req tm" "canonical_json esc show_uuid (na_action req) = Inr w"
      "ap_hash row = sha w" "ap_nonce row = nonce" for i nonce req tm row w
    using that filed_by \<open>op \<in> S\<close> unfolding filed_by_def by auto
  then show ?thesis
    using approval_step_cases [OF step] filed_by filed_kept [OF filed_by] by blast
qed

lemma redemptions_filed:
  assumes "filed_by esc show_uuid sha S t" and "set ops \<subseteq> S"
    and "(i, a) \<in> set (redemptions esc show_uuid sha ops t)"
  shows "\<exists>nonce req tm w by_whom tm' w'. AO_Create i nonce req tm \<in> S \<and>
    AO_Redeem i nonce a by_whom tm' \<in> S \<and> sha w = sha w' \<and>
    canonical_json esc show_uuid (na_action req) = Inr w \<and> canonical_json esc show_uuid a = Inr w'"
  using assms
proof (induction ops arbitrary: t)
  case (Cons op ops)
  then obtain t' given where step: "approval_step esc show_uuid sha op t = Some (t', given)"
    by (cases "approval_step esc show_uuid sha op t") auto
  show ?case
  proof (cases "given = Some (i, a)")
    case True
    from approval_step_cases [OF step] True obtain row nonce by_whom tm' w' where
      row: "t i = Some row" "ap_nonce row = nonce" "ap_hash row = sha w'"
        "op = AO_Redeem i nonce a by_whom tm'" "canonical_json esc show_uuid a = Inr w'" by auto
    with Cons.prems(1) obtain req tm w where "AO_Create i nonce req tm \<in> S"
      "canonical_json esc show_uuid (na_action req) = Inr w" "sha w' = sha w"
      unfolding filed_by_def by metis
    with row Cons.prems(2) show ?thesis by fastforce
  next
    case False
    with Cons.prems(3) step have "(i, a) \<in> set (redemptions esc show_uuid sha ops t')"
      by (auto split: option.splits)
    with Cons.IH [OF filed_step [OF step Cons.prems(1)]] Cons.prems(2) show ?thesis by simp
  qed
qed simp

section \<open>What an approval promises\<close>

text \<open>The action that an operation carries.\<close>

fun op_action :: "approval_op \<Rightarrow> action option" where
  "op_action (AO_Create i nonce req tm) = Some (na_action req)"
| "op_action (AO_Redeem i nonce a by_whom tm) = Some a"
| "op_action _ = None"

definition run_actions :: "approval_op list \<Rightarrow> action set" where
  "run_actions ops = {a. Some a \<in> op_action ` set ops}"

text \<open>The canonical texts of a run, on which SHA-256 has to be free of collisions.\<close>

definition run_texts :: "(ustr \<Rightarrow> ustr) \<Rightarrow> (uuid \<Rightarrow> ustr) \<Rightarrow> approval_op list \<Rightarrow> ustr set" where
  "run_texts esc show_uuid ops = {w. \<exists>a \<in> run_actions ops. canonical_json esc show_uuid a = Inr w}"

lemma run_actionsI:
  "AO_Create i nonce req tm \<in> set ops \<Longrightarrow> na_action req \<in> run_actions ops"
  "AO_Redeem i nonce a by_whom tm \<in> set ops \<Longrightarrow> a \<in> run_actions ops"
  by (force simp: run_actions_def)+

text \<open>C14. Whatever calls file, annotate, deny and redeem approvals, and whatever they present, an
  approval authorises at most one execution, and the action that it authorises is the action that
  was filed under that identifier, redeemed with the nonce drawn when it was filed.\<close>

theorem authorises_what_was_filed:
  assumes "strings_end esc" and "uuids_print show_uuid"
    and "\<forall>a \<in> run_actions ops. action_text_ok a" and "inj_on sha (run_texts esc show_uuid ops)"
  shows "distinct (map fst (redemptions esc show_uuid sha ops Map.empty)) \<and>
    (\<forall>(i, a) \<in> set (redemptions esc show_uuid sha ops Map.empty).
       \<exists>nonce req tm by_whom tm'. AO_Create i nonce req tm \<in> set ops \<and> na_action req = a \<and>
         AO_Redeem i nonce a by_whom tm' \<in> set ops)"
proof (intro conjI redemptions_distinct ballI, clarify)
  fix i a assume given: "(i, a) \<in> set (redemptions esc show_uuid sha ops Map.empty)"
  have "filed_by esc show_uuid sha (set ops) Map.empty" by (simp add: filed_by_def)
  from redemptions_filed [OF this subset_refl given]
  obtain nonce req tm w by_whom tm' w' where
    ops: "AO_Create i nonce req tm \<in> set ops" "AO_Redeem i nonce a by_whom tm' \<in> set ops"
    and w: "canonical_json esc show_uuid (na_action req) = Inr w" "canonical_json esc show_uuid a = Inr w'"
    and same: "sha w = sha w'" by blast
  note acts = run_actionsI(1) [OF ops(1)] run_actionsI(2) [OF ops(2)]
  with w same assms(4) have "w = w'" unfolding run_texts_def by (blast dest: inj_onD)
  with canonical_json_inj [OF assms(1,2), of "na_action req" a w] w acts assms(3)
  have "na_action req = a" by simp
  with ops show "\<exists>nonce req tm by_whom tm'. AO_Create i nonce req tm \<in> set ops \<and> na_action req = a \<and>
      AO_Redeem i nonce a by_whom tm' \<in> set ops" by blast
qed

lemma uuids_print_show_word: "uuids_print show_word"
  unfolding uuids_print_def by (intro conjI allI inj_show_word digits_no_sep(2))

definition demo_request :: new_approval where
  "demo_request = \<lparr>na_employee = None, na_action = AppointmentBook, na_requested_by = lit ''ada'',
     na_required_role = lit ''admin'', na_reason = None, na_expires_at = 9\<rparr>"

definition demo_ops :: "approval_op list" where
  "demo_ops = [AO_Create (ApprovalId 1) (lit ''n'') demo_request 1,
     AO_Redeem (ApprovalId 1) (lit ''x'') AppointmentBook (lit ''bob'') 2,
     AO_Redeem (ApprovalId 1) (lit ''n'') AppointmentBook (lit ''bob'') 2,
     AO_Redeem (ApprovalId 1) (lit ''n'') AppointmentBook (lit ''bob'') 2]"

lemma demo_redemptions:
  "redemptions json_escape show_word id demo_ops Map.empty = [(ApprovalId 1, AppointmentBook)]"
proof -
  obtain w where w: "canonical_json json_escape show_word AppointmentBook = Inr w"
    by (rule canonical_json_total)
  show ?thesis
    by (simp add: demo_ops_def demo_request_def w transact_def approval_create_def approval_redeem_def
        approval_amount_def expired_def state_pending_def state_redeemed_def)
qed

theorem authorises_what_was_filed_witness:
  "redemptions json_escape show_word id demo_ops Map.empty = [(ApprovalId 1, AppointmentBook)] \<and>
   (\<exists>nonce req tm by_whom tm'. AO_Create (ApprovalId 1) nonce req tm \<in> set demo_ops \<and>
      na_action req = AppointmentBook \<and> AO_Redeem (ApprovalId 1) nonce AppointmentBook by_whom tm' \<in> set demo_ops)"
proof -
  have acts: "run_actions demo_ops = {AppointmentBook}"
    by (auto simp: run_actions_def demo_ops_def demo_request_def)
  show ?thesis
    using authorises_what_was_filed [of json_escape show_word demo_ops id, OF strings_end_json_escape
        uuids_print_show_word] acts demo_redemptions by simp
qed

text \<open>C15. Redeeming always answers, and answers with the first check that fails, in the order
  identifier, nonce, action, decision, deadline: the single conditional update of the code and the
  second read that names the reason agree with checking one condition after the other. A refusal
  leaves the table as it was; a redemption changes the decision of its own row and nothing else.\<close>

theorem redeem_answers_first_failure:
  "\<exists>w. canonical_json esc show_uuid a = Inr w \<and>
     transact (approval_redeem esc show_uuid sha i nonce a by_whom tm) t =
       (case t i of
          None \<Rightarrow> Some (Inl AE_NotFound, t)
        | Some row \<Rightarrow>
            if ap_nonce row \<noteq> nonce then Some (Inl BadNonce, t)
            else if ap_hash row \<noteq> sha w then Some (Inl (ActionMismatch (ap_hash row) (sha w)), t)
            else if ap_state row \<noteq> state_pending then Some (Inl (AlreadyDecided (ap_state row)), t)
            else if expired row tm then Some (Inl AE_Expired, t)
            else Some (Inr \<lparr>rd_approval = i, rd_employee = ap_employee row,
                           rd_action_hash = sha w, rd_decided_at = tm\<rparr>,
                       t(i \<mapsto> row\<lparr>ap_state := state_redeemed, ap_decided_at := Some tm,
                                 ap_decided_by := Some by_whom\<rparr>)))"
proof -
  obtain w where w: "canonical_json esc show_uuid a = Inr w" by (rule canonical_json_total)
  show ?thesis
    by (intro exI [of _ w] conjI w) (cases "t i"; simp add: transact_def approval_redeem_def w)
qed

text \<open>The canonical form is total on actions and one form is the form of one action, so the hash
  of a filed approval names one action, as far as SHA-256 does not collide.\<close>

theorem canonical_form_names_action:
  assumes "strings_end esc" and "uuids_print show_uuid" and "action_text_ok a" and "action_text_ok b"
  shows "\<exists>w w'. canonical_json esc show_uuid a = Inr w \<and> canonical_json esc show_uuid b = Inr w' \<and>
    (w = w' \<longleftrightarrow> a = b)"
proof -
  obtain w where w: "canonical_json esc show_uuid a = Inr w" by (rule canonical_json_total)
  obtain w' where w': "canonical_json esc show_uuid b = Inr w'" by (rule canonical_json_total)
  have "a = b" if "w = w'" using canonical_json_inj [OF assms w] w' that by simp
  then have "w = w' \<longleftrightarrow> a = b" using w w' by auto
  with w w' show ?thesis by blast
qed

theorem canonical_form_names_action_witness:
  "canonical_json json_escape show_word (ContractSign (lit ''NDA'')) \<noteq>
   canonical_json json_escape show_word (ContractSign (lit ''nda''))"
  using canonical_form_names_action [OF strings_end_json_escape uuids_print_show_word,
      of "ContractSign (lit ''NDA'')" "ContractSign (lit ''nda'')"] by auto

text \<open>An approval that a human refused stays refused: the refusal answers only for a pending
  row, and no run of calls after it redeems that approval.\<close>

theorem denied_is_final:
  assumes "transact (approval_deny i by_whom why tm) t = Some (Inr True, t')"
  shows "(i, a) \<notin> set (redemptions esc show_uuid sha ops t')"
proof -
  have "decided t' i"
    using assms states_differ
    by (auto simp: transact_def approval_deny_def decided_def split: option.splits if_splits)
  then show ?thesis using redemptions_undecided by blast
qed

theorem denied_is_final_witness:
  "\<exists>row (t :: approvals) t'. t (ApprovalId 1) = Some row \<and> ap_state row = state_pending \<and>
     transact (approval_deny (ApprovalId 1) (lit ''bob'') None 2) t = Some (Inr True, t') \<and>
     (ApprovalId 1, AppointmentBook) \<notin> set (redemptions json_escape show_word id demo_ops t')"
proof -
  obtain w where w: "canonical_json json_escape show_word AppointmentBook = Inr w"
    by (rule canonical_json_total)
  obtain row and t :: approvals where row: "t (ApprovalId 1) = Some row" "ap_state row = state_pending"
    using that [of "Map.empty(ApprovalId 1 \<mapsto> undefined\<lparr>ap_state := state_pending\<rparr>)"] by simp
  then obtain t' where "transact (approval_deny (ApprovalId 1) (lit ''bob'') None 2) t = Some (Inr True, t')"
    by (simp add: transact_def approval_deny_def)
  with row denied_is_final [OF this, of AppointmentBook json_escape show_word id demo_ops]
  show ?thesis by blast
qed

end
