(* ===== verification/Spec2Isabelle.thy ===== *)
theory Spec2Isabelle
  imports Employee Org Sourcing Revenue Initiative ModelChoice X402 Beliefs Identity
    HttpSignature Forgetting Expectation Links Forecast LedgerRuns Outreach Approvals
begin

text \<open>
  A model of the decision core of the agent runtime: the crate \<open>crates/domain\<close>, which holds the
  pure code that decides whether a side effect of an autonomous employee happens, and the pure
  modules of \<open>crates/app\<close> that decide for a turn. Everything else in the workspace (storage,
  providers, HTTP routes, polling loops) calls this code.

  Parts and theories, in the order of their imports:

  \<^item> \<open>Prelude\<close>, \<open>Text\<close>: results as sums (\<open>rbind\<close> is the operator \<open>?\<close>), checked and
    saturating machine arithmetic, strings as lists of code points with the operations of the
    standard library that the code uses.
  \<^item> \<open>Contracts\<close>: the interfaces as locales. \<open>narrowing\<close>: a partial meet with its order;
    \<open>ordered_ruling\<close>: a ruling that a narrower policy never makes more permissive; \<open>reparse\<close>:
    parsing what was printed; \<open>transitions\<close> and \<open>object_machine\<close>: a transition table and an object
    that follows it. Each is interpreted on the code's model in the theory that provides it.
  \<^item> \<open>Money\<close> (\<open>money.rs\<close>), \<open>Ids\<close> (\<open>ids.rs\<close>), \<open>Message\<close> (\<open>untrusted.rs\<close>, \<open>message.rs\<close>).
  \<^item> \<open>Action\<close> (\<open>action.rs\<close>): parsed addresses, the closed list of actions, their risk.
  \<^item> \<open>Policy\<close> and \<open>Gate\<close> (\<open>policy.rs\<close>): limits, their intersection over four layers, and
    \<open>evaluate\<close> with its rules.
  \<^item> \<open>Employee\<close> (\<open>employee.rs\<close>): lifecycle, the eleven resources with their dependencies,
    bindings, health. \<open>Org\<close> (\<open>org.rs\<close>): teams, budgets, sections, the role layer.
  \<^item> \<open>Sourcing\<close> (\<open>sourcing.rs\<close>) and \<open>Revenue\<close> (\<open>revenue.rs\<close>): the two commercial machines, with
    reputation, exchange rates and quotes on one side, contacts, evidence and the pipeline on the
    other.
  \<^item> \<open>Initiative\<close> (\<open>initiative.rs\<close>), \<open>ModelChoice\<close> (\<open>model_access.rs\<close> and
    \<open>crates/app/src/model_choice.rs\<close>), \<open>X402\<close> (\<open>crates/app/src/x402.rs\<close>), \<open>Beliefs\<close>
    (\<open>psyche/beliefs.rs\<close>), \<open>Identity\<close> (\<open>identity.rs\<close>, \<open>phone_pool.rs\<close>).
  \<^item> this theory: what holds of several components together, on a day of an employee.

  How the code is rendered. A struct is a record, an enum a datatype, a \<open>uN\<close> a word of that
  width with wrap-around where the code has it; \<open>NonZero\<close> integers are words with a predicate.
  Time stamps and time differences are unbounded integers. A \<open>BTreeMap\<close> is a partial map, a
  \<open>BTreeSet\<close> a finite set, iterated in the order of its elements where the code iterates. A method
  that takes \<open>&mut self\<close> returns the changed record, a refusal is the left summand and leaves the
  object as it was, and an \<open>expect\<close> that fires is the value \<open>None\<close>. No loop needs fuel: every
  recursion is over a list.

  What the lemmas show. \<open>Policy\<close> and \<open>Gate\<close>: the four layers meet in their greatest lower bound
  and no layer, section, team or membership can make a decision more permissive; the conditions
  under which a payment, a message or a page is allowed. \<open>Employee\<close>, \<open>Sourcing\<close>, \<open>Revenue\<close>: every
  sequence of operations follows the transition tables and keeps the books in step. \<open>Money\<close>,
  \<open>Sourcing\<close>, \<open>X402\<close>: arithmetic is exact or refused. \<open>Ids\<close>, \<open>Message\<close>, \<open>Action\<close>: what was printed
  parses back, and keys do not collide.

  Parameters stand for code outside the repository: the URL parser, the printing and parsing of
  UUIDs, NFKC and Unicode lowercasing, the arithmetic of \<open>chrono\<close>, the JSON decoder.

  Not modelled: the generation of UUIDv7 and the derived serialisation of \<open>serde\<close> (a stored
  value that bypasses a constructor); the floating-point modules \<open>forecast.rs\<close>,
  \<open>psyche/expectation.rs\<close>, \<open>psyche/forgetting.rs\<close>; the database, the providers, the HTTP server and
  the asynchronous orchestration of a turn, which are input and output around these decisions.
\<close>

section \<open>An employee in its teams\<close>

text \<open>The policy the gate consults for a member: the platform's and the tenant's layers, the role
  layer of its memberships, and its own.\<close>

definition member_policy ::
  "tenant_id \<Rightarrow> employee_id \<Rightarrow> team list \<Rightarrow> membership list \<Rightarrow> policy_limits \<Rightarrow> policy_limits \<Rightarrow>
   policy_limits \<Rightarrow> effective_policy \<Rightarrow> bool" where
  "member_policy tenant e teams ms platform tenant_layer own p \<longleftrightarrow>
     list_all team_ok teams \<and> policy_ok platform \<and> policy_ok tenant_layer \<and> policy_ok own \<and>
     (\<exists>role. role_layer tenant e teams ms = Inr (Some role) \<and>
        effective_try_new platform tenant_layer role own = Inr p)"

lemma member_policy_le:
  assumes "member_policy tenant e teams ms platform tenant_layer own p"
    and "m \<in> set ms" and "m_employee m = e"
  obtains x t where "membership_layer tenant e teams m = Inr x" "policy_ok x" "policy_ok (limits p)"
    "policy_le (limits p) x" "t \<in> set teams" "t_tenant t = tenant" "t_name t = m_team m" "team_ok t"
    "policy_le (limits p) (t_limits t)"
proof -
  from assms(1) obtain role where teams: "list_all team_ok teams"
    and ok: "policy_ok platform" "policy_ok tenant_layer" "policy_ok own"
    and role: "role_layer tenant e teams ms = Inr (Some role)"
    and eff: "fold_meet intersect platform [tenant_layer, role, own] = Inr (limits p)"
    by (auto simp: member_policy_def effective_try_new_fold)
  from role_layer_le [OF teams role assms(2,3)] obtain x where
    x: "membership_layer tenant e teams m = Inr x" "policy_ok x" "policy_ok role" "policy_le role x" .
  from membership_layer_Inr [OF teams x(1)] obtain t where t: "t \<in> set teams" "t_tenant t = tenant"
    "t_name t = m_team m" "team_ok t" "policy_le x (t_limits t)" by metis
  have "list_all policy_ok [tenant_layer, role, own]" using ok x(3) by simp
  from policy.fold_bounds [OF ok(1) this eff] have "policy_ok (limits p)" "policy_le (limits p) role" by auto
  moreover from this(2) x(4) have "policy_le (limits p) x" by (rule policy_le_trans)
  moreover from this t(5) have "policy_le (limits p) (t_limits t)" by (rule policy_le_trans)
  ultimately show thesis using that x t by blast
qed

section \<open>A day of payments\<close>





section \<open>A day of outreach\<close>






section \<open>Properties across components\<close>

text \<open>C1. Membership never widens: the decision on any action of a team member is at most as
  permissive as the decision under the layer of each of its memberships alone.\<close>

theorem member_decision_bounded:
  assumes "member_policy tenant e teams ms platform tenant_layer own p"
    and "m \<in> set ms" and "m_employee m = e" and "action_ok a"
  shows "\<exists>x. membership_layer tenant e teams m = Inr x \<and>
    decision_rank (evaluate p a ctx) \<le> decision_rank (evaluate (EffectivePolicy x) a ctx)"
proof -
  obtain x where x: "membership_layer tenant e teams m = Inr x" "policy_ok x" "policy_ok (limits p)"
      "policy_le (limits p) x"
    using member_policy_le [OF assms(1-3)] by metis
  from gate.rule_mono [OF x(3,2,4), of "(a, ctx)"] assms(4) x(1) show ?thesis
    by (cases p) auto
qed



section \<open>A concrete day\<close>

text \<open>One team with a daily budget of 1000.00 USD and one member.\<close>

definition funded_team :: team where
  "funded_team = \<lparr>t_tenant = TenantId 1, t_name = Slug (lit ''sales''), t_limits = sample_tenant,
     t_budget = Some (TeamBudget \<lparr>minor = 100000, currency = USD\<rparr>), t_sections = Map.empty\<rparr>"

definition sales_membership :: membership where
  "sales_membership = \<lparr>m_employee = EmployeeId 7, m_team = Slug (lit ''sales''), m_section = None\<rparr>"

definition sample_member_policy :: effective_policy where
  "sample_member_policy = EffectivePolicy sample_tenant"

lemma funded_team_ok: "team_ok funded_team"
  by (simp add: team_ok_def funded_team_def tool_count_def fcard_fempty sample_spend_limit(1) sample_spend_def
      spend_currency_def)

lemma sample_member:
  "member_policy (TenantId 1) (EmployeeId 7) [funded_team] [sales_membership] sample_platform sample_platform
     sample_platform sample_member_policy"
proof -
  have "role_layer (TenantId 1) (EmployeeId 7) [funded_team] [sales_membership] = Inr (Some sample_tenant)"
    by (simp add: role_layer_def sales_membership_def membership_layer_def layer_for_def funded_team_def)
  then show ?thesis
    by (simp add: member_policy_def funded_team_ok effective_try_new_def sample_member_policy_def)
qed

theorem member_decision_bounded_witness:
  "\<exists>x. membership_layer (TenantId 1) (EmployeeId 7) [funded_team] sales_membership = Inr x \<and>
     decision_rank (evaluate sample_member_policy (sample_payment 4000) sample_ctx) \<le>
     decision_rank (evaluate (EffectivePolicy x) (sample_payment 4000) sample_ctx)"
  using member_decision_bounded [OF sample_member, of sales_membership "sample_payment 4000" sample_ctx]
  by (simp add: sales_membership_def)





end
